(* ===== verification/Prelude.thy ===== *)
theory Prelude
  imports Main "HOL-Library.Word"
begin

unbundle bit_operations_syntax

text \<open>
  Shared material of the development: the program monad in which every
  operation of the allocator and of its test driver is written, the faults
  that end an execution, checked \<open>long\<close> arithmetic, and generic lemmas on
  integers, bit masks and lists.

  A program is a function from a state to either a fault or a result with
  the next state.  The faults are the ways in which the C code stops without
  returning: a failed \<open>assert\<close>, an access outside the heap or a misaligned
  one, a signed overflow (undefined in C), a call of \<open>exit\<close>, and a loop that
  has not ended within the bound its model gives it.
\<close>

section \<open>Programs that may fault\<close>

datatype fault =
    Assert_Failed
  | Bad_Address
  | Signed_Overflow
  | Exit int
  | Out_Of_Fuel

type_synonym ('s, 'a) prog = "'s \<Rightarrow> fault + ('a \<times> 's)"

definition ret :: "'a \<Rightarrow> ('s, 'a) prog" where
  "ret x = (\<lambda>s. Inr (x, s))"

definition bnd :: "('s, 'a) prog \<Rightarrow> ('a \<Rightarrow> ('s, 'b) prog) \<Rightarrow> ('s, 'b) prog" where
  "bnd m f = (\<lambda>s. case m s of Inl e \<Rightarrow> Inl e | Inr (x, s') \<Rightarrow> f x s')"

definition seqp :: "('s, unit) prog \<Rightarrow> ('s, 'b) prog \<Rightarrow> ('s, 'b) prog" where
  "seqp m k = bnd m (\<lambda>_. k)"

definition raise :: "fault \<Rightarrow> ('s, 'a) prog" where
  "raise e = (\<lambda>s. Inl e)"

definition gets :: "('s \<Rightarrow> 'a) \<Rightarrow> ('s, 'a) prog" where
  "gets f = (\<lambda>s. Inr (f s, s))"

definition modify :: "('s \<Rightarrow> 's) \<Rightarrow> ('s, unit) prog" where
  "modify f = (\<lambda>s. Inr ((), f s))"

definition assertp :: "bool \<Rightarrow> ('s, unit) prog" where
  "assertp b = (if b then ret () else raise Assert_Failed)"

text \<open>The evaluation rules; \<open>prog_eval\<close> collects what runs a program symbolically.\<close>

named_theorems prog_eval "rules that run a program on a state"

lemma bnd_apply [prog_eval]:
  "bnd m f s = (case m s of Inl e \<Rightarrow> Inl e | Inr (x, s') \<Rightarrow> f x s')"
  by (simp add: bnd_def)

lemma seqp_apply [prog_eval]:
  "seqp m k s = (case m s of Inl e \<Rightarrow> Inl e | Inr (_, s') \<Rightarrow> k s')"
  by (simp add: seqp_def bnd_def split: sum.splits prod.splits)

lemma ret_apply [prog_eval]: "ret x s = Inr (x, s)"
  by (simp add: ret_def)

lemma raise_apply [prog_eval]: "raise e s = Inl e"
  by (simp add: raise_def)

lemma gets_apply [prog_eval]: "gets f s = Inr (f s, s)"
  by (simp add: gets_def)

lemma modify_apply [prog_eval]: "modify f s = Inr ((), f s)"
  by (simp add: modify_def)

lemma assertp_apply [prog_eval]:
  "assertp b s = (if b then Inr ((), s) else Inl Assert_Failed)"
  by (simp add: assertp_def ret_def raise_def)

text \<open>The monad laws, which let a call be rearranged without running it.\<close>

lemma bnd_ret_left [simp]: "bnd (ret x) f = f x"
  by (simp add: bnd_def ret_def)

lemma bnd_ret_right [simp]: "bnd m ret = m"
  by (rule ext) (simp add: bnd_def ret_def split: sum.splits prod.splits)

lemma bnd_assoc: "bnd (bnd m f) g = bnd m (\<lambda>x. bnd (f x) g)"
  by (rule ext) (simp add: bnd_def split: sum.splits prod.splits)

section \<open>C integers\<close>

text \<open>
  A C \<open>long\<close> is an \<open>int\<close> in the range of 64 bits.  Signed addition that
  leaves the range is undefined in C and a fault here.  A conversion from
  \<open>long\<close> to \<open>int\<close> keeps the low 32 bits, read as a signed value.
\<close>

definition is_long :: "int \<Rightarrow> bool" where
  "is_long x \<longleftrightarrow> - (2 ^ 63) \<le> x \<and> x < 2 ^ 63"

definition is_int :: "int \<Rightarrow> bool" where
  "is_int x \<longleftrightarrow> - (2 ^ 31) \<le> x \<and> x < 2 ^ 31"

definition long_add :: "int \<Rightarrow> int \<Rightarrow> ('s, int) prog" where
  "long_add x y = (if is_long (x + y) then ret (x + y) else raise Signed_Overflow)"

definition int_add :: "int \<Rightarrow> int \<Rightarrow> ('s, int) prog" where
  "int_add x y = (if is_int (x + y) then ret (x + y) else raise Signed_Overflow)"

definition int_of_long :: "int \<Rightarrow> int" where
  "int_of_long x = signed_take_bit 31 x"

lemma long_add_apply [prog_eval]:
  "long_add x y s = (if is_long (x + y) then Inr (x + y, s) else Inl Signed_Overflow)"
  by (simp add: long_add_def ret_def raise_def)

lemma int_add_apply [prog_eval]:
  "int_add x y s = (if is_int (x + y) then Inr (x + y, s) else Inl Signed_Overflow)"
  by (simp add: int_add_def ret_def raise_def)

lemma int_of_long_id: "is_int x \<Longrightarrow> int_of_long x = x"
  by (simp add: int_of_long_def is_int_def signed_take_bit_int_eq_self)

lemma int_of_long_neg:
  assumes "2 ^ 31 \<le> x" and "x < 2 ^ 32"
  shows "int_of_long x < 0"
proof -
  have "bit x 31"
  proof -
    have "x div 2 ^ 31 = 1"
      using assms by (simp add: div_pos_geq)
    then show ?thesis by (simp add: bit_iff_odd)
  qed
  then show ?thesis
    by (simp add: int_of_long_def)
qed

lemma int_of_long_wrap: "int_of_long (x + 2 ^ 32 * k) = int_of_long x"
proof -
  have "take_bit 32 (x + 2 ^ 32 * k) = take_bit 32 x"
    by (simp add: take_bit_eq_mod)
  then show ?thesis
    by (simp add: int_of_long_def signed_take_bit_eq_iff_take_bit_eq)
qed

section \<open>Masks\<close>

text \<open>
  Block sizes are multiples of 8, so the low bit of a size field is free to
  hold the allocated flag.  These rules read the mask operations of the code
  as arithmetic.
\<close>

named_theorems masks "mask operations as arithmetic"

lemma and_1 [masks]: "(x::int) AND 1 = x mod 2"
  by (simp add: and_one_eq)

lemma or_1 [masks]: "(x::int) OR 1 = x + 1 - x mod 2"
  by (cases "even x") (simp_all add: or_one_eq odd_iff_mod_2_eq_one)

lemma or_0 [masks]: "(x::int) OR 0 = x"
  by simp

lemma and_7 [masks]: "(x::int) AND 7 = x mod 8"
proof -
  have "x AND 7 = x AND mask 3" by (simp add: mask_eq_exp_minus_1)
  then show ?thesis by (simp add: take_bit_eq_mask [symmetric] take_bit_eq_mod)
qed

lemma and_255 [masks]: "(x::int) AND 255 = x mod 256"
proof -
  have "x AND 255 = x AND mask 8" by (simp add: mask_eq_exp_minus_1)
  then show ?thesis by (simp add: take_bit_eq_mask [symmetric] take_bit_eq_mod)
qed

lemma and_not_mask_int: "(x::int) AND NOT (mask n) = x - x mod 2 ^ n"
proof -
  have "x AND NOT (mask n) = push_bit n (drop_bit n x)"
    by (rule bit_eqI) (auto simp: bit_simps)
  also have "\<dots> = x - x mod 2 ^ n"
    by (simp add: push_bit_eq_mult drop_bit_eq_div minus_mod_eq_div_mult)
  finally show ?thesis .
qed

lemma and_minus_2 [masks]: "(x::int) AND - 2 = x - x mod 2"
proof -
  have "- 2 = NOT (mask 1 :: int)" by (simp add: mask_eq_exp_minus_1)
  then show ?thesis using and_not_mask_int [of x 1] by simp
qed

lemma and_not_7 [masks]: "(x::int) AND NOT 7 = x - x mod 8"
proof -
  have "(7::int) = mask 3" by (simp add: mask_eq_exp_minus_1)
  then show ?thesis using and_not_mask_int [of x 3] by simp
qed

lemma and_minus_8 [masks]: "(x::int) AND - 8 = x - x mod 8"
proof -
  have "- 8 = NOT (mask 3 :: int)" by (simp add: mask_eq_exp_minus_1)
  then show ?thesis using and_not_mask_int [of x 3] by simp
qed

lemma mod8_mod2: "(x::int) mod 8 = 0 \<Longrightarrow> x mod 2 = 0"
  by presburger

text \<open>Alignment arithmetic.\<close>

lemma mod_diff_0: "(b::int) mod 8 = 0 \<Longrightarrow> (t - b) mod 8 = t mod 8"
  by (simp add: mod_diff_eq [symmetric])

lemma mod_shift:
  "((x::int) + 8 - b) mod 8 = (x - b) mod 8" "(x + 16 - b) mod 8 = (x - b) mod 8"
proof -
  have "x + 8 - b = (x - b) + 8 * 1" "x + 16 - b = (x - b) + 8 * 2" by simp_all
  then show "(x + 8 - b) mod 8 = (x - b) mod 8" "(x + 16 - b) mod 8 = (x - b) mod 8"
    by (simp_all only: mod_mult_self2)
qed

lemma mod_add_0: "(a::int) mod 8 = 0 \<Longrightarrow> b mod 8 = 0 \<Longrightarrow> (a + b) mod 8 = 0"
  by (simp add: mod_add_eq [symmetric])

section \<open>Lists\<close>

lemma distinct_remove1_split:
  "distinct (us @ x # vs) \<Longrightarrow> remove1 x (us @ x # vs) = us @ vs"
  by (auto simp: remove1_append)

lemma set_remove1_distinct: "distinct xs \<Longrightarrow> set (remove1 x xs) = set xs - {x}"
  by simp

lemma find_eq_NoneD: "List.find P xs = None \<Longrightarrow> x \<in> set xs \<Longrightarrow> \<not> P x"
  by (auto simp: find_None_iff)

lemma find_eq_SomeD: "List.find P xs = Some x \<Longrightarrow> x \<in> set xs \<and> P x"
  by (auto simp: find_Some_iff)

end
