(* ===== verification/Memsys.thy ===== *)
theory Memsys
  imports Prelude
begin

text \<open>
  The simulated memory system, \<^verbatim>\<open>memlib.c\<close>: one region obtained from the C
  library, a break pointer that only grows, and the bytes of the region.
  Addresses are integers.  A 64-bit field of a block is eight bytes, little
  endian, as on the x86-64 machines the code is built for; reading or writing
  one at a misaligned address or outside the part of the region that
  \<open>mem_sbrk\<close> has handed out is a fault.  \<open>memset\<close> and \<open>memmove\<close> are those of the
  C library.

  The lemmas say that an aligned store is seen by an aligned load at the same
  address only, which the locale \<open>word_store\<close> states as an interface for the
  theories that reason about tags and free-list links.
\<close>

section \<open>State\<close>

record memsys =
  mem :: "int \<Rightarrow> 8 word"
  mem_start_brk :: int
  mem_brk :: int
  mem_max_addr :: int

definition MAX_HEAP :: int where
  "MAX_HEAP = 20 * (push_bit 20 1)"

definition SBRK_FAILED :: int where
  "SBRK_FAILED = - 1"

section \<open>Operations of memlib.c\<close>

text \<open>The argument is what the C library's \<open>malloc(MAX_HEAP)\<close> returned.\<close>

definition mem_init :: "int option \<Rightarrow> ('a memsys_scheme, unit) prog" where
  "mem_init vm =
     (case vm of
        None \<Rightarrow> raise (Exit 1)
      | Some p \<Rightarrow>
          seqp (modify (\<lambda>s. s\<lparr>mem_start_brk := p\<rparr>))
         (seqp (modify (\<lambda>s. s\<lparr>mem_max_addr := mem_start_brk s + MAX_HEAP\<rparr>))
               (modify (\<lambda>s. s\<lparr>mem_brk := mem_start_brk s\<rparr>))))"

definition mem_reset_brk :: "('a memsys_scheme, unit) prog" where
  "mem_reset_brk = modify (\<lambda>s. s\<lparr>mem_brk := mem_start_brk s\<rparr>)"

text \<open>\<open>mem_deinit\<close> gives the region back; \<open>free\<close> and \<open>getpagesize\<close> are the system's.\<close>

definition mem_deinit :: "(int \<Rightarrow> ('a memsys_scheme, unit) prog) \<Rightarrow> ('a memsys_scheme, unit) prog" where
  "mem_deinit free = bnd (gets mem_start_brk) free"

definition mem_pagesize :: "('a memsys_scheme, int) prog \<Rightarrow> ('a memsys_scheme, int) prog" where
  "mem_pagesize getpagesize = bnd getpagesize ret"

definition mem_sbrk :: "int \<Rightarrow> ('a memsys_scheme, int) prog" where
  "mem_sbrk incr =
     bnd (gets mem_brk) (\<lambda>old_brk.
     bnd (gets mem_max_addr) (\<lambda>max_addr.
       if incr < 0 \<or> old_brk + incr > max_addr then ret SBRK_FAILED
       else seqp (modify (\<lambda>s. s\<lparr>mem_brk := mem_brk s + incr\<rparr>)) (ret old_brk)))"

definition mem_heap_lo :: "'a memsys_scheme \<Rightarrow> int" where
  "mem_heap_lo s = mem_start_brk s"

definition mem_heap_hi :: "'a memsys_scheme \<Rightarrow> int" where
  "mem_heap_hi s = mem_brk s - 1"

definition mem_heapsize :: "'a memsys_scheme \<Rightarrow> int" where
  "mem_heapsize s = mem_brk s - mem_start_brk s"

section \<open>Bytes and 64-bit words\<close>

fun bytes_val :: "(int \<Rightarrow> 8 word) \<Rightarrow> int \<Rightarrow> nat \<Rightarrow> int" where
  "bytes_val m a 0 = 0"
| "bytes_val m a (Suc n) = uint (m a) + 256 * bytes_val m (a + 1) n"

definition get64 :: "(int \<Rightarrow> 8 word) \<Rightarrow> int \<Rightarrow> int" where
  "get64 m a = signed_take_bit 63 (bytes_val m a 8)"

definition put64 :: "(int \<Rightarrow> 8 word) \<Rightarrow> int \<Rightarrow> int \<Rightarrow> (int \<Rightarrow> 8 word)" where
  "put64 m a v =
     (\<lambda>x. if a \<le> x \<and> x < a + 8 then word_of_int (v div 256 ^ nat (x - a)) else m x)"

lemma bytes_val_cong:
  "(\<And>x. a \<le> x \<Longrightarrow> x < a + int n \<Longrightarrow> m' x = m x) \<Longrightarrow> bytes_val m' a n = bytes_val m a n"
proof (induction n arbitrary: a)
  case (Suc n)
  from Suc.prems have "m' a = m a" by simp
  moreover have "bytes_val m' (a + 1) n = bytes_val m (a + 1) n"
    by (rule Suc.IH) (simp add: Suc.prems)
  ultimately show ?case by simp
qed simp

lemma bytes_val_written:
  "(\<And>i. i < n \<Longrightarrow> m (a + int i) = word_of_int (v div 256 ^ i)) \<Longrightarrow>
     bytes_val m a n = v mod 256 ^ n"
proof (induction n arbitrary: a v)
  case (Suc n)
  have here: "uint (m a) = v mod 256"
    using Suc.prems [of 0] by (simp add: uint_word_of_int)
  have "bytes_val m (a + 1) n = (v div 256) mod 256 ^ n"
  proof (rule Suc.IH)
    fix i assume "i < n"
    then have "m (a + int (Suc i)) = word_of_int (v div 256 ^ Suc i)"
      by (intro Suc.prems) simp
    then show "m (a + 1 + int i) = word_of_int (v div 256 div 256 ^ i)"
      by (simp add: zdiv_zmult2_eq add.assoc)
  qed
  with here show ?case
    by (simp add: zmod_zmult2_eq)
qed simp

lemma get64_put64_same: "is_long v \<Longrightarrow> get64 (put64 m a v) a = v"
proof -
  assume v: "is_long v"
  have "bytes_val (put64 m a v) a 8 = v mod 256 ^ 8"
    by (rule bytes_val_written) (simp add: put64_def)
  then have "get64 (put64 m a v) a = signed_take_bit 63 (take_bit 64 v)"
    by (simp add: get64_def take_bit_eq_mod)
  also have "\<dots> = signed_take_bit 63 v"
    by (simp add: signed_take_bit_eq_iff_take_bit_eq)
  also have "\<dots> = v"
    using v by (simp add: is_long_def signed_take_bit_int_eq_self)
  finally show ?thesis .
qed

lemma get64_cong:
  "(\<And>x. a \<le> x \<Longrightarrow> x < a + 8 \<Longrightarrow> m' x = m x) \<Longrightarrow> get64 m' a = get64 m a"
  unfolding get64_def using bytes_val_cong [of a 8 m' m] by simp

lemma get64_put64_apart:
  "b + 8 \<le> a \<or> a + 8 \<le> b \<Longrightarrow> get64 (put64 m a v) b = get64 m b"
  by (rule get64_cong) (auto simp: put64_def)

lemma put64_byte: "x < a \<or> a + 8 \<le> x \<Longrightarrow> put64 m a v x = m x"
  by (auto simp: put64_def)

lemma put64_put64: "put64 (put64 m a v) a u = put64 m a u"
  by (rule ext) (simp add: put64_def)

lemma put64_comm:
  "b + 8 \<le> a \<or> a + 8 \<le> b \<Longrightarrow> put64 (put64 m a v) b u = put64 (put64 m b u) a v"
  by (rule ext) (auto simp: put64_def)

lemma aligned_apart:
  "(a::int) mod 8 = 0 \<Longrightarrow> b mod 8 = 0 \<Longrightarrow> a \<noteq> b \<Longrightarrow> b + 8 \<le> a \<or> a + 8 \<le> b"
  by presburger

section \<open>Access to the heap\<close>

definition in_heap :: "'a memsys_scheme \<Rightarrow> int \<Rightarrow> int \<Rightarrow> bool" where
  "in_heap s a n \<longleftrightarrow> mem_start_brk s \<le> a \<and> a + n \<le> mem_brk s"

definition word_ok :: "'a memsys_scheme \<Rightarrow> int \<Rightarrow> bool" where
  "word_ok s a \<longleftrightarrow> a mod 8 = 0 \<and> in_heap s a 8"

definition load :: "int \<Rightarrow> ('a memsys_scheme, int) prog" where
  "load a = (\<lambda>s. if word_ok s a then Inr (get64 (mem s) a, s) else Inl Bad_Address)"

definition poke :: "int \<Rightarrow> int \<Rightarrow> 'a memsys_scheme \<Rightarrow> 'a memsys_scheme" where
  "poke a v s = s\<lparr>mem := put64 (mem s) a v\<rparr>"

definition store :: "int \<Rightarrow> int \<Rightarrow> ('a memsys_scheme, unit) prog" where
  "store a v = (\<lambda>s. if word_ok s a then Inr ((), poke a v s) else Inl Bad_Address)"

text \<open>A \<open>char\<close> is signed on this platform.\<close>

definition load_char :: "int \<Rightarrow> ('a memsys_scheme, int) prog" where
  "load_char a = (\<lambda>s. if in_heap s a 1 then Inr (sint (mem s a), s) else Inl Bad_Address)"

definition fill :: "(int \<Rightarrow> 8 word) \<Rightarrow> int \<Rightarrow> int \<Rightarrow> int \<Rightarrow> (int \<Rightarrow> 8 word)" where
  "fill m p c n = (\<lambda>x. if p \<le> x \<and> x < p + n then word_of_int c else m x)"

definition move :: "(int \<Rightarrow> 8 word) \<Rightarrow> int \<Rightarrow> int \<Rightarrow> int \<Rightarrow> (int \<Rightarrow> 8 word)" where
  "move m d p n = (\<lambda>x. if d \<le> x \<and> x < d + n then m (p + (x - d)) else m x)"

text \<open>A negative length becomes a huge \<open>size_t\<close>, which no region can hold.\<close>

definition memset :: "int \<Rightarrow> int \<Rightarrow> int \<Rightarrow> ('a memsys_scheme, unit) prog" where
  "memset p c n = (\<lambda>s. if 0 \<le> n \<and> in_heap s p n
     then Inr ((), s\<lparr>mem := fill (mem s) p c n\<rparr>) else Inl Bad_Address)"

definition memmove :: "int \<Rightarrow> int \<Rightarrow> int \<Rightarrow> ('a memsys_scheme, unit) prog" where
  "memmove d p n = (\<lambda>s. if 0 \<le> n \<and> in_heap s d n \<and> in_heap s p n
     then Inr ((), s\<lparr>mem := move (mem s) d p n\<rparr>) else Inl Bad_Address)"

section \<open>The words of the heap\<close>

definition wv :: "'a memsys_scheme \<Rightarrow> int \<Rightarrow> int" where
  "wv s a = get64 (mem s) a"

lemma load_ok [prog_eval]: "word_ok s a \<Longrightarrow> load a s = Inr (wv s a, s)"
  by (simp add: load_def wv_def)

lemma store_ok [prog_eval]: "word_ok s a \<Longrightarrow> store a v s = Inr ((), poke a v s)"
  by (simp add: store_def)

lemma load_bad: "\<not> word_ok s a \<Longrightarrow> load a s = Inl Bad_Address"
  by (simp add: load_def)

lemma store_bad: "\<not> word_ok s a \<Longrightarrow> store a v s = Inl Bad_Address"
  by (simp add: store_def)

lemma poke_fields [simp]:
  "mem_start_brk (poke a v s) = mem_start_brk s"
  "mem_brk (poke a v s) = mem_brk s"
  "mem_max_addr (poke a v s) = mem_max_addr s"
  "memsys.more (poke a v s) = memsys.more s"
  by (simp_all add: poke_def)

lemma in_heap_poke [simp]: "in_heap (poke a v s) b n = in_heap s b n"
  by (simp add: in_heap_def)

lemma word_ok_poke [simp]: "word_ok (poke a v s) b = word_ok s b"
  by (simp add: word_ok_def)

lemma mem_poke: "x < a \<or> a + 8 \<le> x \<Longrightarrow> mem (poke a v s) x = mem s x"
  by (simp add: poke_def put64_byte)

lemma wv_poke:
  "a mod 8 = 0 \<Longrightarrow> b mod 8 = 0 \<Longrightarrow> is_long v \<Longrightarrow>
     wv (poke a v s) b = (if b = a then v else wv s b)"
  using aligned_apart [of a b]
  by (auto simp: wv_def poke_def get64_put64_same get64_put64_apart)

lemma poke_poke: "poke a u (poke a v s) = poke a u s"
  by (simp add: poke_def put64_put64)

lemma poke_comm:
  "a mod 8 = 0 \<Longrightarrow> b mod 8 = 0 \<Longrightarrow> a \<noteq> b \<Longrightarrow> poke b u (poke a v s) = poke a v (poke b u s)"
  using put64_comm [OF aligned_apart, of a b "mem s" v u] by (simp add: poke_def)

text \<open>
  The interface that block tags and free-list links rest on: a store of words
  in which an update at one aligned address is seen there and nowhere else.
\<close>

locale word_store =
  fixes rd :: "'m \<Rightarrow> int \<Rightarrow> int"
    and wr :: "int \<Rightarrow> int \<Rightarrow> 'm \<Rightarrow> 'm"
  assumes rd_wr: "a mod 8 = 0 \<Longrightarrow> b mod 8 = 0 \<Longrightarrow> is_long v \<Longrightarrow>
      rd (wr a v m) b = (if b = a then v else rd m b)"
    and wr_wr: "wr a u (wr a v m) = wr a u m"
begin

lemma rd_wr_same: "a mod 8 = 0 \<Longrightarrow> is_long v \<Longrightarrow> rd (wr a v m) a = v"
  by (simp add: rd_wr)

lemma rd_wr_other:
  "a mod 8 = 0 \<Longrightarrow> b mod 8 = 0 \<Longrightarrow> is_long v \<Longrightarrow> b \<noteq> a \<Longrightarrow> rd (wr a v m) b = rd m b"
  by (simp add: rd_wr)

end

interpretation words: word_store wv poke
  by unfold_locales (simp_all add: wv_poke poke_poke)

lemma wv_cong:
  "(\<And>x. a \<le> x \<Longrightarrow> x < a + 8 \<Longrightarrow> mem s' x = mem s x) \<Longrightarrow> wv s' a = wv s a"
  unfolding wv_def by (rule get64_cong)

lemma mem_sbrk_apply:
  "mem_sbrk incr s =
     (if incr < 0 \<or> mem_brk s + incr > mem_max_addr s then Inr (SBRK_FAILED, s)
      else Inr (mem_brk s, s\<lparr>mem_brk := mem_brk s + incr\<rparr>))"
  by (simp add: mem_sbrk_def prog_eval)

end
