(* ===== verification/Block.thy ===== *)
theory Block
  imports Memsys
begin

text \<open>
  Blocks and their boundary tags: the constants of \<^verbatim>\<open>mm.h\<close>, the global variables of
  \<^verbatim>\<open>mm.c\<close> and \<^verbatim>\<open>mminline.h\<close>, and the inline functions of \<^verbatim>\<open>mminline.h\<close> that read and
  write the size field at the start of a block and its copy at the end.  A
  pointer to a block is the address of its size field; the payload field
  starts 8 bytes later.  The low bit of both tags is the allocated flag.

  Each operation has a rule (collection \<open>block_eval\<close>) that gives its result and
  the state it leaves, for blocks whose tags lie in the heap.
\<close>

section \<open>State and constants\<close>

record heap = memsys +
  flist_first :: int
  prologue :: int
  epilogue :: int

definition NULL :: int where
  "NULL = 0"

definition ALIGNMENT :: int where
  "ALIGNMENT = 8"

definition WORD_SIZE :: int where
  "WORD_SIZE = 8"

definition TAGS_SIZE :: int where
  "TAGS_SIZE = 2 * WORD_SIZE"

definition MINBLOCKSIZE :: int where
  "MINBLOCKSIZE = 4 * WORD_SIZE"

lemmas mm_consts = NULL_def ALIGNMENT_def WORD_SIZE_def TAGS_SIZE_def MINBLOCKSIZE_def

text \<open>The field \<open>size\<close> is at offset 0 of a block, \<open>payload[i]\<close> at offset 8 + 8 i.\<close>

definition payload :: "int \<Rightarrow> int \<Rightarrow> int" where
  "payload b i = b + 8 + 8 * i"

lemma payload_fields [simp]:
  "payload b 0 = b + 8" "payload b 1 = b + 16" "payload b (- 2) = b - 8"
  by (simp_all add: payload_def)

section \<open>Tags\<close>

definition block_allocated :: "int \<Rightarrow> (heap, int) prog" where
  "block_allocated b = bnd (load b) (\<lambda>size. ret (size AND 1))"

text \<open>The division truncates in C and rounds down here; the assertion keeps the
  dividend positive, where both agree.\<close>

definition block_end_tag :: "int \<Rightarrow> (heap, int) prog" where
  "block_end_tag b =
     bnd (load b) (\<lambda>size.
     seqp (assertp (size \<ge> WORD_SIZE * 2))
          (ret (payload b (size div 8 - 2))))"

definition block_end_allocated :: "int \<Rightarrow> (heap, int) prog" where
  "block_end_allocated b =
     bnd (block_end_tag b) (\<lambda>t. bnd (load t) (\<lambda>v. ret (v AND 1)))"

definition block_set_size :: "int \<Rightarrow> int \<Rightarrow> (heap, unit) prog" where
  "block_set_size b size0 =
     seqp (assertp (size0 AND (ALIGNMENT - 1) = 0))
    (bnd (block_allocated b) (\<lambda>a.
       let size = size0 OR a in
       seqp (store b size)
      (bnd (block_end_tag b) (\<lambda>t. store t size))))"

definition block_size :: "int \<Rightarrow> (heap, int) prog" where
  "block_size b = bnd (load b) (\<lambda>size. ret (size AND - 2))"

definition block_set_allocated :: "int \<Rightarrow> int \<Rightarrow> (heap, unit) prog" where
  "block_set_allocated b allocated =
     seqp (assertp (allocated = 0 \<or> allocated = 1))
    (if allocated \<noteq> 0 then
       seqp (bnd (load b) (\<lambda>v. store b (v OR 1)))
      (bnd (block_end_tag b) (\<lambda>t. bnd (load t) (\<lambda>v. store t (v OR 1))))
     else
       seqp (bnd (load b) (\<lambda>v. store b (v AND - 2)))
      (bnd (block_end_tag b) (\<lambda>t. bnd (load t) (\<lambda>v. store t (v AND - 2)))))"

definition block_set_size_and_allocated :: "int \<Rightarrow> int \<Rightarrow> int \<Rightarrow> (heap, unit) prog" where
  "block_set_size_and_allocated b sz allocated =
     seqp (block_set_size b sz) (block_set_allocated b allocated)"

definition block_end_size :: "int \<Rightarrow> (heap, int) prog" where
  "block_end_size b =
     bnd (block_end_tag b) (\<lambda>t. bnd (load t) (\<lambda>v. ret (v AND - 2)))"

section \<open>Neighbours\<close>

definition block_prev_size :: "int \<Rightarrow> (heap, int) prog" where
  "block_prev_size b = bnd (load (payload b (- 2))) (\<lambda>v. ret (v AND - 2))"

definition block_prev :: "int \<Rightarrow> (heap, int) prog" where
  "block_prev b = bnd (block_prev_size b) (\<lambda>sz. ret (b - sz))"

definition block_next :: "int \<Rightarrow> (heap, int) prog" where
  "block_next b = bnd (block_size b) (\<lambda>sz. ret (b + sz))"

definition payload_to_block :: "int \<Rightarrow> int" where
  "payload_to_block p = p - 8 * 1"

definition block_next_allocated :: "int \<Rightarrow> (heap, int) prog" where
  "block_next_allocated b = bnd (block_next b) block_allocated"

definition block_next_size :: "int \<Rightarrow> (heap, int) prog" where
  "block_next_size b = bnd (block_next b) block_size"

definition block_prev_allocated :: "int \<Rightarrow> (heap, int) prog" where
  "block_prev_allocated b = bnd (block_prev b) block_allocated"

section \<open>Evaluation rules\<close>

named_theorems block_eval "results of the block operations"

lemma heap_poke [simp]:
  "flist_first (poke a v s) = flist_first s"
  "prologue (poke a v s) = prologue s"
  "epilogue (poke a v s) = epilogue s"
  "poke a v (s\<lparr>flist_first := f\<rparr>) = (poke a v s)\<lparr>flist_first := f\<rparr>"
  by (simp_all add: poke_def)

lemma heap_flist [simp]:
  "mem ((s :: heap)\<lparr>flist_first := f\<rparr>) = mem s"
  "wv (s\<lparr>flist_first := f\<rparr>) = wv s"
  "word_ok (s\<lparr>flist_first := f\<rparr>) = word_ok s"
  "in_heap (s\<lparr>flist_first := f\<rparr>) = in_heap s"
  by (simp_all add: wv_def word_ok_def in_heap_def fun_eq_iff)

lemma payload_to_block_eq: "payload_to_block (payload b 0) = b"
  by (simp add: payload_to_block_def payload_def)

lemma block_allocated_ok [block_eval]:
  "word_ok s b \<Longrightarrow> block_allocated b s = Inr (wv s b mod 2, s)"
  by (simp add: block_allocated_def prog_eval masks)

lemma block_size_ok [block_eval]:
  "word_ok s b \<Longrightarrow> block_size b s = Inr (wv s b - wv s b mod 2, s)"
  by (simp add: block_size_def prog_eval masks)

lemma block_next_ok [block_eval]:
  "word_ok s b \<Longrightarrow> block_next b s = Inr (b + (wv s b - wv s b mod 2), s)"
  by (simp add: block_next_def prog_eval block_eval)

lemma block_prev_size_ok [block_eval]:
  "word_ok s (b - 8) \<Longrightarrow> block_prev_size b s = Inr (wv s (b - 8) - wv s (b - 8) mod 2, s)"
  by (simp add: block_prev_size_def payload_def prog_eval masks)

lemma block_prev_ok [block_eval]:
  "word_ok s (b - 8) \<Longrightarrow> block_prev b s = Inr (b - (wv s (b - 8) - wv s (b - 8) mod 2), s)"
  by (simp add: block_prev_def prog_eval block_eval)

definition tag :: "int \<Rightarrow> bool \<Rightarrow> int" where
  "tag sz al = sz + of_bool al"

lemma tag_parity:
  assumes "sz mod 8 = 0"
  shows "tag sz al mod 2 = of_bool al"
    and "tag sz al - of_bool al = sz"
    and "tag sz al div 8 = sz div 8"
proof -
  obtain k where k: "sz = 8 * k" using mod_0_imp_dvd [OF assms] by (elim dvdE)
  have "(8 * k + 1) mod 2 = 1" "(8 * k) mod 2 = 0" "(8 * k + 1) div 8 = k" by presburger+
  then show "tag sz al mod 2 = of_bool al" "tag sz al - of_bool al = sz"
    "tag sz al div 8 = sz div 8"
    by (cases al; simp add: tag_def k)+
qed

lemma end_tag_addr: "sz mod 8 = 0 \<Longrightarrow> payload b (tag sz al div 8 - 2) = b + sz - 8"
proof -
  assume sz: "sz mod 8 = 0"
  then have "8 * (sz div 8) = sz" by (simp add: minus_mod_eq_mult_div [symmetric])
  then show ?thesis by (simp add: payload_def tag_parity [OF sz])
qed

lemma block_end_tag_ok [block_eval]:
  "word_ok s b \<Longrightarrow> wv s b = tag sz al \<Longrightarrow> sz mod 8 = 0 \<Longrightarrow> 16 \<le> sz \<Longrightarrow>
     block_end_tag b s = Inr (b + sz - 8, s)"
  by (simp add: block_end_tag_def prog_eval end_tag_addr mm_consts) (simp add: tag_def)

lemma block_end_tag_assert:
  "word_ok s b \<Longrightarrow> wv s b < 16 \<Longrightarrow> block_end_tag b s = Inl Assert_Failed"
  by (simp add: block_end_tag_def prog_eval mm_consts)

text \<open>What setting the tags of a block leaves: the tag at both ends.\<close>

definition tagged :: "int \<Rightarrow> int \<Rightarrow> bool \<Rightarrow> heap \<Rightarrow> heap" where
  "tagged b sz al s = poke (b + sz - 8) (tag sz al) (poke b (tag sz al) s)"

definition tag_room :: "heap \<Rightarrow> int \<Rightarrow> int \<Rightarrow> bool" where
  "tag_room s b sz \<longleftrightarrow> word_ok s b \<and> word_ok s (b + sz - 8) \<and>
     sz mod 8 = 0 \<and> 16 \<le> sz \<and> sz < 2 ^ 62"

lemma tag_long: "tag_room s b sz \<Longrightarrow> is_long (tag sz al)"
  by (cases al) (auto simp: tag_room_def tag_def is_long_def)

lemma tag_room_aligned:
  "tag_room s b sz \<Longrightarrow> b mod 8 = 0" "tag_room s b sz \<Longrightarrow> (b + sz - 8) mod 8 = 0"
  by (auto simp: tag_room_def word_ok_def)

lemma tagged_fields [simp]:
  "mem_start_brk (tagged b sz al s) = mem_start_brk s"
  "mem_brk (tagged b sz al s) = mem_brk s"
  "mem_max_addr (tagged b sz al s) = mem_max_addr s"
  "flist_first (tagged b sz al s) = flist_first s"
  "prologue (tagged b sz al s) = prologue s"
  "epilogue (tagged b sz al s) = epilogue s"
  "word_ok (tagged b sz al s) = word_ok s"
  "in_heap (tagged b sz al s) = in_heap s"
  by (simp_all add: tagged_def fun_eq_iff)

lemma wv_tagged:
  "tag_room s b sz \<Longrightarrow> a mod 8 = 0 \<Longrightarrow>
     wv (tagged b sz al s) a = (if a = b \<or> a = b + sz - 8 then tag sz al else wv s a)"
  using tag_room_aligned [of s b sz] tag_long [of s b sz al]
  by (simp add: tagged_def wv_poke)

lemma mem_tagged:
  "x < b \<or> b + 8 \<le> x \<Longrightarrow> x < b + sz - 8 \<or> b + sz \<le> x \<Longrightarrow> mem (tagged b sz al s) x = mem s x"
  by (simp add: tagged_def mem_poke)

lemma tagged_tagged:
  assumes "tag_room s b sz"
  shows "tagged b sz al (tagged b sz al' s) = tagged b sz al s"
proof -
  from assms have "b \<noteq> b + sz - 8" by (simp add: tag_room_def)
  then show ?thesis
    using tag_room_aligned [OF assms]
    by (simp add: tagged_def poke_comm [of "b + sz - 8" b] poke_poke)
qed

lemma block_set_size_ok:
  assumes room: "tag_room s b sz"
  shows "block_set_size b sz s = Inr ((), tagged b sz (odd (wv s b)) s)"
proof -
  let ?al = "odd (wv s b)"
  have ok: "word_ok s b" "word_ok s (b + sz - 8)" "sz mod 8 = 0" "16 \<le> sz"
    using room by (simp_all add: tag_room_def)
  have "sz OR (wv s b mod 2) = tag sz ?al"
    using ok mod8_mod2 [of sz]
    by (cases "odd (wv s b)") (simp_all add: odd_iff_mod_2_eq_one masks tag_def)
  moreover have "wv (poke b (tag sz ?al) s) b = tag sz ?al"
    using tag_room_aligned [OF room] tag_long [OF room] by (simp add: wv_poke)
  ultimately show ?thesis
    using ok
    by (simp add: block_set_size_def prog_eval mm_consts masks block_eval Let_def
        block_end_tag_ok [of "poke b (tag sz ?al) s" b sz ?al] tagged_def)
qed

lemma block_set_allocated_ok:
  assumes room: "tag_room s b sz" and a: "wv s b = tag sz x" "wv s (b + sz - 8) = tag sz x"
  shows "block_set_allocated b (of_bool al) s = Inr ((), tagged b sz al s)"
proof -
  have ok: "word_ok s b" "word_ok s (b + sz - 8)" "sz mod 8 = 0" "16 \<le> sz"
    using room by (simp_all add: tag_room_def)
  have one: "tag sz x OR 1 = tag sz True" and zero: "tag sz x AND - 2 = tag sz False"
    using tag_parity [OF ok(3), of x] by (cases x; simp add: masks tag_def)+
  have 1: "wv (poke b (tag sz al) s) b = tag sz al"
    "wv (poke b (tag sz al) s) (b + sz - 8) = tag sz x"
    using tag_room_aligned [OF room] tag_long [OF room] a ok by (simp_all add: wv_poke)
  show ?thesis
    using ok 1 a
    by (cases al) (simp_all add: block_set_allocated_def prog_eval one zero
        block_end_tag_ok [of "poke b (tag sz True) s" b sz True]
        block_end_tag_ok [of "poke b (tag sz False) s" b sz False] tagged_def)
qed

lemma block_set_size_and_allocated_ok [block_eval]:
  assumes room: "tag_room s b sz"
  shows "block_set_size_and_allocated b sz (of_bool al) s = Inr ((), tagged b sz al s)"
proof -
  let ?s = "tagged b sz (odd (wv s b)) s"
  have "tag_room ?s b sz"
    using room by (simp add: tag_room_def)
  moreover have "wv ?s b = tag sz (odd (wv s b))" "wv ?s (b + sz - 8) = tag sz (odd (wv s b))"
    using wv_tagged [OF room] tag_room_aligned [OF room] by simp_all
  ultimately have "block_set_allocated b (of_bool al) ?s = Inr ((), tagged b sz al ?s)"
    by (rule block_set_allocated_ok)
  then show ?thesis
    by (simp add: block_set_size_and_allocated_def prog_eval block_set_size_ok [OF room]
        tagged_tagged [OF room])
qed

lemmas block_set_size_and_allocated_01 [block_eval] =
  block_set_size_and_allocated_ok [where al = True, simplified]
  block_set_size_and_allocated_ok [where al = False, simplified]

text \<open>Reading back what was set, at either end.\<close>

lemma block_end_size_ok [block_eval]:
  assumes "tag_room s b sz" and "wv s b = tag sz al" and "wv s (b + sz - 8) = tag sz al'"
  shows "block_end_size b s = Inr (sz, s)" and "block_end_allocated b s = Inr (of_bool al', s)"
  using assms tag_parity [of sz al']
  by (simp_all add: block_end_size_def block_end_allocated_def prog_eval masks
      block_end_tag_ok tag_room_def)

end
