(* ===== verification/Freelist.thy ===== *)
theory Freelist
  imports Block
begin

text \<open>
  The circular, doubly linked free list of \<^verbatim>\<open>mminline.h\<close>.  A free block keeps its
  successor in \<open>payload[0]\<close> and its predecessor in \<open>payload[1]\<close>; \<open>flist_first\<close> points
  to the head or is \<open>NULL\<close>.

  The predicate \<open>ring\<close> relates the words of the heap to the HOL list of the
  block addresses in list order.  The lemmas on it are proved for any
  \<open>word_store\<close>; then \<open>insert_free_block\<close> is shown to put a block in front of that
  list and \<open>pull_free_block\<close> to take one out of it, both writing link cells only.
\<close>

section \<open>Operations\<close>

definition block_blink :: "int \<Rightarrow> (heap, int) prog" where
  "block_blink b =
     bnd (block_allocated b) (\<lambda>a. seqp (assertp (a = 0)) (load (payload b 1)))"

definition block_set_blink :: "int \<Rightarrow> int \<Rightarrow> (heap, unit) prog" where
  "block_set_blink b new_blink =
     bnd (block_allocated b) (\<lambda>a. seqp (assertp (a = 0))
    (bnd (block_allocated new_blink) (\<lambda>a'. seqp (assertp (a' = 0))
    (store (payload b 1) new_blink))))"

definition block_flink :: "int \<Rightarrow> (heap, int) prog" where
  "block_flink b =
     bnd (block_allocated b) (\<lambda>a. seqp (assertp (a = 0)) (load (payload b 0)))"

definition block_set_flink :: "int \<Rightarrow> int \<Rightarrow> (heap, unit) prog" where
  "block_set_flink b new_flink =
     bnd (block_allocated b) (\<lambda>a. seqp (assertp (a = 0))
    (bnd (block_allocated new_flink) (\<lambda>a'. seqp (assertp (a' = 0))
    (store (payload b 0) new_flink))))"

definition set_flist_first :: "int \<Rightarrow> (heap, unit) prog" where
  "set_flist_first b = modify (\<lambda>s. s\<lparr>flist_first := b\<rparr>)"

definition insert_free_block :: "int \<Rightarrow> (heap, unit) prog" where
  "insert_free_block fb =
     bnd (block_allocated fb) (\<lambda>a. seqp (assertp (a = 0))
    (bnd (gets flist_first) (\<lambda>first.
     seqp (if first \<noteq> NULL then
             bnd (block_blink first) (\<lambda>last.
             seqp (block_set_flink fb first)
            (seqp (block_set_blink fb last)
            (seqp (block_set_flink last fb)
                  (block_set_blink first fb))))
           else
             seqp (block_set_flink fb fb) (block_set_blink fb fb))
          (set_flist_first fb))))"

definition unlink_block :: "int \<Rightarrow> (heap, unit) prog" where
  "unlink_block fb =
     seqp (bnd (block_blink fb) (\<lambda>bl. bnd (block_flink fb) (\<lambda>fl. block_set_flink bl fl)))
          (bnd (block_flink fb) (\<lambda>fl. bnd (block_blink fb) (\<lambda>bl. block_set_blink fl bl)))"

definition pull_free_block :: "int \<Rightarrow> (heap, unit) prog" where
  "pull_free_block fb =
     bnd (block_allocated fb) (\<lambda>a. seqp (assertp (a = 0))
    (bnd (gets flist_first) (\<lambda>first.
     if first = fb then
       bnd (block_flink fb) (\<lambda>n. seqp (set_flist_first n)
      (if n = fb then set_flist_first NULL else unlink_block fb))
     else unlink_block fb)))"

section \<open>Chains and rings of links\<close>

definition link :: "(int \<Rightarrow> int) \<Rightarrow> int \<Rightarrow> int \<Rightarrow> bool" where
  "link w x y \<longleftrightarrow> w (x + 8) = y \<and> w (y + 16) = x"

fun chain :: "(int \<Rightarrow> int) \<Rightarrow> int list \<Rightarrow> bool" where
  "chain w (x # y # xs) \<longleftrightarrow> link w x y \<and> chain w (y # xs)"
| "chain w _ \<longleftrightarrow> True"

fun ring :: "(int \<Rightarrow> int) \<Rightarrow> int list \<Rightarrow> bool" where
  "ring w [] \<longleftrightarrow> True"
| "ring w (x # xs) \<longleftrightarrow> chain w (x # xs @ [x])"

definition apart :: "int set \<Rightarrow> bool" where
  "apart A \<longleftrightarrow> (\<forall>a\<in>A. \<forall>b\<in>A. a \<noteq> b \<longrightarrow> a + 24 \<le> b \<or> b + 24 \<le> a)"

lemma chain_append: "chain w (xs @ y # ys) \<longleftrightarrow> chain w (xs @ [y]) \<and> chain w (y # ys)"
proof (induction xs)
  case (Cons a xs)
  then show ?case by (cases xs) auto
qed simp

lemma chain_cong:
  assumes "\<And>a. a \<in> set (butlast xs) \<Longrightarrow> w' (a + 8) = w (a + 8)"
    and "\<And>a. a \<in> set (tl xs) \<Longrightarrow> w' (a + 16) = w (a + 16)"
  shows "chain w' xs = chain w xs"
  using assms
proof (induction w xs rule: chain.induct)
  case (1 w x y xs)
  have "chain w' (y # xs) = chain w (y # xs)"
    by (rule 1) (use 1(2,3) in \<open>auto dest: list.set_sel(2)\<close>)
  moreover have "link w' x y = link w x y"
    using 1(2) [of x] 1(3) [of y] by (simp add: link_def)
  ultimately show ?case by simp
qed simp_all

lemma ring_cong:
  assumes "\<And>a. a \<in> set xs \<Longrightarrow> w' (a + 8) = w (a + 8) \<and> w' (a + 16) = w (a + 16)"
  shows "ring w' xs = ring w xs"
proof (cases xs)
  case (Cons x ys)
  have "chain w' (x # ys @ [x]) = chain w (x # ys @ [x])"
    by (rule chain_cong) (use assms Cons in \<open>auto simp: butlast_append split: if_splits\<close>)
  with Cons show ?thesis by simp
qed simp

lemma ring_rotate: "ring w (xs @ ys) = ring w (ys @ xs)"
proof (cases xs; cases ys)
  fix x xs' y ys' assume "xs = x # xs'" "ys = y # ys'"
  then show ?thesis
    using chain_append [of w "x # xs'" y "ys' @ [x]"] chain_append [of w "y # ys'" x "xs' @ [y]"]
    by auto
qed auto

lemma ring_first_links:
  "ring w (x # xs) \<Longrightarrow> w (x + 8) = hd (xs @ [x]) \<and> w (x + 16) = last (x # xs)"
proof (cases xs rule: rev_cases)
  case (snoc ys y)
  assume "ring w (x # xs)"
  with snoc have 1: "chain w (x # ys @ y # [x])" by simp
  then have "chain w (y # [x])"
    using chain_append [of w "x # ys" y "[x]"] by simp
  moreover have "w (x + 8) = hd (xs @ [x])"
    using 1 snoc by (cases ys) (auto simp: link_def)
  ultimately show ?thesis using snoc by (simp add: link_def)
qed (simp add: link_def)

lemma ring_links:
  assumes "ring w (us @ x # vs)"
  shows "w (x + 8) = hd (vs @ us @ [x])" and "w (x + 16) = last (x # vs @ us)"
proof -
  have "ring w (x # (vs @ us))"
    using assms ring_rotate [of w us "x # vs"] by simp
  from ring_first_links [OF this]
  show "w (x + 8) = hd (vs @ us @ [x])" and "w (x + 16) = last (x # vs @ us)" by simp_all
qed

lemma apartD: "apart A \<Longrightarrow> a \<in> A \<Longrightarrow> b \<in> A \<Longrightarrow> a \<noteq> b \<Longrightarrow> a + 24 \<le> b \<or> b + 24 \<le> a"
  by (auto simp: apart_def)

lemma apart_cells: "apart A \<Longrightarrow> a \<in> A \<Longrightarrow> b \<in> A \<Longrightarrow> a + 8 \<noteq> b + 16"
  using apartD [of A a b] by (cases "a = b") auto

lemma cell_aligned: "(a::int) mod 8 = 0 \<Longrightarrow> (a + 8) mod 8 = 0 \<and> (a + 16) mod 8 = 0"
  by presburger

text \<open>The addresses of list nodes: aligned, representable, and far enough apart.\<close>

definition nodes :: "int set \<Rightarrow> bool" where
  "nodes A \<longleftrightarrow> apart A \<and> (\<forall>a\<in>A. a mod 8 = 0 \<and> is_long a)"

lemma nodesD:
  assumes "nodes A" and "a \<in> A"
  shows "(a + 8) mod 8 = 0" and "(a + 16) mod 8 = 0" and "is_long a"
  using assms cell_aligned [of a] by (auto simp: nodes_def)

lemma nodes_cells: "nodes A \<Longrightarrow> a \<in> A \<Longrightarrow> b \<in> A \<Longrightarrow> a + 8 \<noteq> b + 16"
  unfolding nodes_def using apart_cells by blast

lemma nodes_subset: "nodes B \<Longrightarrow> A \<subseteq> B \<Longrightarrow> nodes A"
  by (auto simp: nodes_def apart_def)

text \<open>
  The two updates of the list, over any store of words.  The cells written are
  those of \<open>insert_free_block\<close> and \<open>pull_free_block\<close>, in their order.
\<close>

context word_store
begin

lemma rd_flink_cell:
  assumes "nodes A" and "a \<in> A" and "b \<in> A" and "is_long v"
  shows "rd (wr (b + 8) v m) (a + 8) = (if a = b then v else rd m (a + 8))"
    and "rd (wr (b + 8) v m) (a + 16) = rd m (a + 16)"
  using assms nodesD [OF assms(1)] nodes_cells [OF assms(1), of b a] by (simp_all add: rd_wr)

lemma rd_blink_cell:
  assumes "nodes A" and "a \<in> A" and "b \<in> A" and "is_long v"
  shows "rd (wr (b + 16) v m) (a + 16) = (if a = b then v else rd m (a + 16))"
    and "rd (wr (b + 16) v m) (a + 8) = rd m (a + 8)"
  using assms nodesD [OF assms(1)] nodes_cells [OF assms(1), of a b] by (simp_all add: rd_wr)

lemma ring_single:
  assumes "nodes {x}"
  shows "ring (rd (wr (x + 16) x (wr (x + 8) x m))) [x]"
  using rd_flink_cell [OF assms] rd_blink_cell [OF assms] nodesD [OF assms]
  by (simp add: link_def)

lemma ring_insert:
  assumes ring: "ring (rd m) (x # xs)" and dist: "distinct (fb # x # xs)"
    and nodes: "nodes (set (fb # x # xs))" and l: "l = last (x # xs)"
  shows "ring (rd (wr (x + 16) fb (wr (l + 8) fb (wr (fb + 16) l (wr (fb + 8) x m)))))
           (fb # x # xs)" (is "ring (rd ?m) _")
proof -
  let ?A = "set (fb # x # xs)"
  obtain ys where ys: "x # xs = ys @ [l]"
    using l by (metis append_butlast_last_id list.distinct(1))
  have l_in: "l \<in> set (x # xs)" unfolding ys by simp
  have in_A: "fb \<in> ?A" "x \<in> ?A" "l \<in> ?A" using l_in by auto
  have neq: "fb \<noteq> l" "fb \<noteq> x" using dist l_in by auto
  have l_new: "l \<notin> set ys" using dist unfolding ys by simp
  note cells = rd_flink_cell [OF nodes] rd_blink_cell [OF nodes]
  note rules = in_A cells nodesD(3) [OF nodes]
  have 1: "link (rd ?m) fb x" "link (rd ?m) l fb"
    unfolding link_def using neq by (simp_all only: rules) simp_all
  have "x # xs @ [x] = ys @ l # [x]"
    using ys by (metis append_Cons append.assoc append_Nil)
  then have "chain (rd m) (ys @ l # [x])"
    using ring by (metis ring.simps(2))
  then have old: "chain (rd m) (ys @ [l])"
    by (rule chain_append [THEN iffD1, THEN conjunct1])
  have "chain (rd ?m) (ys @ [l]) = chain (rd m) (ys @ [l])"
  proof (rule chain_cong)
    fix a assume "a \<in> set (butlast (ys @ [l]))"
    then have "a \<in> set ys" by simp
    then have "a \<in> set (x # xs)" unfolding ys by simp
    then have "a \<in> ?A" "a \<noteq> l" "a \<noteq> fb"
      using l_new dist \<open>a \<in> set ys\<close> by auto
    then show "rd ?m (a + 8) = rd m (a + 8)" by (simp only: rules) simp
  next
    fix a assume "a \<in> set (tl (ys @ [l]))"
    then have "a \<in> set xs" unfolding ys [symmetric] by simp
    then have "a \<in> ?A" "a \<noteq> x" "a \<noteq> fb" using dist by auto
    then show "rd ?m (a + 16) = rd m (a + 16)" by (simp only: rules) simp
  qed
  with old have "chain (rd ?m) (ys @ l # [fb])"
    using 1 chain_append [of "rd ?m" ys l "[fb]"] by simp
  then have "chain (rd ?m) (x # xs @ [fb])"
    by (metis append.assoc append_Cons append_Nil ys)
  with 1 show ?thesis by simp
qed

lemma ring_pull:
  assumes ring: "ring (rd m) (fb # w # ws)" and dist: "distinct (fb # w # ws)"
    and nodes: "nodes (set (fb # w # ws))" and l: "l = last (w # ws)"
  shows "ring (rd (wr (w + 16) l (wr (l + 8) w m))) (w # ws)" (is "ring (rd ?m) _")
proof -
  let ?A = "set (fb # w # ws)"
  obtain ys where ys: "w # ws = ys @ [l]"
    using l by (metis append_butlast_last_id list.distinct(1))
  have l_in: "l \<in> set (w # ws)" unfolding ys by simp
  have in_A: "w \<in> ?A" "l \<in> ?A" using l_in by auto
  have l_new: "l \<notin> set ys" using dist unfolding ys by simp
  note rules = in_A rd_flink_cell [OF nodes] rd_blink_cell [OF nodes] nodesD(3) [OF nodes]
  have 1: "link (rd ?m) l w"
    unfolding link_def by (simp only: rules) simp
  have "w # ws @ [fb] = ys @ l # [fb]"
    using ys by (metis append_Cons append.assoc append_Nil)
  then have "chain (rd m) (ys @ l # [fb])"
    using ring by (metis ring.simps(2) chain.simps(1) append_Cons)
  then have old: "chain (rd m) (ys @ [l])"
    by (rule chain_append [THEN iffD1, THEN conjunct1])
  have "chain (rd ?m) (ys @ [l]) = chain (rd m) (ys @ [l])"
  proof (rule chain_cong)
    fix a assume "a \<in> set (butlast (ys @ [l]))"
    then have "a \<in> set ys" by simp
    then have "a \<in> set (w # ws)" unfolding ys by simp
    then have "a \<in> ?A" "a \<noteq> l" using l_new \<open>a \<in> set ys\<close> by auto
    then show "rd ?m (a + 8) = rd m (a + 8)" by (simp only: rules) simp
  next
    fix a assume "a \<in> set (tl (ys @ [l]))"
    then have "a \<in> set ws" unfolding ys [symmetric] by simp
    then have "a \<in> ?A" "a \<noteq> w" using dist by auto
    then show "rd ?m (a + 16) = rd m (a + 16)" by (simp only: rules) simp
  qed
  with old have "chain (rd ?m) (ys @ l # [w])"
    using 1 chain_append [of "rd ?m" ys l "[w]"] by simp
  then have "chain (rd ?m) (w # ws @ [w])"
    by (metis append.assoc append_Cons append_Nil ys)
  then show ?thesis by simp
qed

end

section \<open>The list in the heap\<close>

definition free_links :: "heap \<Rightarrow> int list \<Rightarrow> bool" where
  "free_links s fl \<longleftrightarrow> distinct fl \<and> ring (wv s) fl \<and>
     flist_first s = (case fl of [] \<Rightarrow> NULL | x # _ \<Rightarrow> x)"

definition free_nodes :: "heap \<Rightarrow> int set \<Rightarrow> bool" where
  "free_nodes s A \<longleftrightarrow> nodes A \<and>
     (\<forall>x\<in>A. word_ok s x \<and> word_ok s (x + 8) \<and> word_ok s (x + 16) \<and>
        even (wv s x) \<and> x \<noteq> NULL)"

text \<open>What an operation on the list may change: link cells, and the head pointer.\<close>

definition links_only :: "int set \<Rightarrow> heap \<Rightarrow> heap \<Rightarrow> bool" where
  "links_only A s s' \<longleftrightarrow>
     mem_start_brk s' = mem_start_brk s \<and> mem_brk s' = mem_brk s \<and>
     mem_max_addr s' = mem_max_addr s \<and>
     prologue s' = prologue s \<and> epilogue s' = epilogue s \<and>
     (\<forall>b. (\<forall>y\<in>A. b < y + 8 \<or> y + 24 \<le> b) \<longrightarrow> mem s' b = mem s b)"

lemma links_only_refl: "links_only A s s"
  by (simp add: links_only_def)

lemma links_only_trans: "links_only A s t \<Longrightarrow> links_only A t u \<Longrightarrow> links_only A s u"
  by (simp add: links_only_def)

lemma links_only_mono: "links_only A s t \<Longrightarrow> A \<subseteq> B \<Longrightarrow> links_only B s t"
  unfolding links_only_def by blast

lemma links_only_cell:
  "y \<in> A \<Longrightarrow> links_only A s t \<Longrightarrow> links_only A s (poke (y + 8) v t)"
  "y \<in> A \<Longrightarrow> links_only A s t \<Longrightarrow> links_only A s (poke (y + 16) v t)"
  "links_only A s t \<Longrightarrow> links_only A s (t\<lparr>flist_first := f\<rparr>)"
proof -
  assume y: "y \<in> A" and st: "links_only A s t"
  have *: "mem (poke (y + k) v t) b = mem s b"
    if "\<forall>y\<in>A. b < y + 8 \<or> y + 24 \<le> b" and "k = 8 \<or> k = 16" for k b
  proof -
    have "b < y + 8 \<or> y + 24 \<le> b" using that(1) y by blast
    then have "mem (poke (y + k) v t) b = mem t b"
      using that(2) by (intro mem_poke) auto
    then show ?thesis using st that(1) by (simp add: links_only_def)
  qed
  show "links_only A s (poke (y + 8) v t)" "links_only A s (poke (y + 16) v t)"
    using st * [of _ 8] * [of _ 16] by (simp_all add: links_only_def)
next
  assume "links_only A s t"
  then show "links_only A s (t\<lparr>flist_first := f\<rparr>)" by (simp add: links_only_def)
qed

lemma links_only_wv:
  assumes "links_only A s s'" and "\<And>y. y \<in> A \<Longrightarrow> a + 8 \<le> y + 8 \<or> y + 24 \<le> a"
  shows "wv s' a = wv s a"
proof (rule wv_cong)
  fix x assume x: "a \<le> x" "x < a + 8"
  have "x < y + 8 \<or> y + 24 \<le> x" if "y \<in> A" for y
    using assms(2) [OF that] x by linarith
  then show "mem s' x = mem s x"
    using assms(1) by (auto simp: links_only_def)
qed

lemma links_only_heap:
  assumes "links_only A s s'"
  shows "word_ok s' = word_ok s" and "in_heap s' = in_heap s"
  using assms by (simp_all add: links_only_def word_ok_def in_heap_def fun_eq_iff)

lemma links_only_header:
  assumes "links_only A s s'" and "nodes B" and "A \<subseteq> B" and "a \<in> B"
  shows "wv s' a = wv s a"
proof (rule links_only_wv [OF assms(1)])
  fix y assume "y \<in> A"
  then have "y \<in> B" using assms(3) by blast
  then show "a + 8 \<le> y + 8 \<or> y + 24 \<le> a"
    using apartD [of B a y] assms(2,4) by (cases "a = y") (auto simp: nodes_def)
qed

lemma free_nodes_links_only:
  assumes "links_only A s s'" and "A \<subseteq> B" and "free_nodes s B"
  shows "free_nodes s' B"
proof -
  have "wv s' a = wv s a" if "a \<in> B" for a
    using links_only_header [OF assms(1) _ assms(2) that] assms(3) by (simp add: free_nodes_def)
  with assms show ?thesis
    by (simp add: free_nodes_def links_only_heap)
qed

lemma free_nodes_subset: "free_nodes s B \<Longrightarrow> A \<subseteq> B \<Longrightarrow> free_nodes s A"
  using nodes_subset [of B A] by (auto simp: free_nodes_def)

lemma free_nodes_poke [simp]:
  assumes "free_nodes s A" and "y \<in> A"
  shows "free_nodes (poke (y + 8) v s) A" and "free_nodes (poke (y + 16) v s) A"
  using assms links_only_cell(1,2) [OF assms(2) links_only_refl]
  by (blast intro: free_nodes_links_only)+

lemma node_steps:
  assumes "free_nodes s A" and "b \<in> A"
  shows "block_allocated b s = Inr (0, s)"
    and "block_flink b s = Inr (wv s (b + 8), s)"
    and "block_blink b s = Inr (wv s (b + 16), s)"
    and "v \<in> A \<Longrightarrow> block_set_flink b v s = Inr ((), poke (b + 8) v s)"
    and "v \<in> A \<Longrightarrow> block_set_blink b v s = Inr ((), poke (b + 16) v s)"
  using assms
  by (simp_all add: block_flink_def block_blink_def block_set_flink_def block_set_blink_def
      prog_eval block_eval free_nodes_def)

lemma free_nodes_nodes: "free_nodes s A \<Longrightarrow> nodes A"
  by (simp add: free_nodes_def)

lemma free_links_cells:
  assumes "free_links s (us @ x # vs)"
  shows "wv s (x + 8) = hd (vs @ us @ [x])" and "wv s (x + 16) = last (x # vs @ us)"
  using assms ring_links by (auto simp: free_links_def)

section \<open>insert\_free\_block\<close>

lemma insert_free_block_links:
  assumes fl: "free_links s fl" and fb: "fb \<notin> set fl" and nodes: "free_nodes s (set (fb # fl))"
  shows "\<exists>s'. insert_free_block fb s = Inr ((), s') \<and> free_links s' (fb # fl) \<and>
           links_only (set (fb # fl)) s s'"
proof (cases fl)
  case Nil
  let ?s = "(poke (fb + 16) fb (poke (fb + 8) fb s))\<lparr>flist_first := fb\<rparr>"
  have A: "free_nodes s {fb}" using nodes Nil by simp
  have "insert_free_block fb s = Inr ((), ?s)"
    using fl Nil
    by (simp add: insert_free_block_def set_flist_first_def prog_eval node_steps [of _ "{fb}"]
        A free_links_def)
  moreover have "ring (wv ?s) [fb]"
    using words.ring_single [OF free_nodes_nodes [OF A], of s] by (simp del: ring.simps)
  then have "free_links ?s (fb # fl)"
    using Nil by (simp add: free_links_def)
  moreover have "links_only (set (fb # fl)) s ?s"
    by (intro links_only_cell links_only_refl) simp_all
  ultimately show ?thesis by blast
next
  case (Cons x xs)
  define l where "l = last (x # xs)"
  let ?t = "poke (x + 16) fb (poke (l + 8) fb (poke (fb + 16) l (poke (fb + 8) x s)))"
  let ?s = "?t\<lparr>flist_first := fb\<rparr>"
  define A where "A = set (fb # x # xs)"
  have l_in: "l \<in> set (x # xs)" unfolding l_def by (cases xs rule: rev_cases) auto
  then have in_A: "fb \<in> A" "x \<in> A" "l \<in> A" by (auto simp: A_def)
  have A: "free_nodes s A" using nodes Cons by (simp add: A_def)
  have x0: "x \<noteq> NULL" using A in_A by (simp add: free_nodes_def)
  have first: "flist_first s = x" using fl Cons by (simp add: free_links_def)
  have last: "wv s (x + 16) = l"
    using free_links_cells(2) [of s "[]" x xs] fl Cons l_def by simp
  have "insert_free_block fb s = Inr ((), ?s)"
    by (simp add: insert_free_block_def set_flist_first_def prog_eval first x0
        node_steps [of _ A] A in_A last)
  moreover have "ring (wv ?t) (fb # x # xs)"
    using words.ring_insert [of s x xs fb l] fl Cons fb free_nodes_nodes [OF A] l_def
    by (simp add: free_links_def A_def del: ring.simps)
  then have "free_links ?s (fb # fl)"
    using Cons fl fb by (simp add: free_links_def del: ring.simps)
  moreover have "links_only (set (fb # fl)) s ?s"
    unfolding Cons A_def [symmetric] using in_A by (intro links_only_cell links_only_refl)
  ultimately show ?thesis by blast
qed

section \<open>pull\_free\_block\<close>

lemma unlink_block_ok:
  assumes A: "free_nodes s A" "fb \<in> A" "n \<in> A" "p \<in> A" and p: "p \<noteq> fb"
    and cells: "wv s (fb + 8) = n" "wv s (fb + 16) = p"
  shows "unlink_block fb s = Inr ((), poke (n + 16) p (poke (p + 8) n s))"
proof -
  note nodes = free_nodes_nodes [OF A(1)]
  have "is_long n" "is_long p" using nodesD(3) [OF nodes] A by blast+
  then have "wv (poke (p + 8) n s) (fb + 8) = n" "wv (poke (p + 8) n s) (fb + 16) = p"
    using p cells by (simp_all add: words.rd_flink_cell [OF nodes A(2,4)])
  then show ?thesis
    by (simp add: unlink_block_def prog_eval node_steps [of _ A] A cells)
qed

lemma pull_free_block_links:
  assumes fl: "free_links s (us @ fb # vs)" and nodes: "free_nodes s (set (us @ fb # vs))"
  shows "\<exists>s'. pull_free_block fb s = Inr ((), s') \<and> free_links s' (us @ vs) \<and>
           links_only (set (us @ vs)) s s'"
proof (cases "vs @ us")
  case Nil
  then have empty: "us = []" "vs = []" by auto
  have A: "free_nodes s {fb}" using nodes empty by simp
  have "wv s (fb + 8) = fb" using free_links_cells(1) [OF fl] empty by simp
  then have "pull_free_block fb s = Inr ((), s\<lparr>flist_first := NULL\<rparr>)"
    using fl empty
    by (simp add: pull_free_block_def set_flist_first_def prog_eval node_steps [of _ "{fb}"]
        A free_links_def)
  then show ?thesis
    using empty by (auto simp: free_links_def intro: links_only_cell links_only_refl)
next
  case (Cons n ws)
  define p where "p = last (n # ws)"
  let ?t = "poke (n + 16) p (poke (p + 8) n s)"
  define A where "A = set (fb # n # ws)"
  have A_eq: "A = set (us @ fb # vs)" using arg_cong [OF Cons, of set] by (auto simp: A_def)
  have p_in: "p \<in> set (n # ws)" unfolding p_def by (cases ws rule: rev_cases) auto
  then have in_A: "fb \<in> A" "n \<in> A" "p \<in> A" by (auto simp: A_def)
  have A: "free_nodes s A" using nodes A_eq by simp
  have dist: "distinct (fb # n # ws)"
    using fl arg_cong [OF Cons, of distinct] arg_cong [OF Cons, of set]
    by (auto simp: free_links_def)
  then have neq: "p \<noteq> fb" "n \<noteq> fb" using p_in by auto
  have cells: "wv s (fb + 8) = n" "wv s (fb + 16) = p"
    using free_links_cells [OF fl] Cons unfolding p_def
    by (simp_all flip: append_assoc)
  have first: "flist_first s = (if us = [] then fb else hd us)"
    using fl by (cases us) (simp_all add: free_links_def)
  let ?f = "if us = [] then n else hd us"
  have hd_us: "hd us \<noteq> fb" if "us \<noteq> []"
    using fl that by (cases us) (auto simp: free_links_def)
  have A': "free_nodes (s\<lparr>flist_first := f\<rparr>) A" for f
    using free_nodes_links_only [OF links_only_cell(3) [OF links_only_refl] _ A] by blast
  have run: "pull_free_block fb s = Inr ((), ?t\<lparr>flist_first := ?f\<rparr>)"
  proof (cases "us = []")
    case True
    then show ?thesis
      using unlink_block_ok [OF A' in_A neq(1)] first neq cells
      by (simp add: pull_free_block_def set_flist_first_def prog_eval node_steps [of _ A] A A' in_A)
  next
    case False
    then show ?thesis
      using unlink_block_ok [OF A in_A neq(1) cells] first hd_us
      by (simp add: pull_free_block_def prog_eval node_steps [of _ A] A in_A)
  qed
  have "ring (wv s) (fb # n # ws)"
    using fl ring_rotate [of "wv s" us "fb # vs"] Cons by (simp add: free_links_def)
  from words.ring_pull [OF this dist _ p_def] free_nodes_nodes [OF A]
  have "ring (wv ?t) (n # ws)" by (simp add: A_def)
  then have "ring (wv ?t) (us @ vs)" unfolding Cons [symmetric] ring_rotate [of _ us vs] .
  moreover have "(case us @ vs of [] \<Rightarrow> NULL | x # _ \<Rightarrow> x) = ?f"
    using Cons by (cases us) simp_all
  ultimately have "free_links (?t\<lparr>flist_first := ?f\<rparr>) (us @ vs)"
    using fl by (simp add: free_links_def)
  moreover have "links_only (set (us @ vs)) s (?t\<lparr>flist_first := ?f\<rparr>)"
  proof -
    have "set (us @ vs) = set (n # ws)" using arg_cong [OF Cons, of set] by auto
    then show ?thesis using p_in by (intro links_only_cell links_only_refl) simp_all
  qed
  ultimately show ?thesis using run by blast
qed

end
