(* ===== verification/Layout.thy ===== *)
theory Layout
  imports Freelist
begin

text \<open>
  The layout of the heap as a list of chunks, and what the tag operations do to
  it.  A chunk is a block size with the allocated flag; the block addresses are
  the running sums.  \<open>lay s bs\<close> says that the heap of \<open>s\<close> is exactly: the
  prologue, the blocks \<open>bs\<close>, the epilogue, each with both tags in place.

  The lemmas read the layout back (a block's own tags and those of its
  neighbours), keep it under writes to link cells, and give the layout after a
  region of blocks has been given new tags.
\<close>

section \<open>Chunks and their addresses\<close>

type_synonym chunk = "int \<times> bool"

fun place :: "int \<Rightarrow> chunk list \<Rightarrow> (int \<times> chunk) list" where
  "place a [] = []"
| "place a ((sz, al) # bs) = (a, sz, al) # place (a + sz) bs"

definition extent :: "chunk list \<Rightarrow> int" where
  "extent bs = sum_list (map fst bs)"

definition sizes_ok :: "chunk list \<Rightarrow> bool" where
  "sizes_ok bs \<longleftrightarrow> (\<forall>(sz, al)\<in>set bs. 32 \<le> sz \<and> sz mod 8 = 0)"

definition frees :: "int \<Rightarrow> chunk list \<Rightarrow> int set" where
  "frees a bs = {x. \<exists>sz. (x, sz, False) \<in> set (place a bs)}"

definition used_bytes :: "int \<Rightarrow> chunk list \<Rightarrow> int set" where
  "used_bytes a bs =
     {b. \<exists>x sz. (x, sz, True) \<in> set (place a bs) \<and> x + 8 \<le> b \<and> b < x + sz - 8}"

lemma total_simps [simp]:
  "extent [] = 0" "extent ((sz, al) # bs) = sz + extent bs" "extent (xs @ ys) = extent xs + extent ys"
  by (simp_all add: extent_def)

lemma total_rev [simp]: "extent (rev bs) = extent bs"
  by (simp add: extent_def rev_map [symmetric] sum_list_rev)

lemma sizes_ok_simps [simp]:
  "sizes_ok []"
  "sizes_ok ((sz, al) # bs) \<longleftrightarrow> 32 \<le> sz \<and> sz mod 8 = 0 \<and> sizes_ok bs"
  "sizes_ok (xs @ ys) \<longleftrightarrow> sizes_ok xs \<and> sizes_ok ys"
  by (auto simp: sizes_ok_def)

lemma sizes_ok_extent: "sizes_ok bs \<Longrightarrow> 0 \<le> extent bs \<and> extent bs mod 8 = 0"
proof (induction bs)
  case (Cons b bs)
  obtain sz al where b: "b = (sz, al)" by force
  with Cons have "0 \<le> extent bs" "extent bs mod 8 = 0" "32 \<le> sz" "sz mod 8 = 0" by auto
  moreover from this have "(sz + extent bs) mod 8 = 0" by presburger
  ultimately show ?case by (simp add: b)
qed simp

lemma sizes_ok_extent_pos: "sizes_ok bs \<Longrightarrow> bs \<noteq> [] \<Longrightarrow> 32 \<le> extent bs"
  using sizes_ok_extent [of "tl bs"] by (cases bs) auto

lemma place_append: "place a (xs @ ys) = place a xs @ place (a + extent xs) ys"
  by (induction a xs rule: place.induct) (simp_all add: add.assoc)

lemma place_split:
  "(x, sz, al) \<in> set (place a bs) \<longleftrightarrow> (\<exists>us vs. bs = us @ (sz, al) # vs \<and> x = a + extent us)"
proof
  show "(x, sz, al) \<in> set (place a bs) \<Longrightarrow> \<exists>us vs. bs = us @ (sz, al) # vs \<and> x = a + extent us"
  proof (induction a bs rule: place.induct)
    case (2 a sz' al' bs)
    show ?case
    proof (cases "(x, sz, al) = (a, sz', al')")
      case True
      then have "(sz', al') # bs = [] @ (sz, al) # bs \<and> x = a + extent []" by simp
      then show ?thesis by blast
    next
      case False
      with 2 obtain us vs where "bs = us @ (sz, al) # vs" "x = a + sz' + extent us" by auto
      then have "(sz', al') # bs = ((sz', al') # us) @ (sz, al) # vs \<and>
          x = a + extent ((sz', al') # us)" by simp
      then show ?thesis by blast
    qed
  qed simp
qed (auto simp: place_append)

lemma place_bounds:
  assumes "sizes_ok bs" and "(x, sz, al) \<in> set (place a bs)"
  shows "a \<le> x" and "x + sz \<le> a + extent bs" and "32 \<le> sz" and "sz mod 8 = 0" and "(x - a) mod 8 = 0"
proof -
  obtain us vs where "bs = us @ (sz, al) # vs" "x = a + extent us"
    using assms(2) place_split by blast
  then show "a \<le> x" "x + sz \<le> a + extent bs" "32 \<le> sz" "sz mod 8 = 0" "(x - a) mod 8 = 0"
    using assms(1) sizes_ok_extent [of us] sizes_ok_extent [of vs] by auto
qed

lemma place_apart:
  assumes "sizes_ok bs" and "(x, sx, ax) \<in> set (place a bs)" and "(y, sy, ay) \<in> set (place a bs)"
  shows "(x = y \<and> sx = sy \<and> ax = ay) \<or> x + sx \<le> y \<or> y + sy \<le> x"
  using assms
proof (induction a bs rule: place.induct)
  case (2 a sz al bs)
  then show ?case
    using place_bounds(1) [of bs x sx ax "a + sz"] place_bounds(1) [of bs y sy ay "a + sz"] by auto
qed simp

lemma frees_append [simp]: "frees a (xs @ ys) = frees a xs \<union> frees (a + extent xs) ys"
  by (auto simp: frees_def place_append)

lemma frees_simps [simp]:
  "frees a [] = {}"
  "frees a ((sz, al) # bs) = (if al then {} else {a}) \<union> frees (a + sz) bs"
  by (auto simp: frees_def)

lemma used_bytes_append [simp]:
  "used_bytes a (xs @ ys) = used_bytes a xs \<union> used_bytes (a + extent xs) ys"
  by (auto simp: used_bytes_def place_append)

lemma used_bytes_simps [simp]:
  "used_bytes a [] = {}"
  "used_bytes a ((sz, al) # bs) =
     (if al then {a + 8 ..< a + sz - 8} else {}) \<union> used_bytes (a + sz) bs"
  by (auto simp: used_bytes_def) blast+

lemma frees_bounds:
  assumes "sizes_ok bs" and "x \<in> frees a bs"
  shows "a \<le> x" and "x + 32 \<le> a + extent bs" and "(x - a) mod 8 = 0"
  using assms place_bounds [of bs x _ False a] by (fastforce simp: frees_def)+

lemma used_bytes_bounds:
  assumes "sizes_ok bs" and "b \<in> used_bytes a bs"
  shows "a + 8 \<le> b" and "b + 8 < a + extent bs"
  using assms place_bounds [of bs _ _ True a] by (fastforce simp: used_bytes_def)+

section \<open>The heap has this layout\<close>

definition base :: "heap \<Rightarrow> int" where
  "base s = mem_start_brk s + 16"

definition tags_ok :: "(int \<Rightarrow> int) \<Rightarrow> (int \<times> chunk) list \<Rightarrow> bool" where
  "tags_ok w ps \<longleftrightarrow> (\<forall>(x, sz, al)\<in>set ps. w x = tag sz al \<and> w (x + sz - 8) = tag sz al)"

text \<open>The fields that say where the heap and its two sentinels are.\<close>

definition geometry :: "heap \<Rightarrow> chunk list \<Rightarrow> bool" where
  "geometry s bs \<longleftrightarrow>
     0 < mem_start_brk s \<and> mem_start_brk s mod 8 = 0 \<and> mem_max_addr s < 2 ^ 62 \<and>
     prologue s = mem_start_brk s \<and> epilogue s = base s + extent bs \<and>
     mem_brk s = epilogue s + 16 \<and> mem_brk s \<le> mem_max_addr s"

definition sentinels :: "heap \<Rightarrow> bool" where
  "sentinels s \<longleftrightarrow> tags_ok (wv s) [(prologue s, 16, True), (epilogue s, 16, True)]"

definition lay :: "heap \<Rightarrow> chunk list \<Rightarrow> bool" where
  "lay s bs \<longleftrightarrow> geometry s bs \<and> sizes_ok bs \<and> sentinels s \<and> tags_ok (wv s) (place (base s) bs)"

lemma tags_ok_simps [simp]:
  "tags_ok w []"
  "tags_ok w ((x, sz, al) # ps) \<longleftrightarrow>
     w x = tag sz al \<and> w (x + sz - 8) = tag sz al \<and> tags_ok w ps"
  "tags_ok w (ps @ qs) \<longleftrightarrow> tags_ok w ps \<and> tags_ok w qs"
  by (simp_all add: tags_ok_def ball_Un)

lemma tags_ok_cong:
  assumes "sizes_ok bs" and "tags_ok w (place a bs)"
    and "\<And>t. a \<le> t \<Longrightarrow> t + 8 \<le> a + extent bs \<Longrightarrow> (t - a) mod 8 = 0 \<Longrightarrow> w' t = w t"
  shows "tags_ok w' (place a bs)"
  unfolding tags_ok_def
proof clarify
  fix x sz al assume x: "(x, sz, al) \<in> set (place a bs)"
  note b = place_bounds [OF assms(1) x]
  have "(x + sz - 8 - a) mod 8 = 0" using b(4,5) by presburger
  then have "w' x = w x" "w' (x + sz - 8) = w (x + sz - 8)"
    using b by (auto intro!: assms(3))
  then show "w' x = tag sz al \<and> w' (x + sz - 8) = tag sz al"
    using assms(2) x by (auto simp: tags_ok_def)
qed

lemma lay_sizes: "lay s bs \<Longrightarrow> sizes_ok bs"
  by (simp add: lay_def)

lemma lay_base:
  assumes "lay s bs"
  shows "0 < mem_start_brk s" and "mem_start_brk s mod 8 = 0" and "base s mod 8 = 0"
    and "base s = mem_start_brk s + 16" and "epilogue s = base s + extent bs"
    and "mem_brk s = base s + extent bs + 16" and "mem_brk s < 2 ^ 62" and "16 < base s"
    and "prologue s = mem_start_brk s" and "mem_brk s \<le> mem_max_addr s"
proof -
  show b: "0 < mem_start_brk s" "mem_start_brk s mod 8 = 0" "base s = mem_start_brk s + 16"
    "epilogue s = base s + extent bs" "mem_brk s = base s + extent bs + 16" "mem_brk s < 2 ^ 62"
    "prologue s = mem_start_brk s" "mem_brk s \<le> mem_max_addr s"
    using assms by (auto simp: lay_def geometry_def base_def)
  then show "16 < base s" by simp
  from b show "base s mod 8 = 0" by (simp, presburger)
qed

lemma lay_word_ok:
  assumes "lay s bs" and "mem_start_brk s \<le> t" and "t + 8 \<le> mem_brk s"
    and "(t - base s) mod 8 = 0"
  shows "word_ok s t"
  using lay_base(3) [OF assms(1)] assms(2-4)
  by (auto simp: word_ok_def in_heap_def; presburger)

lemma lay_region:
  assumes "lay s (us @ mid @ vs)" and "mid \<noteq> []"
  shows "tag_room s (base s + extent us) (extent mid)"
proof -
  have ok: "sizes_ok us" "sizes_ok mid" "sizes_ok vs"
    using lay_sizes [OF assms(1)] by simp_all
  have e: "0 \<le> extent us" "32 \<le> extent mid" "0 \<le> extent vs"
    and m: "extent us mod 8 = 0" "extent mid mod 8 = 0"
    using sizes_ok_extent [OF ok(1)] sizes_ok_extent [OF ok(2)] sizes_ok_extent [OF ok(3)]
      sizes_ok_extent_pos [OF ok(2) assms(2)] by blast+
  have b: "base s = mem_start_brk s + 16" "0 < mem_start_brk s" "mem_brk s < 2 ^ 62"
    "mem_brk s = base s + extent us + extent mid + extent vs + 16"
    using lay_base [OF assms(1)] by simp_all
  have "word_ok s (base s + extent us + extent mid - 8)"
  proof (rule lay_word_ok [OF assms(1)])
    show "(base s + extent us + extent mid - 8 - base s) mod 8 = 0" using m by presburger
  qed (use e b in linarith)+
  moreover have "word_ok s (base s + extent us)"
  proof (rule lay_word_ok [OF assms(1)])
    show "(base s + extent us - base s) mod 8 = 0" using m by presburger
  qed (use e b in linarith)+
  moreover have "16 \<le> extent mid" "extent mid < 2 ^ 62" using e b by linarith+
  ultimately show ?thesis using m by (simp add: tag_room_def)
qed

lemma lay_block:
  assumes "lay s (us @ (sz, al) # vs)"
  shows "tag_room s (base s + extent us) sz" and "wv s (base s + extent us) = tag sz al"
    and "wv s (base s + extent us + sz - 8) = tag sz al" and "32 \<le> sz" and "sz mod 8 = 0"
  using lay_region [of s us "[(sz, al)]" vs] assms by (auto simp: lay_def place_append)

section \<open>Neighbours\<close>

text \<open>The neighbours of a position; the sentinels count as allocated.\<close>

definition prev_of :: "chunk list \<Rightarrow> chunk" where
  "prev_of us = (if us = [] then (16, True) else last us)"

definition next_of :: "chunk list \<Rightarrow> chunk" where
  "next_of vs = (case vs of [] \<Rightarrow> (16, True) | v # _ \<Rightarrow> v)"

lemma prev_of_simps [simp]: "prev_of [] = (16, True)" "prev_of (us @ [u]) = u"
  by (simp_all add: prev_of_def)

lemma next_of_simps [simp]: "next_of [] = (16, True)" "next_of (v # vs) = v"
  by (simp_all add: next_of_def)

lemma lay_prev:
  assumes lay: "lay s (us @ ws)" and p: "prev_of us = (psz, pal)"
  shows "word_ok s (base s + extent us - 8)" and "wv s (base s + extent us - 8) = tag psz pal"
    and "word_ok s (base s + extent us - psz)" and "wv s (base s + extent us - psz) = tag psz pal"
    and "psz mod 8 = 0"
proof -
  have "word_ok s (base s + extent us - 8) \<and> wv s (base s + extent us - 8) = tag psz pal \<and>
      word_ok s (base s + extent us - psz) \<and> wv s (base s + extent us - psz) = tag psz pal \<and>
      psz mod 8 = 0"
  proof (cases us rule: rev_cases)
    case Nil
    then show ?thesis
      using p lay sizes_ok_extent [of ws] lay_base [OF lay]
      by (auto simp: lay_def sentinels_def intro!: lay_word_ok [OF lay])
  next
    case (snoc us' u)
    then have "lay s (us' @ (psz, pal) # ws)" using lay p by simp
    from lay_block [OF this] show ?thesis using snoc p by (simp add: tag_room_def add.assoc)
  qed
  then show "word_ok s (base s + extent us - 8)" "wv s (base s + extent us - 8) = tag psz pal"
    "word_ok s (base s + extent us - psz)" "wv s (base s + extent us - psz) = tag psz pal"
    "psz mod 8 = 0" by simp_all
qed

lemma lay_next:
  assumes lay: "lay s (us @ vs)" and n: "next_of vs = (nsz, nal)"
  shows "word_ok s (base s + extent us)" and "wv s (base s + extent us) = tag nsz nal"
    and "nsz mod 8 = 0"
proof -
  have "word_ok s (base s + extent us) \<and> wv s (base s + extent us) = tag nsz nal \<and> nsz mod 8 = 0"
  proof (cases vs)
    case Nil
    then show ?thesis
      using n lay sizes_ok_extent [of us] lay_base [OF lay]
      by (auto simp: lay_def sentinels_def intro!: lay_word_ok [OF lay])
  next
    case (Cons v vs')
    then have "lay s (us @ (nsz, nal) # vs')" using lay n by simp
    from lay_block [OF this] show ?thesis by (simp add: tag_room_def)
  qed
  then show "word_ok s (base s + extent us)" "wv s (base s + extent us) = tag nsz nal"
    "nsz mod 8 = 0" by simp_all
qed

text \<open>The block operations at a block of the layout.\<close>

lemma lay_at:
  assumes lay: "lay s (us @ (sz, al) # vs)" and a: "a = base s + extent us"
    and p: "prev_of us = (psz, pal)" and n: "next_of vs = (nsz, nal)"
  shows "block_size a s = Inr (sz, s)" and "block_allocated a s = Inr (of_bool al, s)"
    and "block_next a s = Inr (a + sz, s)" and "block_prev a s = Inr (a - psz, s)"
    and "block_allocated (a - psz) s = Inr (of_bool pal, s)"
    and "block_size (a - psz) s = Inr (psz, s)"
    and "block_allocated (a + sz) s = Inr (of_bool nal, s)"
    and "block_size (a + sz) s = Inr (nsz, s)"
proof -
  note b = lay_block [OF lay] lay_prev [OF lay p]
    lay_next [of s "us @ [(sz, al)]" vs, OF _ n]
  have l: "lay s ((us @ [(sz, al)]) @ vs)" using lay by simp
  note nx = b(11-13) [OF l]
  show "block_size a s = Inr (sz, s)" "block_allocated a s = Inr (of_bool al, s)"
    "block_next a s = Inr (a + sz, s)" "block_prev a s = Inr (a - psz, s)"
    "block_allocated (a - psz) s = Inr (of_bool pal, s)" "block_size (a - psz) s = Inr (psz, s)"
    "block_allocated (a + sz) s = Inr (of_bool nal, s)" "block_size (a + sz) s = Inr (nsz, s)"
    using b(1-10) nx a tag_parity(1,2)
    by (simp_all add: block_eval tag_room_def add.assoc)
qed

section \<open>Free blocks as list nodes\<close>

lemma lay_free_nodes:
  assumes lay: "lay s bs" and A: "A \<subseteq> frees (base s) bs"
  shows "free_nodes s A"
proof -
  note sizes = lay_sizes [OF lay] and b = lay_base [OF lay]
  have blk: "x mod 8 = 0 \<and> is_long x \<and> word_ok s x \<and> word_ok s (x + 8) \<and> word_ok s (x + 16) \<and>
      even (wv s x) \<and> x \<noteq> NULL" if "x \<in> A" for x
  proof -
    obtain sz where "(x, sz, False) \<in> set (place (base s) bs)"
      using A \<open>x \<in> A\<close> by (auto simp: frees_def)
    then obtain us vs where x: "bs = us @ (sz, False) # vs" "x = base s + extent us"
      by (auto simp: place_split)
    note l = lay_block [of s us sz False vs, folded x, OF lay]
    have r: "base s \<le> x" "x + 32 \<le> base s + extent bs" "(x - base s) mod 8 = 0"
      using frees_bounds [OF sizes] A \<open>x \<in> A\<close> by blast+
    have m: "(x + 8 - base s) mod 8 = 0" "(x + 16 - base s) mod 8 = 0"
      using r(3) by (simp_all add: mod_shift)
    have "word_ok s x" by (rule lay_word_ok [OF lay _ _ r(3)]) (use r b(4,6) in linarith)+
    moreover have "word_ok s (x + 8)" "word_ok s (x + 16)"
      by (rule lay_word_ok [OF lay _ _ m(1)], use r b(4,6) in linarith, use r b(4,6) in linarith)
        (rule lay_word_ok [OF lay _ _ m(2)], use r b(4,6) in linarith, use r b(4,6) in linarith)
    moreover have "wv s x = sz" "sz mod 8 = 0" using l by (simp_all add: tag_def)
    then have "even (wv s x)" by presburger
    moreover have "0 < x" "x < 2 ^ 62" using r b(6-8) by linarith+
    ultimately show ?thesis by (simp add: word_ok_def is_long_def mm_consts)
  qed
  moreover have "apart A"
    unfolding apart_def
  proof (intro ballI impI)
    fix x y assume "x \<in> A" "y \<in> A" "x \<noteq> y"
    then obtain sx sy where xy: "(x, sx, False) \<in> set (place (base s) bs)"
      "(y, sy, False) \<in> set (place (base s) bs)"
      using A unfolding frees_def by blast
    then show "x + 24 \<le> y \<or> y + 24 \<le> x"
      using place_apart [OF sizes xy] \<open>x \<noteq> y\<close> place_bounds(3) [OF sizes xy(1)]
        place_bounds(3) [OF sizes xy(2)] by linarith
  qed
  ultimately show ?thesis by (simp add: free_nodes_def nodes_def)
qed

lemma lay_links_only:
  assumes lay: "lay s bs" and lo: "links_only A s s'" and A: "A \<subseteq> frees (base s) bs"
  shows "lay s' bs" and "base s' = base s"
proof -
  note sizes = lay_sizes [OF lay] and b = lay_base [OF lay]
  have Ab: "base s \<le> y \<and> y + 32 \<le> base s + extent bs" if "y \<in> A" for y
    using frees_bounds [OF sizes] A that by blast
  show base: "base s' = base s" using lo by (simp add: links_only_def base_def)
  have geo: "geometry s' bs"
    using lo lay by (simp add: lay_def geometry_def links_only_def base_def)
  have "wv s' t = wv s t" if "t + 16 \<le> base s + 8 \<or> base s + extent bs \<le> t" for t
    by (rule links_only_wv [OF lo]) (use Ab that in fastforce)
  then have "sentinels s'"
    using lay lo b by (simp add: sentinels_def lay_def links_only_def)
  moreover have "tags_ok (wv s') (place (base s) bs)"
    unfolding tags_ok_def
  proof clarify
    fix x sx ax assume x: "(x, sx, ax) \<in> set (place (base s) bs)"
    have "t + 8 \<le> y + 8 \<or> y + 24 \<le> t" if "y \<in> A" and t: "t = x \<or> t = x + sx - 8" for y t
    proof -
      obtain sy where y: "(y, sy, False) \<in> set (place (base s) bs)"
        using A \<open>y \<in> A\<close> by (auto simp: frees_def)
      show ?thesis
        using place_apart [OF sizes x y] place_bounds(3) [OF sizes x] place_bounds(3) [OF sizes y] t
        by linarith
    qed
    then have "wv s' x = wv s x" "wv s' (x + sx - 8) = wv s (x + sx - 8)"
      by (blast intro: links_only_wv [OF lo])+
    then show "wv s' x = tag sx ax \<and> wv s' (x + sx - 8) = tag sx ax"
      using lay x by (auto simp: lay_def tags_ok_def)
  qed
  ultimately show "lay s' bs" using geo sizes by (simp add: lay_def base)
qed

lemma links_only_used:
  assumes lay: "lay s bs" and lo: "links_only A s s'" and A: "A \<subseteq> frees (base s) bs"
    and b: "b \<in> used_bytes (base s) bs"
  shows "mem s' b = mem s b"
proof -
  note sizes = lay_sizes [OF lay]
  obtain x sx where x: "(x, sx, True) \<in> set (place (base s) bs)" "x + 8 \<le> b" "b < x + sx - 8"
    using b by (auto simp: used_bytes_def)
  have "b < y + 8 \<or> y + 24 \<le> b" if "y \<in> A" for y
  proof -
    obtain sy where y: "(y, sy, False) \<in> set (place (base s) bs)"
      using A \<open>y \<in> A\<close> by (auto simp: frees_def)
    show ?thesis
      using place_apart [OF sizes x(1) y] place_bounds(3) [OF sizes y] x by auto
  qed
  then show ?thesis using lo by (simp add: links_only_def)
qed

section \<open>New tags for a region\<close>

definition same_frame :: "heap \<Rightarrow> heap \<Rightarrow> bool" where
  "same_frame s s' \<longleftrightarrow>
     mem_start_brk s' = mem_start_brk s \<and> mem_brk s' = mem_brk s \<and>
     mem_max_addr s' = mem_max_addr s \<and> prologue s' = prologue s \<and> epilogue s' = epilogue s"

lemma same_frame_tagged [simp]: "same_frame s (tagged b sz al s)"
  by (simp add: same_frame_def)

lemma same_frame_tagged2 [simp]: "same_frame s (tagged c m al' (tagged b sz al s))"
  by (simp add: same_frame_def)

lemma base_same: "same_frame s s' \<Longrightarrow> base s' = base s"
  by (simp add: same_frame_def base_def)

lemma base_tagged [simp]: "base (tagged b sz al s) = base s"
  by (simp add: base_def)

lemma lay_rebuild:
  assumes lay: "lay s (us @ mid @ vs)" and mid': "extent mid' = extent mid" "sizes_ok mid'"
    and frame: "same_frame s s'" and a: "a = base s + extent us"
    and out: "\<And>t. t mod 8 = 0 \<Longrightarrow> t + 8 \<le> a \<or> a + extent mid \<le> t \<Longrightarrow> wv s' t = wv s t"
    and new: "tags_ok (wv s') (place a mid')"
  shows "lay s' (us @ mid' @ vs)"
proof -
  note b = lay_base [OF lay] and sizes = lay_sizes [OF lay]
  have ok: "sizes_ok us" "sizes_ok mid" "sizes_ok vs" using sizes by auto
  note e = sizes_ok_extent [OF ok(1)] sizes_ok_extent [OF ok(2)] sizes_ok_extent [OF ok(3)]
  have m8: "a mod 8 = 0" "(a + extent mid) mod 8 = 0" "epilogue s mod 8 = 0"
    using e b(3,5) a by (simp_all add: mod_add_eq [symmetric])
  have "geometry s' (us @ mid' @ vs)"
    using frame lay mid' by (simp add: lay_def geometry_def same_frame_def base_def)
  moreover have "tags_ok (wv s') (place (base s) us)"
  proof (rule tags_ok_cong [OF ok(1), where w = "wv s"])
    show "tags_ok (wv s) (place (base s) us)" using lay by (simp add: lay_def place_append)
    fix t assume "t + 8 \<le> base s + extent us" "(t - base s) mod 8 = 0"
    moreover from this(2) b(3) have "t mod 8 = 0" by (simp add: mod_diff_0)
    ultimately show "wv s' t = wv s t" using a by (intro out) simp_all
  qed
  moreover have "tags_ok (wv s') (place (a + extent mid) vs)"
  proof (rule tags_ok_cong [OF ok(3), where w = "wv s"])
    show "tags_ok (wv s) (place (a + extent mid) vs)"
      using lay a by (simp add: lay_def place_append add.assoc)
    fix t assume "a + extent mid \<le> t" "(t - (a + extent mid)) mod 8 = 0"
    moreover from this(2) m8(2) have "t mod 8 = 0" by (simp add: mod_diff_0)
    ultimately show "wv s' t = wv s t" by (intro out) simp_all
  qed
  moreover have "sentinels s'"
  proof -
    have "wv s' (prologue s) = wv s (prologue s)" "wv s' (prologue s + 8) = wv s (prologue s + 8)"
      using a b(2,4,9) e by (simp_all add: out)
    moreover have "wv s' (epilogue s) = wv s (epilogue s)"
      "wv s' (epilogue s + 8) = wv s (epilogue s + 8)"
      using m8(3) a b(5) e by (simp_all add: out)
    ultimately have "wv s' t = wv s t"
      if "t \<in> {prologue s, prologue s + 8, epilogue s, epilogue s + 8}" for t
      using that by blast
    then show ?thesis using lay frame by (simp add: sentinels_def lay_def same_frame_def)
  qed
  ultimately show ?thesis
    using new a ok mid' base_same [OF frame]
    by (simp add: lay_def place_append add.assoc)
qed

end
