(* ===== verification/Retag.thy ===== *)
theory Retag
  imports Layout
begin

text \<open>
  Rules for the three ways in which the allocator gives blocks new tags: one
  block in place of a run of neighbours (merging, or setting the flag of one
  block), two blocks in place of one (splitting), and a block appended where
  the epilogue was (growing the heap).  Each says what the layout becomes, that
  free-list links elsewhere survive, and that no payload byte of an allocated
  block changes.
\<close>

section \<open>Addresses of a region\<close>

lemma lay_region_facts:
  assumes lay: "lay s (us @ mid @ vs)" and ne: "mid \<noteq> []" and a: "a = base s + extent us"
    and sz: "sz = extent mid"
  shows "tag_room s a sz" and "a mod 8 = 0" and "sz mod 8 = 0" and "32 \<le> sz"
    and "base s \<le> a" and "a + sz + 16 \<le> mem_brk s"
proof -
  show r: "tag_room s a sz" using lay_region [OF lay ne] a sz by simp
  then show "a mod 8 = 0" "sz mod 8 = 0" by (simp_all add: tag_room_def word_ok_def)
  have "sizes_ok us" "sizes_ok mid" "sizes_ok vs" using lay_sizes [OF lay] by auto
  note e = sizes_ok_extent [OF this(1)] sizes_ok_extent [OF this(3)]
    sizes_ok_extent_pos [OF this(2) ne]
  show "32 \<le> sz" "base s \<le> a" "a + sz + 16 \<le> mem_brk s"
    using e lay_base(6) [OF lay] a sz by auto
qed

lemma tag_roomI:
  assumes "b mod 8 = 0" and "sz mod 8 = 0" and "16 \<le> sz" and "sz < 2 ^ 62"
    and "mem_start_brk s \<le> b" and "b + sz \<le> mem_brk s"
  shows "tag_room s b sz"
proof -
  have "(b + sz - 8) mod 8 = 0" using assms(1,2) by (simp add: mod_add_0 mod_diff_eq [symmetric])
  moreover have "b + 8 \<le> mem_brk s" "mem_start_brk s \<le> b + sz - 8"
    using assms(3,5,6) by linarith+
  ultimately show ?thesis
    using assms by (simp add: tag_room_def word_ok_def in_heap_def)
qed

text \<open>Where the blocks around a region lie.\<close>

lemma outer_frees:
  assumes lay: "lay s (us @ mid @ vs)" and a: "a = base s + extent us"
    and x: "x \<in> frees (base s) us \<union> frees (a + extent mid) vs"
  shows "x mod 8 = 0" and "x + 32 \<le> a \<or> a + extent mid \<le> x"
proof -
  have ok: "sizes_ok us" "sizes_ok mid" "sizes_ok vs" using lay_sizes [OF lay] by auto
  have m8: "base s mod 8 = 0" "a mod 8 = 0" "(a + extent mid) mod 8 = 0"
    using lay_base(3) [OF lay] a sizes_ok_extent [OF ok(1)] sizes_ok_extent [OF ok(2)]
    by (simp_all add: mod_add_0)
  show "x mod 8 = 0"
    using x frees_bounds(3) [OF ok(1), of x "base s"]
      frees_bounds(3) [OF ok(3), of x "a + extent mid"] m8
    by (auto simp: mod_diff_0)
  show "x + 32 \<le> a \<or> a + extent mid \<le> x"
    using x frees_bounds(2) [OF ok(1), of x "base s"]
      frees_bounds(1) [OF ok(3), of x "a + extent mid"] a by auto
qed

lemma outer_used:
  assumes lay: "lay s (us @ mid @ vs)" and a: "a = base s + extent us"
    and b: "b \<in> used_bytes (base s) us \<union> used_bytes (a + extent mid) vs"
  shows "b < a \<or> a + extent mid \<le> b"
proof -
  have ok: "sizes_ok us" "sizes_ok vs" using lay_sizes [OF lay] by auto
  show ?thesis
    using b used_bytes_bounds [OF ok(1), of b "base s"]
      used_bytes_bounds [OF ok(2), of b "a + extent mid"] a by auto
qed

lemma free_links_cong:
  assumes "free_links s fl" and "flist_first s' = flist_first s"
    and "\<And>x. x \<in> set fl \<Longrightarrow> wv s' (x + 8) = wv s (x + 8) \<and> wv s' (x + 16) = wv s (x + 16)"
  shows "free_links s' fl"
  using assms ring_cong [of fl "wv s'" "wv s"] by (simp add: free_links_def)

section \<open>One block in place of several\<close>

lemma lay_tagged:
  assumes lay: "lay s (us @ mid @ vs)" and ne: "mid \<noteq> []" and a: "a = base s + extent us"
    and sz: "sz = extent mid"
  shows "lay (tagged a sz al s) (us @ (sz, al) # vs)"
proof -
  note f = lay_region_facts [OF lay ne a sz]
  have "tags_ok (wv (tagged a sz al s)) [(a, sz, al)]"
    using wv_tagged [OF f(1)] f(2,3) tag_room_aligned(2) [OF f(1)] by simp
  moreover have "wv (tagged a sz al s) t = wv s t"
    if "t mod 8 = 0" "t + 8 \<le> a \<or> a + extent mid \<le> t" for t
    using wv_tagged [OF f(1) that(1)] that(2) f(4) sz by auto
  moreover have "sizes_ok [(sz, al)]" "extent [(sz, al)] = extent mid" using f sz by simp_all
  ultimately have "lay (tagged a sz al s) (us @ [(sz, al)] @ vs)"
    using a by (intro lay_rebuild [OF lay]) simp_all
  then show ?thesis by simp
qed

lemma free_links_tagged:
  assumes lay: "lay s (us @ mid @ vs)" and ne: "mid \<noteq> []" and a: "a = base s + extent us"
    and sz: "sz = extent mid" and fl: "free_links s fl"
    and out: "set fl \<subseteq> frees (base s) us \<union> frees (a + sz) vs"
  shows "free_links (tagged a sz al s) fl"
proof (rule free_links_cong [OF fl])
  note f = lay_region_facts [OF lay ne a sz]
  fix x assume "x \<in> set fl"
  then have "x \<in> frees (base s) us \<union> frees (a + extent mid) vs" using out sz by blast
  note x = outer_frees [OF lay a this]
  show "wv (tagged a sz al s) (x + 8) = wv s (x + 8) \<and> wv (tagged a sz al s) (x + 16) = wv s (x + 16)"
    using wv_tagged [OF f(1)] cell_aligned [OF x(1)] x(2) f(4) sz by auto
qed simp

lemma used_tagged:
  assumes lay: "lay s (us @ mid @ vs)" and ne: "mid \<noteq> []" and a: "a = base s + extent us"
    and sz: "sz = extent mid" and b: "b \<in> used_bytes (base s) (us @ mid @ vs)"
  shows "mem (tagged a sz al s) b = mem s b"
proof -
  have ok: "sizes_ok mid" using lay_sizes [OF lay] by auto
  have "b < a \<or> a + sz \<le> b \<or> (a + 8 \<le> b \<and> b + 8 < a + sz)"
    using b a sz outer_used [OF lay a, of b] used_bytes_bounds [OF ok, of b a]
    by (auto simp: add.assoc)
  then show ?thesis
    using lay_region_facts(4) [OF lay ne a sz] by (intro mem_tagged) auto
qed

section \<open>Two blocks in place of one\<close>

lemma lay_carved:
  assumes lay: "lay s (us @ (sz, x) # vs)" and a: "a = base s + extent us"
    and sz: "sz = n + m" and n: "32 \<le> n" "n mod 8 = 0" and m: "32 \<le> m" "m mod 8 = 0"
  shows "lay (tagged (a + n) m al' (tagged a n al s)) (us @ (n, al) # (m, al') # vs)"
    and "tag_room s a n" and "tag_room s (a + n) m"
    and "t mod 8 = 0 \<Longrightarrow> t + 8 \<le> a \<or> a + sz \<le> t \<Longrightarrow>
      wv (tagged (a + n) m al' (tagged a n al s)) t = wv s t"
proof -
  have lay': "lay s (us @ [(sz, x)] @ vs)" using lay by simp
  note f = lay_region_facts [OF lay' _ a refl, simplified]
  have m8: "(a + n) mod 8 = 0" using f(2) n(2) by (simp add: mod_add_0)
  have "mem_start_brk s \<le> a \<and> a + n + m + 16 \<le> mem_brk s \<and> n + m < 2 ^ 62"
    using f(5,6) lay_base(4,7,8) [OF lay] sz by linarith+
  then show r: "tag_room s a n" "tag_room s (a + n) m"
    using n(1) m(1) by (auto intro!: tag_roomI f(2) n(2) m(2) m8)
  let ?t = "tagged a n al s" let ?u = "tagged (a + n) m al' ?t"
  have r': "tag_room ?t (a + n) m" using r(2) by (simp add: tag_room_def)
  note w = wv_tagged [OF r(1)] wv_tagged [OF r']
  note al8 = tag_room_aligned [OF r(1)] tag_room_aligned [OF r(2)]
  have "tags_ok (wv ?u) [(a, n, al), (a + n, m, al')]"
    using w al8 n m by simp
  moreover have out: "wv ?u t = wv s t"
    if "t mod 8 = 0" "t + 8 \<le> a \<or> a + extent [(sz, x)] \<le> t" for t
  proof -
    have "t \<noteq> a" "t \<noteq> a + n - 8" "t \<noteq> a + n" "t \<noteq> a + n + m - 8"
      using that(2) n(1) m(1) sz by auto
    then show ?thesis using w(1) [OF that(1)] w(2) [OF that(1)] by (simp only:) simp
  qed
  then show "t mod 8 = 0 \<Longrightarrow> t + 8 \<le> a \<or> a + sz \<le> t \<Longrightarrow> wv ?u t = wv s t" by simp
  moreover have "sizes_ok [(n, al), (m, al')]" "extent [(n, al), (m, al')] = extent [(sz, x)]"
    using n m sz by simp_all
  ultimately have "lay ?u (us @ [(n, al), (m, al')] @ vs)"
    using a out by (intro lay_rebuild [OF lay']) simp_all
  then show "lay ?u (us @ (n, al) # (m, al') # vs)" by simp
qed

lemma free_links_carved:
  assumes lay: "lay s (us @ (sz, x) # vs)" and a: "a = base s + extent us"
    and sz: "sz = n + m" and n: "32 \<le> n" "n mod 8 = 0" and m: "32 \<le> m" "m mod 8 = 0"
    and fl: "free_links s fl" and out: "set fl \<subseteq> frees (base s) us \<union> frees (a + sz) vs"
  shows "free_links (tagged (a + n) m al' (tagged a n al s)) fl"
proof (rule free_links_cong [OF fl])
  have lay': "lay s (us @ [(sz, x)] @ vs)" using lay by simp
  fix y assume "y \<in> set fl"
  then have "y \<in> frees (base s) us \<union> frees (a + extent [(sz, x)]) vs" using out by auto
  note y = outer_frees [OF lay' a this]
  have "y + 8 + 8 \<le> a \<or> a + sz \<le> y + 8" "y + 16 + 8 \<le> a \<or> a + sz \<le> y + 16"
    using y(2) by auto
  then show "wv (tagged (a + n) m al' (tagged a n al s)) (y + 8) = wv s (y + 8) \<and>
      wv (tagged (a + n) m al' (tagged a n al s)) (y + 16) = wv s (y + 16)"
    using cell_aligned [OF y(1)] by (intro conjI lay_carved(4) [OF lay a sz n m]) simp_all
qed simp

lemma used_carved:
  assumes lay: "lay s (us @ (sz, False) # vs)" and a: "a = base s + extent us"
    and sz: "sz = n + m" and n: "32 \<le> n" and m: "32 \<le> m"
    and b: "b \<in> used_bytes (base s) (us @ (sz, False) # vs)"
  shows "mem (tagged (a + n) m al' (tagged a n al s)) b = mem s b"
proof -
  have lay': "lay s (us @ [(sz, False)] @ vs)" using lay by simp
  have "b < a \<or> a + sz \<le> b"
    using outer_used [OF lay' a, of b] b a by (simp add: add.assoc)
  then show ?thesis using n m sz by (auto simp: mem_tagged)
qed

section \<open>Growing the heap\<close>

definition grown :: "int \<Rightarrow> heap \<Rightarrow> heap" where
  "grown n s =
     tagged (epilogue s + n) 16 True
       (tagged (epilogue s) n True (s\<lparr>mem_brk := mem_brk s + n\<rparr>)\<lparr>epilogue := epilogue s + n\<rparr>)"

lemma heap_field_updates [simp]:
  "wv ((s :: heap)\<lparr>mem_brk := k\<rparr>) = wv s"
  "wv (s\<lparr>epilogue := k\<rparr>) = wv s"
  "word_ok (s\<lparr>epilogue := k\<rparr>) = word_ok s"
  by (simp_all add: wv_def word_ok_def in_heap_def fun_eq_iff)

lemma free_links_updates [simp]:
  "free_links (s\<lparr>mem_brk := k\<rparr>) = free_links s"
  "free_links (s\<lparr>epilogue := k\<rparr>) = free_links s"
  by (simp_all add: free_links_def fun_eq_iff)

lemma grown_rooms:
  assumes lay: "lay s bs" and n: "32 \<le> n" "n mod 8 = 0" and room: "mem_brk s + n \<le> mem_max_addr s"
  shows "tag_room (s\<lparr>mem_brk := mem_brk s + n\<rparr>) (epilogue s) n"
    and "tag_room (tagged (epilogue s) n True (s\<lparr>mem_brk := mem_brk s + n\<rparr>)\<lparr>epilogue := epilogue s + n\<rparr>)
           (epilogue s + n) 16"
proof -
  note b = lay_base [OF lay] and e = sizes_ok_extent [OF lay_sizes [OF lay]]
  have m8: "epilogue s mod 8 = 0" using b(3,5) e by (simp add: mod_add_0)
  have max: "mem_max_addr s < 2 ^ 62" using lay by (simp add: lay_def geometry_def)
  have i: "mem_start_brk s \<le> epilogue s" "epilogue s + 16 = mem_brk s" "0 < epilogue s"
    using b(1,4,5,6) e by linarith+
  show "tag_room (s\<lparr>mem_brk := mem_brk s + n\<rparr>) (epilogue s) n"
    by (rule tag_roomI [OF m8 n(2)]) (use i n(1) room max in simp_all)
  have m8': "(epilogue s + n) mod 8 = 0" using m8 n(2) by (simp add: mod_add_0)
  show "tag_room (tagged (epilogue s) n True (s\<lparr>mem_brk := mem_brk s + n\<rparr>)\<lparr>epilogue := epilogue s + n\<rparr>)
           (epilogue s + n) 16"
    by (rule tag_roomI [OF m8']) (use i n(1) room max in simp_all)
qed

lemma wv_grown:
  assumes lay: "lay s bs" and n: "32 \<le> n" "n mod 8 = 0" and room: "mem_brk s + n \<le> mem_max_addr s"
    and t: "t mod 8 = 0"
  shows "wv (grown n s) t =
    (if t = epilogue s + n \<or> t = epilogue s + n + 8 then tag 16 True
     else if t = epilogue s \<or> t = epilogue s + n - 8 then tag n True else wv s t)"
  using wv_tagged [OF grown_rooms(2) [OF lay n room] t] wv_tagged [OF grown_rooms(1) [OF lay n room] t]
  by (simp add: grown_def)

lemma lay_grown:
  assumes lay: "lay s bs" and n: "32 \<le> n" "n mod 8 = 0" and room: "mem_brk s + n \<le> mem_max_addr s"
  shows "lay (grown n s) (bs @ [(n, True)])"
proof -
  note b = lay_base [OF lay] and sizes = lay_sizes [OF lay]
  note e = sizes_ok_extent [OF sizes]
  note w = wv_grown [OF lay n room]
  have m8: "epilogue s mod 8 = 0" "(epilogue s + n) mod 8 = 0" "(epilogue s + n + 8) mod 8 = 0"
    "(epilogue s + n - 8) mod 8 = 0" "(mem_start_brk s + 8) mod 8 = 0"
    using b(2,3,5) e n(2) by (simp_all add: mod_add_0 mod_diff_eq [symmetric])
  have f: "mem_start_brk (grown n s) = mem_start_brk s" "mem_max_addr (grown n s) = mem_max_addr s"
    "prologue (grown n s) = prologue s" "epilogue (grown n s) = epilogue s + n"
    "mem_brk (grown n s) = mem_brk s + n" "base (grown n s) = base s"
    by (simp_all add: grown_def base_def)
  have "geometry (grown n s) (bs @ [(n, True)])"
    using lay room n by (simp add: lay_def geometry_def f)
  moreover have "sentinels (grown n s)"
  proof -
    have "mem_start_brk s + 8 < epilogue s" using b(4,5) e by simp
    moreover have "wv s (mem_start_brk s) = tag 16 True" "wv s (mem_start_brk s + 8) = tag 16 True"
      using lay b(9) by (simp_all add: lay_def sentinels_def add.commute)
    moreover from this(2) have "wv s (8 + mem_start_brk s) = tag 16 True"
      by (simp only: add.commute)
    ultimately show ?thesis
      using n(1) by (simp add: sentinels_def f w m8 b(2,9))
  qed
  moreover have "tags_ok (wv (grown n s)) (place (base s) bs)"
  proof (rule tags_ok_cong [OF sizes, where w = "wv s"])
    show "tags_ok (wv s) (place (base s) bs)" using lay by (simp add: lay_def)
    fix t assume "t + 8 \<le> base s + extent bs" "(t - base s) mod 8 = 0"
    then show "wv (grown n s) t = wv s t"
      using w [of t] b(3,5) n by (simp add: mod_diff_0)
  qed
  moreover have "tags_ok (wv (grown n s)) [(epilogue s, n, True)]"
    using w m8 n by simp
  ultimately show ?thesis
    using sizes n b(5) by (simp add: lay_def f place_append)
qed

lemma free_links_grown:
  assumes lay: "lay s bs" and n: "32 \<le> n" "n mod 8 = 0" and room: "mem_brk s + n \<le> mem_max_addr s"
    and fl: "free_links s fl" and out: "set fl \<subseteq> frees (base s) bs"
  shows "free_links (grown n s) fl"
proof (rule free_links_cong [OF fl])
  note b = lay_base [OF lay]
  fix x assume "x \<in> set fl"
  then have "x \<in> frees (base s) bs" using out by blast
  note x = frees_bounds [OF lay_sizes [OF lay] this]
  then have "x mod 8 = 0" using b(3) by (simp add: mod_diff_0)
  then show "wv (grown n s) (x + 8) = wv s (x + 8) \<and> wv (grown n s) (x + 16) = wv s (x + 16)"
    using wv_grown [OF lay n room] cell_aligned x(2) b(5) n by auto
qed (simp add: grown_def)

lemma used_grown:
  assumes lay: "lay s bs" and n: "32 \<le> n" and b: "b \<in> used_bytes (base s) bs"
  shows "mem (grown n s) b = mem s b"
  using used_bytes_bounds [OF lay_sizes [OF lay] b] lay_base(5) [OF lay] n
  by (simp add: grown_def mem_tagged)

end
