(* ===== verification/MM.thy ===== *)
theory MM
  imports Freelist
begin

text \<open>
  The allocator, \<^verbatim>\<open>mm.c\<close>: one definition per function, with its calls in the
  order of the code and every early return a branch.  A pointer result is the
  address, 0 for \<open>NULL\<close>.  The walk over the free list in \<open>mm_malloc\<close> gets a bound
  on its number of steps, the number of 64-bit words in the heap; that the
  bound is never reached is proved in the theory on \<open>mm_malloc\<close>.
\<close>

definition align :: "int \<Rightarrow> (heap, int) prog" where
  "align sz =
     bnd (long_add sz (WORD_SIZE - 1)) (\<lambda>x. ret (x AND NOT (WORD_SIZE - 1)))"

section \<open>coalescing\<close>

text \<open>
  The three merges of \<open>coalescing\<close> have one shape: take a block off the free
  list, add the sizes of two blocks, and tag the block that is kept.
\<close>

definition absorb :: "int \<Rightarrow> int \<Rightarrow> int \<Rightarrow> int \<Rightarrow> (heap, unit) prog" where
  "absorb pulled b1 b2 keep =
     seqp (pull_free_block pulled)
    (bnd (block_size b1) (\<lambda>s1.
     bnd (block_size b2) (\<lambda>s2.
     bnd (long_add s1 s2) (\<lambda>new_size.
       block_set_size_and_allocated keep new_size 0))))"

definition coalescing :: "int \<Rightarrow> (heap, unit) prog" where
  "coalescing block =
     bnd (block_next block) (\<lambda>nxt.
     bnd (block_prev block) (\<lambda>prv.
     seqp (pull_free_block block)
    (seqp (bnd (block_allocated prv) (\<lambda>pa.
             if pa = 0 then absorb prv prv block prv else ret ()))
    (bnd (block_allocated nxt) (\<lambda>na.
       if na = 0 then
         bnd (block_allocated prv) (\<lambda>pa.
           if pa = 0 then seqp (absorb nxt nxt prv prv) (insert_free_block prv)
           else seqp (absorb nxt nxt block block) (insert_free_block block))
       else
         bnd (block_allocated prv) (\<lambda>pa.
           if pa = 0 then insert_free_block prv
           else insert_free_block block))))))"

section \<open>mm\_init\<close>

definition mm_init :: "(heap, int) prog" where
  "mm_init =
     seqp (set_flist_first NULL)
    (bnd (mem_sbrk TAGS_SIZE) (\<lambda>p.
     seqp (modify (\<lambda>s. s\<lparr>prologue := p\<rparr>))
    (if p = SBRK_FAILED then ret (- 1)
     else
       bnd (mem_sbrk TAGS_SIZE) (\<lambda>e.
       seqp (modify (\<lambda>s. s\<lparr>epilogue := e\<rparr>))
      (if e = SBRK_FAILED then ret (- 1)
       else
         bnd (gets prologue) (\<lambda>p'.
         seqp (block_set_size_and_allocated p' TAGS_SIZE 1)
        (bnd (gets epilogue) (\<lambda>e'.
         seqp (block_set_size_and_allocated e' TAGS_SIZE 1)
        (ret 0)))))))))"

section \<open>mm\_malloc\<close>

text \<open>The body of the search loop for a block that is large enough.\<close>

definition take_block :: "int \<Rightarrow> int \<Rightarrow> (heap, unit) prog" where
  "take_block curr_block b_size =
     seqp (pull_free_block curr_block)
    (bnd (block_size curr_block) (\<lambda>sz.
     bnd (long_add sz (- b_size)) (\<lambda>free_size.
       if free_size \<ge> MINBLOCKSIZE then
         seqp (block_set_size_and_allocated curr_block b_size 1)
        (seqp (bnd (block_next curr_block) (\<lambda>n. block_set_size_and_allocated n free_size 0))
        (bnd (block_next curr_block) insert_free_block))
       else
         block_set_allocated curr_block 1)))"

fun search_free :: "nat \<Rightarrow> int \<Rightarrow> int \<Rightarrow> (heap, int option) prog" where
  "search_free fuel b_size curr_block =
     (if curr_block = NULL then ret None
      else case fuel of
        0 \<Rightarrow> raise Out_Of_Fuel
      | Suc fuel' \<Rightarrow>
          bnd (block_size curr_block) (\<lambda>sz.
            if sz \<ge> b_size then
              seqp (take_block curr_block b_size) (ret (Some (payload curr_block 0)))
            else
              bnd (block_flink curr_block) (\<lambda>n.
              bnd (gets flist_first) (\<lambda>first.
                if n = first then ret None
                else search_free fuel' b_size n))))"

declare search_free.simps [simp del]

definition extend_heap :: "int \<Rightarrow> (heap, int) prog" where
  "extend_heap b_size =
     bnd (mem_sbrk (int_of_long b_size)) (\<lambda>r.
       if r = SBRK_FAILED then ret NULL
       else
         bnd (gets epilogue) (\<lambda>new_block.
         seqp (block_set_size_and_allocated new_block b_size 1)
        (bnd (block_next new_block) (\<lambda>e.
         seqp (modify (\<lambda>s. s\<lparr>epilogue := e\<rparr>))
        (seqp (block_set_size_and_allocated e TAGS_SIZE 1)
        (ret (payload new_block 0)))))))"

definition heap_words :: "heap \<Rightarrow> nat" where
  "heap_words s = nat ((mem_brk s - mem_start_brk s) div WORD_SIZE)"

definition mm_malloc :: "int \<Rightarrow> (heap, int) prog" where
  "mm_malloc sz =
     bnd (align sz) (\<lambda>asize.
     bnd (long_add asize TAGS_SIZE) (\<lambda>b_size0.
       if sz = 0 then ret NULL
       else
         let b_size = (if b_size0 < MINBLOCKSIZE then MINBLOCKSIZE else b_size0) in
         bnd (gets flist_first) (\<lambda>curr_block.
         bnd (gets heap_words) (\<lambda>fuel.
         bnd (search_free fuel b_size curr_block) (\<lambda>found.
           case found of
             Some p \<Rightarrow> ret p
           | None \<Rightarrow> extend_heap b_size)))))"

section \<open>mm\_free\<close>

definition mm_free :: "int \<Rightarrow> (heap, unit) prog" where
  "mm_free ptr =
     (if ptr = NULL then ret ()
      else
        let block = payload_to_block ptr in
        bnd (block_allocated block) (\<lambda>a.
          if a = 0 then ret ()
          else
            seqp (block_set_allocated block 0)
           (seqp (insert_free_block block)
           (coalescing block))))"

section \<open>mm\_realloc\<close>

text \<open>The test \<open>!block_allocated(b) && old_size + block_size(b) >= b_size\<close>.\<close>

definition free_and_enough :: "int \<Rightarrow> int \<Rightarrow> int \<Rightarrow> (heap, bool) prog" where
  "free_and_enough b old_size b_size =
     bnd (block_allocated b) (\<lambda>a.
       if a = 0 then
         bnd (block_size b) (\<lambda>sb.
         bnd (long_add old_size sb) (\<lambda>t. ret (t \<ge> b_size)))
       else ret False)"

definition both_free_and_enough :: "int \<Rightarrow> int \<Rightarrow> int \<Rightarrow> int \<Rightarrow> (heap, bool) prog" where
  "both_free_and_enough prv nxt old_size b_size =
     bnd (block_allocated prv) (\<lambda>pa.
       if pa = 0 then
         bnd (block_allocated nxt) (\<lambda>na.
           if na = 0 then
             bnd (block_size prv) (\<lambda>sp.
             bnd (long_add old_size sp) (\<lambda>t.
             bnd (block_size nxt) (\<lambda>sn.
             bnd (long_add t sn) (\<lambda>u. ret (u \<ge> b_size)))))
           else ret False)
       else ret False)"

definition mm_realloc :: "int \<Rightarrow> int \<Rightarrow> (heap, int) prog" where
  "mm_realloc ptr sz =
     (if ptr = NULL then seqp (bnd (mm_malloc sz) (\<lambda>_. ret ())) (ret NULL)
      else if sz = 0 then seqp (mm_free ptr) (ret NULL)
      else
        let original = payload_to_block ptr in
        bnd (align sz) (\<lambda>asize.
        bnd (long_add asize TAGS_SIZE) (\<lambda>b_size.
        bnd (block_size original) (\<lambda>old_size.
          if old_size \<ge> b_size then ret ptr
          else
            bnd (block_next original) (\<lambda>nxt.
            bnd (block_prev original) (\<lambda>prv.
            bnd (free_and_enough prv old_size b_size) (\<lambda>use_prev.
              if use_prev then
                seqp (pull_free_block prv)
               (bnd (block_size prv) (\<lambda>sp.
                bnd (long_add old_size sp) (\<lambda>t.
                seqp (block_set_size_and_allocated prv t 1)
               (seqp (memmove (payload prv 0) ptr old_size)
               (ret (payload prv 0))))))
              else
                bnd (free_and_enough nxt old_size b_size) (\<lambda>use_next.
                  if use_next then
                    bnd (block_next original) (\<lambda>nxt'.
                    seqp (pull_free_block nxt')
                   (bnd (block_size nxt') (\<lambda>sn.
                    bnd (long_add old_size sn) (\<lambda>t.
                    seqp (block_set_size_and_allocated original t 1)
                   (ret (payload original 0))))))
                  else
                    bnd (both_free_and_enough prv nxt old_size b_size) (\<lambda>use_both.
                      if use_both then
                        seqp (pull_free_block nxt)
                       (seqp (pull_free_block prv)
                       (bnd (block_size nxt) (\<lambda>sn.
                        bnd (long_add old_size sn) (\<lambda>t.
                        bnd (block_size prv) (\<lambda>sp.
                        bnd (long_add t sp) (\<lambda>u.
                        seqp (block_set_size_and_allocated prv u 1)
                       (seqp (memmove (payload prv 0) ptr old_size)
                       (ret (payload prv 0)))))))))
                      else
                        bnd (mm_malloc b_size) (\<lambda>newptr.
                          if newptr \<noteq> NULL then
                            seqp (memmove newptr ptr old_size)
                           (seqp (mm_free ptr)
                           (ret newptr))
                          else ret newptr))))))))))"

end
