(* ===== verification/Abstract_Heap.thy ===== *)
theory Abstract_Heap
  imports Retag MM
begin

text \<open>
  The specification of the allocator.  An abstract heap is the list of chunks,
  the free blocks in the order of the free list, and the bounds of the region;
  \<open>a_malloc\<close>, \<open>a_free\<close> and \<open>a_realloc\<close> are the three operations on it.  \<open>rep s A\<close>
  relates a heap to its abstraction and is the invariant of the allocator: the
  tags describe the chunks, the links describe the order, every free chunk is
  in the list, and no two free chunks are neighbours.
\<close>

record aheap =
  abase :: int
  chunks :: "chunk list"
  order :: "int list"
  alimit :: int

definition atop :: "aheap \<Rightarrow> int" where
  "atop A = abase A + extent (chunks A) + 16"

text \<open>The chunk at an address, with what lies before and after it.\<close>

fun cut :: "int \<Rightarrow> chunk list \<Rightarrow> int \<Rightarrow> (chunk list \<times> chunk \<times> chunk list) option" where
  "cut a [] x = None"
| "cut a (b # bs) x =
     (if a = x then Some ([], b, bs)
      else map_option (\<lambda>(us, c, vs). (b # us, c, vs)) (cut (a + fst b) bs x))"

fun no_adjacent_free :: "chunk list \<Rightarrow> bool" where
  "no_adjacent_free [] \<longleftrightarrow> True"
| "no_adjacent_free [b] \<longleftrightarrow> True"
| "no_adjacent_free (b # c # bs) \<longleftrightarrow> (snd b \<or> snd c) \<and> no_adjacent_free (c # bs)"

text \<open>The usable payload of an allocated block, by payload address.\<close>

definition live :: "aheap \<Rightarrow> int \<Rightarrow> int option" where
  "live A p =
     (case cut (abase A) (chunks A) (p - 8) of
        Some (_, (sz, True), _) \<Rightarrow> Some (sz - 16)
      | _ \<Rightarrow> None)"

section \<open>Operations\<close>

definition round_up :: "int \<Rightarrow> int" where
  "round_up sz = 8 * ((sz + 7) div 8)"

definition block_need :: "int \<Rightarrow> int" where
  "block_need sz = max 32 (round_up sz + 16)"

definition a_fits :: "aheap \<Rightarrow> int \<Rightarrow> int \<Rightarrow> bool" where
  "a_fits A n x =
     (case cut (abase A) (chunks A) x of Some (_, (sz, _), _) \<Rightarrow> n \<le> sz | None \<Rightarrow> False)"

text \<open>Use \<open>n\<close> bytes of the free chunk at \<open>x\<close>; a remainder of 32 bytes or more stays free.\<close>

definition a_take :: "aheap \<Rightarrow> int \<Rightarrow> int \<Rightarrow> aheap" where
  "a_take A n x =
     (case cut (abase A) (chunks A) x of
        Some (us, (sz, _), vs) \<Rightarrow>
          if 32 \<le> sz - n then
            A\<lparr>chunks := us @ (n, True) # (sz - n, False) # vs,
              order := (x + n) # remove1 x (order A)\<rparr>
          else A\<lparr>chunks := us @ (sz, True) # vs, order := remove1 x (order A)\<rparr>
      | None \<Rightarrow> A)"

definition a_extend :: "aheap \<Rightarrow> int \<Rightarrow> int \<times> aheap" where
  "a_extend A n =
     (if n < 2 ^ 31 \<and> atop A + n \<le> alimit A
      then (atop A - 8, A\<lparr>chunks := chunks A @ [(n, True)]\<rparr>)
      else (NULL, A))"

definition a_malloc :: "int \<Rightarrow> aheap \<Rightarrow> int \<times> aheap" where
  "a_malloc sz A =
     (if sz = 0 then (NULL, A)
      else case List.find (a_fits A (block_need sz)) (order A) of
        Some x \<Rightarrow> (x + 8, a_take A (block_need sz) x)
      | None \<Rightarrow> a_extend A (block_need sz))"

text \<open>Make the chunk between \<open>us\<close> and \<open>vs\<close>, at address \<open>x\<close>, free and merge it with its free
  neighbours; the result is at the head of the list.\<close>

definition a_merge :: "aheap \<Rightarrow> int \<Rightarrow> chunk list \<Rightarrow> int \<Rightarrow> chunk list \<Rightarrow> aheap" where
  "a_merge A x us sz vs =
     (let (psz, pal) = prev_of us; (nsz, nal) = next_of vs;
          us' = (if pal then us else butlast us);
          vs' = (if nal then vs else tl vs);
          sz' = (if pal then 0 else psz) + sz + (if nal then 0 else nsz);
          x' = (if pal then x else x - psz);
          fl1 = (if pal then order A else remove1 (x - psz) (order A));
          fl2 = (if nal then fl1 else remove1 (x + sz) fl1)
      in A\<lparr>chunks := us' @ (sz', False) # vs', order := x' # fl2\<rparr>)"

definition a_free :: "int \<Rightarrow> aheap \<Rightarrow> aheap" where
  "a_free p A =
     (if p = NULL then A
      else case cut (abase A) (chunks A) (p - 8) of
        Some (us, (sz, True), vs) \<Rightarrow> a_merge A (p - 8) us sz vs
      | _ \<Rightarrow> A)"

definition a_realloc :: "int \<Rightarrow> int \<Rightarrow> aheap \<Rightarrow> int \<times> aheap" where
  "a_realloc p sz A =
     (if p = NULL then (NULL, snd (a_malloc sz A))
      else if sz = 0 then (NULL, a_free p A)
      else case cut (abase A) (chunks A) (p - 8) of
        None \<Rightarrow> (NULL, A)
      | Some (us, (old, al), vs) \<Rightarrow>
          let n = round_up sz + 16; (psz, pal) = prev_of us; (nsz, nal) = next_of vs in
          if n \<le> old then (p, A)
          else if \<not> pal \<and> n \<le> old + psz then
            (p - psz, A\<lparr>chunks := butlast us @ (psz + old, True) # vs,
                        order := remove1 (p - 8 - psz) (order A)\<rparr>)
          else if \<not> nal \<and> n \<le> old + nsz then
            (p, A\<lparr>chunks := us @ (old + nsz, True) # tl vs,
                  order := remove1 (p - 8 + old) (order A)\<rparr>)
          else if \<not> pal \<and> \<not> nal \<and> n \<le> old + psz + nsz then
            (p - psz, A\<lparr>chunks := butlast us @ (psz + old + nsz, True) # tl vs,
                        order := remove1 (p - 8 - psz) (remove1 (p - 8 + old) (order A))\<rparr>)
          else
            (let (q, A') = a_malloc n A in
             if q = NULL then (NULL, A') else (q, a_free p A')))"

section \<open>The invariant\<close>

definition a_ok :: "aheap \<Rightarrow> bool" where
  "a_ok A \<longleftrightarrow> sizes_ok (chunks A) \<and> distinct (order A) \<and>
     set (order A) = frees (abase A) (chunks A) \<and> no_adjacent_free (chunks A) \<and>
     24 \<le> abase A \<and> abase A mod 8 = 0 \<and> atop A \<le> alimit A \<and> alimit A < 2 ^ 62"

definition rep :: "heap \<Rightarrow> aheap \<Rightarrow> bool" where
  "rep s A \<longleftrightarrow> lay s (chunks A) \<and> free_links s (order A) \<and>
     set (order A) = frees (abase A) (chunks A) \<and> no_adjacent_free (chunks A) \<and>
     abase A = base s \<and> alimit A = mem_max_addr s"

lemma cut_append:
  "sizes_ok us \<Longrightarrow> x = a + extent us \<Longrightarrow> cut a (us @ c # vs) x = Some (us, c, vs)"
proof (induction us arbitrary: a)
  case (Cons u us)
  obtain sz al where u: "u = (sz, al)" by force
  have "0 \<le> extent us" "32 \<le> sz" using sizes_ok_extent [of us] Cons.prems u by auto
  then have "a \<noteq> x" using Cons.prems u by simp
  moreover have "cut (a + sz) (us @ c # vs) x = Some (us, c, vs)"
    using Cons.prems u by (intro Cons.IH) simp_all
  ultimately show ?case using u by simp
qed simp

lemma cut_SomeD: "cut a bs x = Some (us, c, vs) \<Longrightarrow> bs = us @ c # vs \<and> x = a + extent us"
proof (induction a bs x arbitrary: us rule: cut.induct)
  case (2 a b bs x)
  then show ?case by (cases b) (auto split: if_splits)
qed simp

lemma cut_iff:
  "sizes_ok bs \<Longrightarrow> cut a bs x = Some (us, c, vs) \<longleftrightarrow> bs = us @ c # vs \<and> x = a + extent us"
  using cut_SomeD [of a bs x us c vs] cut_append [of us x a c vs] by fastforce

lemma frees_cut: "x \<in> frees a bs \<Longrightarrow> \<exists>us sz vs. bs = us @ (sz, False) # vs \<and> x = a + extent us"
  by (auto simp: frees_def place_split)

lemma no_adjacent_free_append:
  "no_adjacent_free (us @ vs) \<longleftrightarrow>
     no_adjacent_free us \<and> no_adjacent_free vs \<and> (snd (prev_of us) \<or> snd (next_of vs))"
proof (induction us rule: no_adjacent_free.induct)
  case 1
  then show ?case by simp
next
  case (2 b)
  then show ?case by (cases vs) (auto simp: prev_of_def)
next
  case (3 b c bs)
  then show ?case by (simp add: prev_of_def)
qed

lemma no_adjacent_free_Cons:
  "no_adjacent_free (c # vs) \<longleftrightarrow> no_adjacent_free vs \<and> (snd c \<or> snd (next_of vs))"
  by (cases vs) auto

text \<open>The cases of \<open>a_realloc\<close> for a chunk with its neighbours.\<close>

lemma a_realloc_run:
  assumes "cut (abase A) (chunks A) (p - 8) = Some (us, (old, al), vs)"
    and "p \<noteq> NULL" and "sz \<noteq> 0" and "prev_of us = (psz, pal)" and "next_of vs = (nsz, nal)"
  shows "a_realloc p sz A =
     (if round_up sz + 16 \<le> old then (p, A)
      else if \<not> pal \<and> round_up sz + 16 \<le> old + psz then
        (p - psz, A\<lparr>chunks := butlast us @ (psz + old, True) # vs,
                    order := remove1 (p - 8 - psz) (order A)\<rparr>)
      else if \<not> nal \<and> round_up sz + 16 \<le> old + nsz then
        (p, A\<lparr>chunks := us @ (old + nsz, True) # tl vs,
              order := remove1 (p - 8 + old) (order A)\<rparr>)
      else if \<not> pal \<and> \<not> nal \<and> round_up sz + 16 \<le> old + psz + nsz then
        (p - psz, A\<lparr>chunks := butlast us @ (psz + old + nsz, True) # tl vs,
                    order := remove1 (p - 8 - psz) (remove1 (p - 8 + old) (order A))\<rparr>)
      else (let (q, A') = a_malloc (round_up sz + 16) A in
            if q = NULL then (NULL, A') else (q, a_free p A')))"
  using assms by (simp add: a_realloc_def Let_def)

lemma rep_a_ok: "rep s A \<Longrightarrow> a_ok A"
proof -
  assume A: "rep s A"
  then have lay: "lay s (chunks A)" by (simp add: rep_def)
  note b = lay_base [OF lay]
  have "8 \<le> mem_start_brk s" using zdvd_imp_le [OF mod_0_imp_dvd [OF b(2)] b(1)] .
  moreover have "mem_max_addr s < 2 ^ 62" using lay by (simp add: lay_def geometry_def)
  ultimately show ?thesis
    using A b(3,4,6,10) lay_sizes [OF lay] by (simp add: rep_def a_ok_def atop_def free_links_def)
qed

lemma round_up_bounds: "sz \<le> round_up sz" "round_up sz < sz + 8" "round_up sz mod 8 = 0"
  unfolding round_up_def by auto

lemma block_need_bounds:
  "32 \<le> block_need sz" "block_need sz mod 8 = 0" "sz + 16 \<le> block_need sz"
  using round_up_bounds [of sz] by (auto simp: block_need_def max_def mod_add_0)

end
