(* ===== verification/Coalesce.thy ===== *)
theory Coalesce
  imports Abstract_Heap
begin

text \<open>
  The list operations and \<open>coalescing\<close> on a heap with a layout: each keeps the
  frame fields and every payload byte of allocated blocks, and \<open>coalescing\<close>
  replaces the block and its free neighbours by one free block at the head of
  the list, as \<open>a_merge\<close> says.
\<close>

section \<open>What is left alone\<close>

definition quiet :: "int set \<Rightarrow> heap \<Rightarrow> heap \<Rightarrow> bool" where
  "quiet B s s' \<longleftrightarrow> same_frame s s' \<and> (\<forall>b\<in>B. mem s' b = mem s b)"

lemma quiet_refl: "quiet B s s"
  by (simp add: quiet_def same_frame_def)

lemma quiet_trans: "quiet B s t \<Longrightarrow> quiet B t u \<Longrightarrow> quiet B s u"
  by (auto simp: quiet_def same_frame_def)

lemma quiet_mono: "quiet B s t \<Longrightarrow> A \<subseteq> B \<Longrightarrow> quiet A s t"
  by (auto simp: quiet_def)

lemma quiet_base: "quiet B s t \<Longrightarrow> base t = base s"
  by (auto simp: quiet_def dest: base_same)

lemma quiet_links_only:
  assumes "lay s bs" and "links_only A s s'" and "A \<subseteq> frees (base s) bs"
  shows "quiet (used_bytes (base s) bs) s s'"
  using links_only_used [OF assms] assms(2) by (simp add: quiet_def same_frame_def links_only_def)

section \<open>List operations on a heap with a layout\<close>

lemma pull_ok:
  assumes lay: "lay s bs" and fl: "free_links s fl" and sub: "set fl \<subseteq> frees (base s) bs"
    and x: "x \<in> set fl"
  shows "\<exists>s'. pull_free_block x s = Inr ((), s') \<and> lay s' bs \<and>
           free_links s' (remove1 x fl) \<and> quiet (used_bytes (base s) bs) s s'"
proof -
  obtain us vs where fl_eq: "fl = us @ x # vs" using x by (meson split_list)
  have rem: "remove1 x fl = us @ vs"
    using fl unfolding fl_eq free_links_def by (intro distinct_remove1_split) simp
  obtain s' where s': "pull_free_block x s = Inr ((), s')" "free_links s' (us @ vs)"
    "links_only (set (us @ vs)) s s'"
    using pull_free_block_links [of s us x vs] lay_free_nodes [OF lay sub] fl fl_eq by blast
  have sub': "set (us @ vs) \<subseteq> frees (base s) bs" using sub fl_eq by auto
  show ?thesis
    using s' rem lay_links_only(1) [OF lay s'(3) sub'] quiet_links_only [OF lay s'(3) sub'] by auto
qed

lemma insert_ok:
  assumes lay: "lay s bs" and fl: "free_links s fl" and sub: "set (x # fl) \<subseteq> frees (base s) bs"
    and x: "x \<notin> set fl"
  shows "\<exists>s'. insert_free_block x s = Inr ((), s') \<and> lay s' bs \<and>
           free_links s' (x # fl) \<and> quiet (used_bytes (base s) bs) s s'"
proof -
  obtain s' where s': "insert_free_block x s = Inr ((), s')" "free_links s' (x # fl)"
    "links_only (set (x # fl)) s s'"
    using insert_free_block_links [OF fl x lay_free_nodes [OF lay sub]] by blast
  show ?thesis
    using s' lay_links_only(1) [OF lay s'(3) sub] quiet_links_only [OF lay s'(3) sub] by blast
qed

lemma lay_long:
  assumes "lay s bs" and "0 \<le> n" and "n \<le> extent bs"
  shows "is_long n"
  using lay_base(4,6,7,8) [OF assms(1)] assms(2,3) by (simp add: is_long_def)

lemma quiet_tagged:
  assumes "lay s (us @ mid @ vs)" and "mid \<noteq> []" and "a = base s + extent us"
    and "sz = extent mid"
  shows "quiet (used_bytes (base s) (us @ mid @ vs)) s (tagged a sz al s)"
  using used_tagged [OF assms] by (simp add: quiet_def)

text \<open>Both blocks are free, \<open>pulled\<close> is one of them and the other is not in the list.\<close>

lemma absorb_ok:
  assumes lay: "lay s (us @ (m, False) # (n, False) # vs)" and a: "a = base s + extent us"
    and fl: "free_links s fl" and sub: "set fl \<subseteq> frees (base s) (us @ (m, False) # (n, False) # vs)"
    and pulled: "pulled \<in> set fl"
    and rest: "set (remove1 pulled fl) \<subseteq> frees (base s) us \<union> frees (a + m + n) vs"
    and bb: "(b1 = a \<and> b2 = a + m) \<or> (b1 = a + m \<and> b2 = a)"
  shows "\<exists>s'. absorb pulled b1 b2 a s = Inr ((), s') \<and> lay s' (us @ (m + n, False) # vs) \<and>
           free_links s' (remove1 pulled fl) \<and>
           quiet (used_bytes (base s) us \<union> used_bytes (a + m + n) vs) s s'"
proof -
  let ?mid = "[(m, False), (n, False)]"
  obtain t where t: "pull_free_block pulled s = Inr ((), t)"
    "lay t (us @ (m, False) # (n, False) # vs)" "free_links t (remove1 pulled fl)"
    "quiet (used_bytes (base s) (us @ (m, False) # (n, False) # vs)) s t"
    using pull_ok [OF lay fl sub pulled] by blast
  have bt: "base t = base s" using quiet_base [OF t(4)] .
  have lt: "lay t (us @ ?mid @ vs)" using t(2) by simp
  have lt2: "lay t ((us @ [(m, False)]) @ (n, False) # vs)" using t(2) by simp
  obtain psz pal nsz nal where p: "prev_of us = (psz, pal)" and nx: "next_of vs = (nsz, nal)"
    by force
  have "block_size a t = Inr (m, t)"
    using lay_at(1) [OF t(2), of a psz pal n False] a bt p by simp
  moreover have "block_size (a + m) t = Inr (n, t)"
    using lay_at(1) [OF lt2, of "a + m" m False nsz nal] a bt nx by simp
  moreover have "is_long (m + n)"
  proof (rule lay_long [OF t(2)])
    have "sizes_ok us" "sizes_ok vs" "32 \<le> m" "32 \<le> n" using lay_sizes [OF t(2)] by auto
    then show "0 \<le> m + n" "m + n \<le> extent (us @ (m, False) # (n, False) # vs)"
      using sizes_ok_extent [of us] sizes_ok_extent [of vs] by simp_all
  qed
  moreover have "tag_room t a (m + n)"
    using lay_region_facts(1) [OF lt _ _ refl] a bt by simp
  ultimately have run: "absorb pulled b1 b2 a s = Inr ((), tagged a (m + n) False t)"
    using bb t(1) by (auto simp: absorb_def prog_eval block_eval add.commute)
  have "lay (tagged a (m + n) False t) (us @ (m + n, False) # vs)"
    using lay_tagged [OF lt] a bt by simp
  moreover have "free_links (tagged a (m + n) False t) (remove1 pulled fl)"
    using free_links_tagged [OF lt _ _ _ t(3)] rest a bt by (simp add: add.assoc)
  moreover have "quiet (used_bytes (base s) us \<union> used_bytes (a + m + n) vs) s
      (tagged a (m + n) False t)"
  proof (rule quiet_trans)
    show "quiet (used_bytes (base s) us \<union> used_bytes (a + m + n) vs) s t"
      using t(4) a by (simp add: add.assoc)
    show "quiet (used_bytes (base s) us \<union> used_bytes (a + m + n) vs) t
      (tagged a (m + n) False t)"
      using quiet_tagged [OF lt, of a "m + n" False] a bt by (simp add: add.assoc)
  qed
  ultimately show ?thesis using run by blast
qed

lemma outside_frees:
  assumes "lay s (us @ (m, al) # vs)" and "a = base s + extent us"
  shows "a \<notin> frees (base s) us \<union> frees (a + m) vs"
proof -
  have ok: "sizes_ok us" "sizes_ok vs" "32 \<le> m" using lay_sizes [OF assms(1)] by auto
  show ?thesis
    using frees_bounds(2) [OF ok(1), of a "base s"] frees_bounds(1) [OF ok(2), of a "a + m"]
      ok(3) assms(2) by auto
qed

lemma next_free_Cons: "next_of vs = (nsz, False) \<Longrightarrow> vs = (nsz, False) # tl vs"
  by (cases vs) auto

lemma prev_free_snoc: "prev_of us = (psz, False) \<Longrightarrow> us = butlast us @ [(psz, False)]"
  by (cases us rule: rev_cases) auto

section \<open>coalescing\<close>

text \<open>The second half: merge with the next block if it is free, then insert.\<close>

lemma merge_next_ok:
  assumes lay: "lay s (us @ (m, False) # vs)" and a: "a = base s + extent us"
    and fl: "free_links s fl" and set_fl: "set fl = frees (base s) us \<union> frees (a + m) vs"
    and n: "next_of vs = (nsz, nal)"
  shows "\<exists>s'. (if nal then insert_free_block a
               else seqp (absorb (a + m) (a + m) a a) (insert_free_block a)) s = Inr ((), s') \<and>
      lay s' (us @ (m + (if nal then 0 else nsz), False) # (if nal then vs else tl vs)) \<and>
      free_links s' (a # (if nal then fl else remove1 (a + m) fl)) \<and>
      quiet (used_bytes (base s) us \<union> used_bytes (a + m) vs) s s'"
proof (cases nal)
  case True
  have "a \<notin> set fl" using outside_frees [OF lay a] set_fl by simp
  moreover have "set (a # fl) \<subseteq> frees (base s) (us @ (m, False) # vs)"
    using set_fl a by (auto simp: add.assoc)
  ultimately show ?thesis
    using insert_ok [OF lay fl] True a by (simp add: add.assoc)
next
  case False
  define vs' where "vs' = tl vs"
  have vs: "vs = (nsz, False) # vs'" using next_free_Cons [of vs nsz] n False vs'_def by simp
  have lay2: "lay s (us @ (m, False) # (nsz, False) # vs')" using lay vs by simp
  have lay3: "lay s ((us @ [(m, False)]) @ (nsz, False) # vs')" using lay2 by simp
  have dist: "distinct fl" using fl by (simp add: free_links_def)
  have in_fl: "a + m \<in> set fl" using set_fl vs by simp
  have nz: "32 \<le> nsz" "32 \<le> m" "sizes_ok us" "sizes_ok vs'" using lay_sizes [OF lay2] by auto
  have rest: "set (remove1 (a + m) fl) = frees (base s) us \<union> frees (a + m + nsz) vs'"
    using set_fl vs dist outside_frees [OF lay3, of "a + m"] a
      frees_bounds(2) [OF nz(3), of "a + m" "base s"] nz(2)
    by (auto simp: add.assoc)
  obtain t where t: "absorb (a + m) (a + m) a a s = Inr ((), t)"
      "lay t (us @ (m + nsz, False) # vs')" "free_links t (remove1 (a + m) fl)"
      "quiet (used_bytes (base s) us \<union> used_bytes (a + m + nsz) vs') s t"
    using absorb_ok [OF lay2 a fl _ in_fl, of "a + m" a] rest set_fl vs a
    by (auto simp: add.assoc)
  have bt: "base t = base s" using quiet_base [OF t(4)] .
  have "a \<notin> set (remove1 (a + m) fl)"
    using outside_frees [OF t(2), of a] rest a bt by (simp add: add.assoc)
  moreover have "set (a # remove1 (a + m) fl) \<subseteq> frees (base t) (us @ (m + nsz, False) # vs')"
    using rest a bt by (auto simp: add.assoc)
  ultimately obtain u where u: "insert_free_block a t = Inr ((), u)"
      "lay u (us @ (m + nsz, False) # vs')" "free_links u (a # remove1 (a + m) fl)"
      "quiet (used_bytes (base t) (us @ (m + nsz, False) # vs')) t u"
    using insert_ok [OF t(2,3)] by blast
  have B: "used_bytes (base s) us \<union> used_bytes (a + m) vs =
      used_bytes (base s) us \<union> used_bytes (a + m + nsz) vs'" using vs by simp
  have "quiet (used_bytes (base s) us \<union> used_bytes (a + m + nsz) vs') t u"
    using u(4) bt a by (simp add: add.assoc)
  then show ?thesis
    using t(1,4) u(1-3) False vs quiet_trans unfolding B
    by (auto simp: prog_eval)
qed

lemma coalescing_ok:
  assumes lay: "lay s (us @ (sz, False) # vs)" and x: "x = base s + extent us"
    and fl: "free_links s (x # order A)"
    and set_fl: "set (x # order A) = frees (base s) (us @ (sz, False) # vs)"
  shows "\<exists>s'. coalescing x s = Inr ((), s') \<and> lay s' (chunks (a_merge A x us sz vs)) \<and>
      free_links s' (order (a_merge A x us sz vs)) \<and>
      quiet (used_bytes (base s) us \<union> used_bytes (x + sz) vs) s s'"
proof -
  obtain psz pal nsz nal where p: "prev_of us = (psz, pal)" and n: "next_of vs = (nsz, nal)"
    by force
  let ?B = "used_bytes (base s) us \<union> used_bytes (x + sz) vs"
  note at = lay_at [OF lay x p n]
  have xfl: "x \<notin> set (order A)" using fl by (simp add: free_links_def)
  have fl_set: "set (order A) = frees (base s) us \<union> frees (x + sz) vs"
  proof -
    have "insert x (set (order A)) = insert x (frees (base s) us \<union> frees (x + sz) vs)"
      using set_fl x by (simp add: add.assoc)
    then show ?thesis using insert_ident [OF xfl outside_frees [OF lay x]] by simp
  qed
  obtain t where t: "pull_free_block x s = Inr ((), t)" "lay t (us @ (sz, False) # vs)"
      "free_links t (order A)" "quiet ?B s t"
    using pull_ok [OF lay fl equalityD1 [OF set_fl], of x] x by (auto simp: add.assoc)
  have bt: "base t = base s" using quiet_base [OF t(4)] .
  have xt: "x = base t + extent us" using x bt by simp
  note at_t = lay_at [OF t(2) xt p n]
  show ?thesis
  proof (cases pal)
    case True
    obtain u where u: "(if nal then insert_free_block x
          else seqp (absorb (x + sz) (x + sz) x x) (insert_free_block x)) t = Inr ((), u)"
        "lay u (us @ (sz + (if nal then 0 else nsz), False) # (if nal then vs else tl vs))"
        "free_links u (x # (if nal then order A else remove1 (x + sz) (order A)))"
        "quiet ?B t u"
      using merge_next_ok [OF t(2) xt t(3) _ n] fl_set bt by auto
    have "coalescing x s = Inr ((), u)"
      using u(1) True by (cases nal) (simp_all add: coalescing_def prog_eval at t(1) at_t)
    then show ?thesis
      using u True quiet_trans [OF t(4) u(4)] p n
      by (cases nal) (auto simp: a_merge_def Let_def)
  next
    case False
    define us' where "us' = butlast us"
    have us: "us = us' @ [(psz, False)]" using prev_free_snoc p False us'_def by simp
    have lay2: "lay t (us' @ (psz, False) # (sz, False) # vs)" using t(2) us by simp
    have y: "x - psz = base t + extent us'" using xt us by simp
    have y': "x - psz + psz = x" "x - psz + psz + sz = x + sz" by simp_all
    have in_fl: "x - psz \<in> set (order A)" using fl_set us y bt by simp
    have dist: "distinct (order A)" using t(3) by (simp add: free_links_def)
    have ok: "sizes_ok us'" "sizes_ok vs" "32 \<le> psz" "32 \<le> sz"
      using lay_sizes [OF lay2] by auto
    have "x - psz \<notin> frees (base t) us'" "x - psz \<notin> frees (x + sz) vs"
      using frees_bounds(2) [OF ok(1), of "x - psz" "base t"]
        frees_bounds(1) [OF ok(2), of "x - psz" "x + sz"] ok(3,4) y by auto
    then have rest: "set (remove1 (x - psz) (order A)) = frees (base t) us' \<union> frees (x + sz) vs"
      using fl_set dist us bt y by auto
    have sub: "set (order A) \<subseteq> frees (base t) (us' @ (psz, False) # (sz, False) # vs)"
      using fl_set us bt x by (auto simp: add.assoc)
    obtain u where u: "absorb (x - psz) (x - psz) x (x - psz) t = Inr ((), u)"
        "lay u (us' @ (psz + sz, False) # vs)"
        "free_links u (remove1 (x - psz) (order A))"
        "quiet (used_bytes (base t) us' \<union> used_bytes (x + sz) vs) t u"
      using absorb_ok [OF lay2 y t(3) sub in_fl, of "x - psz" x] rest by (auto simp: y')
    have bu: "base u = base t" using quiet_base [OF u(4)] .
    have yu: "x - psz = base u + extent us'" using y bu by simp
    have z: "x - psz + (psz + sz) = x + sz" by simp
    obtain v where v: "(if nal then insert_free_block (x - psz)
          else seqp (absorb (x + sz) (x + sz) (x - psz) (x - psz)) (insert_free_block (x - psz))) u
            = Inr ((), v)"
        "lay v (us' @ (psz + sz + (if nal then 0 else nsz), False) # (if nal then vs else tl vs))"
        "free_links v ((x - psz) # (if nal then remove1 (x - psz) (order A)
            else remove1 (x + sz) (remove1 (x - psz) (order A))))"
        "quiet (used_bytes (base u) us' \<union> used_bytes (x + sz) vs) u v"
      using merge_next_ok [OF u(2) yu u(3) _ n, unfolded z] rest bu by auto
    obtain qsz qal where q: "prev_of us' = (qsz, qal)" by force
    note at_u = lay_at [OF u(2) yu q n]
    have "coalescing x s = Inr ((), v)"
      using v(1) False at_u(2,7)
      by (cases nal) (simp_all add: coalescing_def prog_eval at t(1) at_t u(1) z)
    moreover have "?B = used_bytes (base s) us' \<union> used_bytes (x + sz) vs" using us by simp
    then have "quiet ?B s v"
      using t(4) u(4) v(4) bt bu quiet_trans by metis
    ultimately show ?thesis
      using v False p n us
      by (cases nal) (auto simp: a_merge_def Let_def)
  qed
qed

end
