(* ===== verification/Free.thy ===== *)
theory Free
  imports Coalesce
begin

text \<open>
  \<open>mm_init\<close> builds the empty heap and \<open>mm_free\<close> implements \<open>a_free\<close>: the block is
  marked free and merged with its free neighbours, the invariant is kept, and
  no payload byte of another allocated block changes.
\<close>

section \<open>mm\_init\<close>

text \<open>The state \<open>mem_init\<close> or \<open>mem_reset_brk\<close> leaves: a region with an empty heap.\<close>

definition fresh :: "heap \<Rightarrow> bool" where
  "fresh s \<longleftrightarrow> 0 < mem_start_brk s \<and> mem_start_brk s mod 8 = 0 \<and>
     mem_brk s = mem_start_brk s \<and> mem_max_addr s < 2 ^ 62"

definition a_init :: "heap \<Rightarrow> aheap" where
  "a_init s = \<lparr>abase = mem_start_brk s + 16, chunks = [], order = [], alimit = mem_max_addr s\<rparr>"

definition inited :: "heap \<Rightarrow> heap" where
  "inited s =
     (let p = mem_start_brk s in
      tagged (p + 16) 16 True (tagged p 16 True
        (s\<lparr>flist_first := NULL, prologue := p, mem_brk := p + 32, epilogue := p + 16\<rparr>)))"

lemma inited_rooms:
  assumes fr: "fresh s" and room: "mem_start_brk s + 32 \<le> mem_max_addr s"
    and t: "mem_start_brk t = mem_start_brk s" "mem_brk t = mem_start_brk s + 32"
  shows "tag_room t (mem_start_brk s) 16" and "tag_room t (mem_start_brk s + 16) 16"
proof -
  let ?p = "mem_start_brk s"
  have p: "0 < ?p" "?p mod 8 = 0" using fr by (simp_all add: fresh_def)
  have "(?p + 16) mod 8 = 0" using p(2) by (simp add: mod_add_0)
  then show "tag_room t ?p 16" "tag_room t (?p + 16) 16"
    using p(2) t by (auto intro!: tag_roomI)
qed

lemma mm_init_run:
  assumes fr: "fresh s" and room: "mem_start_brk s + 32 \<le> mem_max_addr s"
  shows "mm_init s = Inr (0, inited s)"
proof -
  let ?p = "mem_start_brk s"
  let ?s = "s\<lparr>flist_first := NULL, prologue := ?p, mem_brk := ?p + 32, epilogue := ?p + 16\<rparr>"
  have p: "0 < ?p" "mem_brk s = ?p" using fr by (simp_all add: fresh_def)
  have "block_set_size_and_allocated ?p 16 1 ?s = Inr ((), tagged ?p 16 True ?s)"
    by (rule block_set_size_and_allocated_01) (rule inited_rooms [OF fr room], simp_all)
  moreover have "block_set_size_and_allocated (?p + 16) 16 1 (tagged ?p 16 True ?s) =
      Inr ((), tagged (?p + 16) 16 True (tagged ?p 16 True ?s))"
    by (rule block_set_size_and_allocated_01) (rule inited_rooms [OF fr room], simp_all)
  ultimately show ?thesis
    using p room
    by (simp add: mm_init_def set_flist_first_def prog_eval mem_sbrk_apply mm_consts
        SBRK_FAILED_def inited_def Let_def add.assoc)
qed

lemma mm_init_rep:
  assumes fr: "fresh s" and room: "mem_start_brk s + 32 \<le> mem_max_addr s"
  shows "mm_init s = Inr (0, inited s) \<and> rep (inited s) (a_init s)"
proof
  show "mm_init s = Inr (0, inited s)" by (rule mm_init_run [OF fr room])
  let ?p = "mem_start_brk s"
  let ?s = "s\<lparr>flist_first := NULL, prologue := ?p, mem_brk := ?p + 32, epilogue := ?p + 16\<rparr>"
  have p: "0 < ?p" "?p mod 8 = 0" "mem_max_addr s < 2 ^ 62" using fr by (simp_all add: fresh_def)
  have m8: "(?p + 8) mod 8 = 0" "(?p + 16) mod 8 = 0" "(?p + 24) mod 8 = 0"
    using p(2) by (simp_all add: mod_add_0)
  have r: "tag_room ?s ?p 16" "tag_room (tagged ?p 16 True ?s) (?p + 16) 16"
    using inited_rooms [OF fr room] by simp_all
  have "sentinels (inited s)"
    using p m8 wv_tagged [OF r(1)] wv_tagged [OF r(2)]
    by (simp add: sentinels_def inited_def Let_def add.commute)
  moreover have "geometry (inited s) []"
    using p room by (simp add: geometry_def inited_def Let_def base_def)
  ultimately show "rep (inited s) (a_init s)"
    by (simp add: rep_def lay_def a_init_def free_links_def inited_def Let_def base_def)
qed

lemma mm_init_no_room:
  assumes fr: "fresh s" and room: "mem_max_addr s < mem_start_brk s + 32"
  shows "\<exists>s'. mm_init s = Inr (- 1, s')"
  using fr room
  by (auto simp: mm_init_def set_flist_first_def prog_eval mem_sbrk_apply mm_consts
      SBRK_FAILED_def fresh_def)

section \<open>The merge on abstract heaps\<close>

lemma a_merge_fields [simp]:
  "abase (a_merge A x us sz vs) = abase A" "alimit (a_merge A x us sz vs) = alimit A"
  by (simp_all add: a_merge_def Let_def split: prod.splits)

lemma a_merge_order:
  assumes ok: "sizes_ok us" "sizes_ok vs" "32 \<le> sz" and x: "x = abase A + extent us"
    and dist: "distinct (order A)" and fl: "set (order A) = frees (abase A) us \<union> frees (x + sz) vs"
  shows "set (order (a_merge A x us sz vs)) = frees (abase A) (chunks (a_merge A x us sz vs))"
proof -
  obtain psz pal nsz nal where p: "prev_of us = (psz, pal)" and n: "next_of vs = (nsz, nal)"
    by force
  define us' where "us' = (if pal then us else butlast us)"
  define vs' where "vs' = (if nal then vs else tl vs)"
  define z where "z = x + sz + (if nal then 0 else nsz)"
  have us: "us = us' @ (if pal then [] else [(psz, False)])"
    using prev_free_snoc [of us psz] p us'_def by (cases pal) auto
  have vs: "vs = (if nal then [] else [(nsz, False)]) @ vs'"
    using next_free_Cons [of vs nsz] n vs'_def by (cases nal) auto
  define x' where "x' = abase A + extent us'"
  have x': "x' = (if pal then x else x - psz)" using us x x'_def by (cases pal) auto
  have ok': "sizes_ok us'" "sizes_ok vs'" "pal \<or> 32 \<le> psz" "nal \<or> 32 \<le> nsz"
    using ok us vs by (cases pal; cases nal; auto)+
  have low: "\<And>y. y \<in> frees (abase A) us' \<Longrightarrow> y + 32 \<le> x'"
    using frees_bounds(2) [OF ok'(1)] x'_def by auto
  have high: "\<And>y. y \<in> frees z vs' \<Longrightarrow> z \<le> y"
    using frees_bounds(1) [OF ok'(2)] by auto
  have z: "x + sz \<le> z" "x' \<le> x" using ok'(3,4) x' z_def by auto
  have F: "set (order A) = frees (abase A) us' \<union> (if pal then {} else {x'}) \<union>
      ((if nal then {} else {x + sz}) \<union> frees z vs')"
    using fl us vs x'_def z_def by (cases pal; cases nal) (auto simp: add.assoc)
  let ?fl1 = "if pal then order A else remove1 x' (order A)"
  have 1: "set ?fl1 = frees (abase A) us' \<union> ((if nal then {} else {x + sz}) \<union> frees z vs')"
  proof (cases pal)
    case False
    have "x' < x + sz" using False ok(3) ok'(3) x' by simp
    then have "x' \<notin> frees (abase A) us' \<union> ((if nal then {} else {x + sz}) \<union> frees z vs')"
      using low [of x'] high [of x'] z(1) by auto
    moreover have "set (remove1 x' (order A)) = set (order A) - {x'}" using dist by simp
    ultimately show ?thesis using F False by auto
  qed (use F in auto)
  let ?fl2 = "if nal then ?fl1 else remove1 (x + sz) ?fl1"
  have 2: "set ?fl2 = frees (abase A) us' \<union> frees z vs'"
  proof (cases nal)
    case False
    have "x + sz < z" using False ok'(4) z_def by simp
    then have "x + sz \<notin> frees (abase A) us' \<union> frees z vs'"
      using low [of "x + sz"] high [of "x + sz"] z(2) ok(3) by auto
    moreover have "distinct ?fl1" using dist by (cases pal) simp_all
    ultimately show ?thesis using 1 False by (auto simp: set_remove1_distinct)
  qed (use 1 in auto)
  define m where "m = (if pal then 0 else psz) + sz + (if nal then 0 else nsz)"
  have "order (a_merge A x us sz vs) = x' # ?fl2"
    "chunks (a_merge A x us sz vs) = us' @ (m, False) # vs'"
    using p n by (simp_all add: a_merge_def us'_def vs'_def x' m_def)
  moreover have "x' + m = z" using x' z_def m_def by simp
  then have "frees (abase A) (us' @ (m, False) # vs') = insert x' (frees (abase A) us' \<union> frees z vs')"
    by (simp add: x'_def [symmetric])
  ultimately show ?thesis using 2 by simp
qed

lemma a_merge_adjacent:
  assumes "no_adjacent_free (us @ (sz, al) # vs)"
  shows "no_adjacent_free (chunks (a_merge A x us sz vs))"
proof -
  obtain psz pal nsz nal where p: "prev_of us = (psz, pal)" and n: "next_of vs = (nsz, nal)"
    by force
  have 1: "no_adjacent_free us" "no_adjacent_free vs"
    using assms by (auto simp: no_adjacent_free_append no_adjacent_free_Cons)
  have 2: "no_adjacent_free (butlast us) \<and> snd (prev_of (butlast us))" if "\<not> pal"
  proof -
    have "us = butlast us @ [(psz, False)]" using prev_free_snoc p that by simp
    then show ?thesis
      using 1(1) no_adjacent_free_append [of "butlast us" "[(psz, False)]"] by simp
  qed
  have 3: "no_adjacent_free (tl vs) \<and> snd (next_of (tl vs))" if "\<not> nal"
  proof -
    have "vs = (nsz, False) # tl vs" using next_free_Cons n that by simp
    then show ?thesis
      using 1(2) no_adjacent_free_Cons [of "(nsz, False)" "tl vs"] by simp
  qed
  show ?thesis
    using 1 2 3 p n
    by (cases pal; cases nal) (auto simp: a_merge_def no_adjacent_free_append no_adjacent_free_Cons)
qed

section \<open>mm\_free\<close>

lemma mm_free_null: "mm_free NULL s = Inr ((), s)"
  by (simp add: mm_free_def prog_eval)

lemma rep_cut:
  assumes "rep s A" and "cut (abase A) (chunks A) x = Some (us, (sz, al), vs)"
  shows "lay s (us @ (sz, al) # vs)" and "chunks A = us @ (sz, al) # vs"
    and "x = base s + extent us" and "0 < x" and "abase A = base s"
    and "no_adjacent_free (us @ (sz, al) # vs)"
    and "distinct (order A)" and "free_links s (order A)"
proof -
  note c = cut_SomeD [OF assms(2)]
  show l: "lay s (us @ (sz, al) # vs)" "chunks A = us @ (sz, al) # vs" "x = base s + extent us"
    "abase A = base s" "no_adjacent_free (us @ (sz, al) # vs)" "free_links s (order A)"
    using assms(1) c by (auto simp: rep_def)
  show "distinct (order A)" using l(6) by (simp add: free_links_def)
  have "sizes_ok us" using lay_sizes [OF l(1)] by simp
  then show "0 < x" using sizes_ok_extent [of us] lay_base(8) [OF l(1)] l(3) by simp
qed

lemma mm_free_ok:
  assumes rep: "rep s A" and c: "cut (abase A) (chunks A) (p - 8) = Some (us, (sz, True), vs)"
  shows "\<exists>s'. mm_free p s = Inr ((), s') \<and> rep s' (a_free p A) \<and>
      quiet (used_bytes (abase A) us \<union> used_bytes (p - 8 + sz) vs) s s'"
proof -
  define x where "x = p - 8"
  note r = rep_cut [OF rep c, folded x_def]
  note lay = r(1) and x = r(3)
  have p0: "p \<noteq> NULL" using r(4) x_def by (simp add: NULL_def)
  obtain psz pal nsz nal where pv: "prev_of us = (psz, pal)" and nx: "next_of vs = (nsz, nal)"
    by force
  note at = lay_at [OF lay x pv nx]
  let ?s1 = "tagged x sz False s"
  have set1: "block_set_allocated x 0 s = Inr ((), ?s1)"
    using block_set_allocated_ok [where al = False] lay_block(1-3) [OF lay] x by simp
  have lay': "lay s (us @ [(sz, True)] @ vs)" using lay by simp
  have lay1: "lay ?s1 (us @ (sz, False) # vs)" using lay_tagged [OF lay' _ x] by simp
  have fl_set: "set (order A) = frees (base s) us \<union> frees (x + sz) vs"
    using rep r(2,5) x by (simp add: rep_def add.assoc)
  have fl1: "free_links ?s1 (order A)"
    using free_links_tagged [OF lay' _ x _ r(8)] fl_set by simp
  have x1: "x = base ?s1 + extent us" using x by simp
  have set_x: "set (x # order A) = frees (base ?s1) (us @ (sz, False) # vs)"
    using fl_set x by (auto simp: add.assoc)
  have xfl: "x \<notin> set (order A)" using outside_frees [OF lay x] fl_set by simp
  obtain t where t: "insert_free_block x ?s1 = Inr ((), t)" "lay t (us @ (sz, False) # vs)"
      "free_links t (x # order A)"
      "quiet (used_bytes (base ?s1) (us @ (sz, False) # vs)) ?s1 t"
    using insert_ok [OF lay1 fl1 equalityD1 [OF set_x] xfl] by blast
  have bt: "base t = base s" using quiet_base [OF t(4)] by simp
  have xt: "x = base t + extent us" using x bt by simp
  obtain u where u: "coalescing x t = Inr ((), u)" "lay u (chunks (a_merge A x us sz vs))"
      "free_links u (order (a_merge A x us sz vs))"
      "quiet (used_bytes (base t) us \<union> used_bytes (x + sz) vs) t u"
    using coalescing_ok [OF t(2) xt t(3)] set_x bt by auto
  let ?B = "used_bytes (base s) us \<union> used_bytes (x + sz) vs"
  have "quiet ?B s ?s1"
    using quiet_tagged [OF lay' _ x] x by (auto simp: quiet_def add.assoc)
  moreover have "quiet ?B ?s1 t" using t(4) x by (auto simp: quiet_def add.assoc)
  moreover have "quiet ?B t u" using u(4) bt by simp
  ultimately have q: "quiet ?B s u" by (blast intro: quiet_trans)
  have run: "mm_free p s = Inr ((), u)"
    using p0 at(2) set1 t(1) u(1)
    by (simp add: mm_free_def payload_to_block_def x_def prog_eval Let_def)
  have "sizes_ok us" "sizes_ok vs" "32 \<le> sz" using lay_sizes [OF lay] by auto
  then have "set (order (a_merge A x us sz vs)) = frees (base s) (chunks (a_merge A x us sz vs))"
    using a_merge_order [of us vs sz x A] r(5,7) x fl_set by simp
  then have "rep u (a_merge A x us sz vs)"
    using u(2,3) a_merge_adjacent [OF r(6)] q rep r(5)
    by (simp add: rep_def quiet_base [OF q]) (simp add: quiet_def same_frame_def)
  moreover have "a_free p A = a_merge A x us sz vs"
    using c p0 by (simp add: a_free_def x_def)
  ultimately show ?thesis using run q r(5) x_def by auto
qed

lemma mm_free_again:
  assumes rep: "rep s A" and c: "cut (abase A) (chunks A) (p - 8) = Some (us, (sz, False), vs)"
  shows "mm_free p s = Inr ((), s)" and "a_free p A = A"
proof -
  note r = rep_cut [OF rep c]
  obtain psz pal nsz nal where "prev_of us = (psz, pal)" "next_of vs = (nsz, nal)" by force
  note at = lay_at [OF r(1,3) this]
  show "mm_free p s = Inr ((), s)"
    using at(2) by (simp add: mm_free_def payload_to_block_def prog_eval Let_def)
  show "a_free p A = A" using c by (simp add: a_free_def)
qed

end
