(* ===== verification/Malloc.thy ===== *)
theory Malloc
  imports Free
begin

text \<open>
  \<open>mm_malloc\<close> implements \<open>a_malloc\<close>: first fit in list order with the block split
  when 32 bytes or more remain, and growth of the heap when nothing fits.  The
  walk over the free list ends within the bound the model gives it, because the
  list has at most one node per 32 bytes of heap.
\<close>

definition bytes_kept :: "int set \<Rightarrow> heap \<Rightarrow> heap \<Rightarrow> bool" where
  "bytes_kept B s s' \<longleftrightarrow> (\<forall>b\<in>B. mem s' b = mem s b)"

lemma quiet_kept: "quiet B s s' \<Longrightarrow> bytes_kept B s s'"
  by (simp add: quiet_def bytes_kept_def)

lemma order_cut:
  assumes rep: "rep s A" and x: "x \<in> set (order A)"
  obtains us sz vs where "cut (abase A) (chunks A) x = Some (us, (sz, False), vs)"
proof -
  have "x \<in> frees (abase A) (chunks A)" using rep x by (simp add: rep_def)
  then obtain us sz vs where c: "chunks A = us @ (sz, False) # vs" "x = abase A + extent us"
    using frees_cut by blast
  have "sizes_ok us" using rep c(1) lay_sizes [of s "chunks A"] by (simp add: rep_def)
  then show thesis using that cut_append c by metis
qed

section \<open>Taking a free block\<close>

lemma take_block_ok:
  assumes rep: "rep s A" and x: "x \<in> set (order A)"
    and c: "cut (abase A) (chunks A) x = Some (us, (sz, False), vs)"
    and n: "32 \<le> n" "n mod 8 = 0" "n \<le> sz"
  shows "\<exists>s'. take_block x n s = Inr ((), s') \<and> rep s' (a_take A n x) \<and>
           quiet (used_bytes (abase A) (chunks A)) s s'"
proof -
  note r = rep_cut [OF rep c]
  note lay = r(1) and xa = r(3)
  let ?fl = "remove1 x (order A)"
  let ?B = "used_bytes (base s) (us @ (sz, False) # vs)"
  have set_fl: "set (order A) = frees (base s) (us @ (sz, False) # vs)"
    using rep r(2,5) by (simp add: rep_def)
  have "set ?fl = set (order A) - {x}" using r(7) by simp
  also have "\<dots> = frees (base s) us \<union> frees (x + sz) vs"
    using set_fl outside_frees [OF lay xa] xa by (auto simp: add.assoc)
  finally have set_rem: "set ?fl = frees (base s) us \<union> frees (x + sz) vs" .
  obtain t where t: "pull_free_block x s = Inr ((), t)" "lay t (us @ (sz, False) # vs)"
      "free_links t ?fl" "quiet ?B s t"
    using pull_ok [OF lay r(8) equalityD1 [OF set_fl] x] by blast
  have bt: "base t = base s" using quiet_base [OF t(4)] .
  have xt: "x = base t + extent us" using xa bt by simp
  have mt: "mem_max_addr t = mem_max_addr s" using t(4) by (simp add: quiet_def same_frame_def)
  obtain psz pal nsz nal where pv: "prev_of us = (psz, pal)" and nx: "next_of vs = (nsz, nal)"
    by force
  note at = lay_at [OF t(2) xt pv nx]
  have sz: "32 \<le> sz" "sz mod 8 = 0" using lay_block(4,5) [OF lay] by simp_all
  have "sizes_ok us" "sizes_ok vs" using lay_sizes [OF lay] by simp_all
  then have long: "is_long (sz - n)"
    using n sz sizes_ok_extent [of us] sizes_ok_extent [of vs]
    by (intro lay_long [OF t(2)]) simp_all
  have adj: "no_adjacent_free us" "no_adjacent_free vs" "snd (prev_of us)" "snd (next_of vs)"
    using r(6) by (auto simp: no_adjacent_free_append no_adjacent_free_Cons)
  show ?thesis
  proof (cases "32 \<le> sz - n")
    case True
    define m where "m = sz - n"
    have m: "sz = n + m" "32 \<le> m" "m mod 8 = 0"
      using True n(2) sz(2) by (simp_all add: m_def mod_diff_0)
    let ?u = "tagged x n True t" let ?v = "tagged (x + n) m False ?u"
    note car = lay_carved(1) [OF t(2) xt m(1) n(1,2) m(2,3), of False True]
    have room: "tag_room t x n" "tag_room ?u (x + n) m"
      using lay_carved(2,3) [OF t(2) xt m(1) n(1,2) m(2,3)] by (simp_all add: tag_room_def)
    have wu: "wv ?u x = tag n True" "word_ok ?u x"
      using wv_tagged [OF room(1), of x] tag_room_aligned(1) [OF room(1)] room(1)
      by (simp_all add: tag_room_def)
    then have next_u: "block_next x ?u = Inr (x + n, ?u)"
      using tag_parity(1,2) [OF n(2), of True] by (simp add: block_next_ok)
    have lv: "lay ?v (us @ (n, True) # (m, False) # vs)" using car .
    have xv: "x = base ?v + extent us" using xt by simp
    have next_v: "block_next x ?v = Inr (x + n, ?v)"
      using lay_at(3) [OF lv xv pv, of m False] by simp
    have fv: "free_links ?v ?fl"
      using free_links_carved [OF t(2) xt m(1) n(1,2) m(2,3) t(3)] set_rem bt by simp
    have new: "set ((x + n) # ?fl) = frees (base ?v) (us @ (n, True) # (m, False) # vs)"
      using set_rem xt bt m(1) by (auto simp: add.assoc)
    have lv': "lay ?v ((us @ [(n, True)]) @ (m, False) # vs)" using lv by simp
    have "x + n \<notin> set ?fl"
      using outside_frees [OF lv', of "x + n"] set_rem xt bt m(1) by (auto simp: add.assoc)
    then obtain w where w: "insert_free_block (x + n) ?v = Inr ((), w)"
        "lay w (us @ (n, True) # (m, False) # vs)" "free_links w ((x + n) # ?fl)"
        "quiet (used_bytes (base ?v) (us @ (n, True) # (m, False) # vs)) ?v w"
      using insert_ok [OF lv fv equalityD1 [OF new]] by blast
    have q: "quiet ?B s w"
    proof -
      have "quiet ?B t ?v"
        using used_carved [OF t(2) xt m(1) n(1) m(2)] bt by (simp add: quiet_def)
      moreover have "quiet ?B ?v w"
        using w(4) xt bt m(1) by (auto simp: quiet_def add.assoc)
      ultimately show ?thesis using t(4) quiet_trans by blast
    qed
    have run: "take_block x n s = Inr ((), w)"
      using m(2)
      by (simp add: take_block_def prog_eval t(1) at(1) m_def [symmetric] long [folded m_def] mm_consts
          block_set_size_and_allocated_01 room next_u next_v w(1))
    have A': "a_take A n x =
        A\<lparr>chunks := us @ (n, True) # (m, False) # vs, order := (x + n) # ?fl\<rparr>"
      using c True m_def by (simp add: a_take_def)
    have "no_adjacent_free (us @ (n, True) # (m, False) # vs)"
      using adj by (simp add: no_adjacent_free_append no_adjacent_free_Cons)
    then have "rep w (a_take A n x)"
      unfolding A' rep_def using w(2,3) new r(5) rep quiet_base [OF q] q bt
      by (simp add: rep_def quiet_def same_frame_def)
    then show ?thesis using run q r(2,5) by auto
  next
    case False
    let ?u = "tagged x sz True t"
    have lt': "lay t (us @ [(sz, False)] @ vs)" using t(2) by simp
    have "block_set_allocated x 1 t = Inr ((), ?u)"
      using block_set_allocated_ok [where al = True] lay_block(1-3) [OF t(2)] xt by simp
    then have run: "take_block x n s = Inr ((), ?u)"
      using False long by (simp add: take_block_def prog_eval t(1) at(1) mm_consts)
    have lu: "lay ?u (us @ (sz, True) # vs)" using lay_tagged [OF lt' _ xt] by simp
    have fu: "free_links ?u ?fl"
      using free_links_tagged [OF lt' _ xt _ t(3)] set_rem bt by simp
    have "quiet ?B t ?u" using quiet_tagged [OF lt' _ xt] bt by simp
    then have q: "quiet ?B s ?u" using t(4) quiet_trans by blast
    have A': "a_take A n x = A\<lparr>chunks := us @ (sz, True) # vs, order := ?fl\<rparr>"
      using c False by (simp add: a_take_def)
    have "no_adjacent_free (us @ (sz, True) # vs)"
      using adj by (simp add: no_adjacent_free_append no_adjacent_free_Cons)
    moreover have "set ?fl = frees (base s) (us @ (sz, True) # vs)"
      using set_rem xa by (simp add: add.assoc)
    ultimately have "rep ?u (a_take A n x)"
      unfolding A' rep_def using lu fu r(5) rep bt mt by (simp add: rep_def)
    then show ?thesis using run q r(2,5) by auto
  qed
qed

section \<open>The search\<close>

lemma search_free_ok:
  assumes rep: "rep s A" and ord: "order A = xs @ c # ys" and fuel: "length (c # ys) \<le> fuel"
  shows "search_free fuel n c s =
    (case List.find (a_fits A n) (c # ys) of
       None \<Rightarrow> Inr (None, s)
     | Some x \<Rightarrow> (case take_block x n s of
         Inl e \<Rightarrow> Inl e | Inr (_, s') \<Rightarrow> Inr (Some (x + 8), s')))"
  using ord fuel
proof (induction ys arbitrary: xs c fuel)
  case (Cons c' ys)
  obtain fuel' where f: "fuel = Suc fuel'" using Cons.prems(2) by (cases fuel) auto
  have c_in: "c \<in> set (order A)" using Cons.prems(1) by simp
  obtain us sz vs where cc: "cut (abase A) (chunks A) c = Some (us, (sz, False), vs)"
    using order_cut [OF rep c_in] .
  note r = rep_cut [OF rep cc]
  obtain psz pal nsz nal where "prev_of us = (psz, pal)" "next_of vs = (nsz, nal)" by force
  note at = lay_at(1,2) [OF r(1,3) this]
  have fl: "free_links s (xs @ c # c' # ys)" using r(8) Cons.prems(1) by simp
  have "set (order A) \<subseteq> frees (base s) (chunks A)" using rep r(5) by (simp add: rep_def)
  then have nodes: "free_nodes s (set (order A))"
    using lay_free_nodes rep unfolding rep_def by blast
  have link: "block_flink c s = Inr (c', s)"
    using node_steps(2) [OF nodes c_in] free_links_cells(1) [OF fl] by simp
  have first: "flist_first s \<noteq> c'"
    using fl by (cases xs) (auto simp: free_links_def)
  have fits: "a_fits A n c = (n \<le> sz)" using cc by (simp add: a_fits_def)
  have IH: "search_free fuel' n c' s =
    (case List.find (a_fits A n) (c' # ys) of
       None \<Rightarrow> Inr (None, s)
     | Some x \<Rightarrow> (case take_block x n s of
         Inl e \<Rightarrow> Inl e | Inr (_, s') \<Rightarrow> Inr (Some (x + 8), s')))"
    using Cons.prems f by (intro Cons.IH [of "xs @ [c]"]) simp_all
  show ?case
    using r(4) at(1) link first fits IH
    by (subst search_free.simps)
      (simp add: f prog_eval mm_consts split: sum.splits prod.splits)
next
  case Nil
  obtain fuel' where f: "fuel = Suc fuel'" using Nil.prems(2) by (cases fuel) auto
  have c_in: "c \<in> set (order A)" using Nil.prems(1) by simp
  obtain us sz vs where cc: "cut (abase A) (chunks A) c = Some (us, (sz, False), vs)"
    using order_cut [OF rep c_in] .
  note r = rep_cut [OF rep cc]
  obtain psz pal nsz nal where "prev_of us = (psz, pal)" "next_of vs = (nsz, nal)" by force
  note at = lay_at(1,2) [OF r(1,3) this]
  have fl: "free_links s (xs @ [c])" using r(8) Nil.prems(1) by simp
  have "set (order A) \<subseteq> frees (base s) (chunks A)" using rep r(5) by (simp add: rep_def)
  then have nodes: "free_nodes s (set (order A))"
    using lay_free_nodes rep unfolding rep_def by blast
  have link: "block_flink c s = Inr (flist_first s, s)"
    using node_steps(2) [OF nodes c_in] free_links_cells(1) [OF fl] fl
    by (cases xs) (simp_all add: free_links_def)
  have fits: "a_fits A n c = (n \<le> sz)" using cc by (simp add: a_fits_def)
  show ?case
    using r(4) at(1) link fits
    by (subst search_free.simps)
      (simp add: f prog_eval mm_consts split: sum.splits prod.splits)
qed

text \<open>The bound is enough: the list is no longer than the heap has words.\<close>

lemma length_place: "length (place a bs) = length bs"
  by (induction a bs rule: place.induct) simp_all

lemma extent_length: "sizes_ok bs \<Longrightarrow> 32 * int (length bs) \<le> extent bs"
  by (induction bs) auto

lemma order_length:
  assumes rep: "rep s A"
  shows "length (order A) \<le> heap_words s"
proof -
  have lay: "lay s (chunks A)" using rep by (simp add: rep_def)
  note sizes = lay_sizes [OF lay]
  have "frees (abase A) (chunks A) \<subseteq> fst ` set (place (abase A) (chunks A))"
    by (force simp: frees_def)
  then have "card (frees (abase A) (chunks A)) \<le> length (chunks A)"
    by (metis List.finite_set card_length card_mono finite_imageI le_trans length_map length_place
        list.set_map)
  moreover have "distinct (order A)" using rep by (simp add: rep_def free_links_def)
  then have "card (set (order A)) = length (order A)" by (rule distinct_card)
  ultimately have "length (order A) \<le> length (chunks A)" using rep by (simp add: rep_def)
  moreover have "mem_brk s - mem_start_brk s = extent (chunks A) + 32"
    using lay_base(4,6) [OF lay] by simp
  then have "int (length (chunks A)) \<le> (mem_brk s - mem_start_brk s) div 8"
    using extent_length [OF sizes] by simp
  ultimately show ?thesis by (simp add: heap_words_def mm_consts)
qed

lemma search_ok:
  assumes rep: "rep s A"
  shows "search_free (heap_words s) n (flist_first s) s =
    (case List.find (a_fits A n) (order A) of
       None \<Rightarrow> Inr (None, s)
     | Some x \<Rightarrow> (case take_block x n s of
         Inl e \<Rightarrow> Inl e | Inr (_, s') \<Rightarrow> Inr (Some (x + 8), s')))"
proof (cases "order A")
  case Nil
  then have "flist_first s = NULL" using rep by (simp add: rep_def free_links_def)
  then show ?thesis using Nil by (subst search_free.simps) (simp add: ret_apply)
next
  case (Cons c ys)
  then have "flist_first s = c" using rep by (simp add: rep_def free_links_def)
  then show ?thesis
    using search_free_ok [OF rep, of "[]" c ys "heap_words s" n] order_length [OF rep] Cons by simp
qed

section \<open>Growing the heap\<close>

lemma extend_heap_ok:
  assumes rep: "rep s A" and n: "32 \<le> n" "n mod 8 = 0" "n < 2 ^ 32"
  shows "\<exists>s'. extend_heap n s = Inr (fst (a_extend A n), s') \<and> rep s' (snd (a_extend A n)) \<and>
      bytes_kept (used_bytes (abase A) (chunks A)) s s'"
proof (cases "n < 2 ^ 31 \<and> atop A + n \<le> alimit A")
  case True
  have lay: "lay s (chunks A)" and fl: "free_links s (order A)" and ab: "abase A = base s"
    and set_fl: "set (order A) = frees (base s) (chunks A)"
    using rep by (simp_all add: rep_def)
  note b = lay_base [OF lay]
  have top: "atop A = mem_brk s" using b(6) ab by (simp add: atop_def)
  have room: "mem_brk s + n \<le> mem_max_addr s" using True top rep by (simp add: rep_def)
  note rooms = grown_rooms [OF lay n(1,2) room]
  let ?e = "epilogue s"
  let ?u = "tagged ?e n True (s\<lparr>mem_brk := mem_brk s + n\<rparr>)"
  have sbrk: "mem_sbrk (int_of_long n) s = Inr (mem_brk s, s\<lparr>mem_brk := mem_brk s + n\<rparr>)"
    using True n(1) room by (simp add: int_of_long_id is_int_def mem_sbrk_apply)
  have w: "wv ?u ?e = tag n True" "word_ok ?u ?e"
    using wv_tagged [OF rooms(1), of ?e] tag_room_aligned(1) [OF rooms(1)] rooms(1)
    by (simp_all add: tag_room_def)
  have next_u: "block_next ?e ?u = Inr (?e + n, ?u)"
    using w tag_parity(1,2) [OF n(2), of True] by (simp add: block_next_ok)
  have "mem_brk s \<noteq> SBRK_FAILED" using b(1,4,6,8) lay_sizes [OF lay] sizes_ok_extent [of "chunks A"]
    by (simp add: SBRK_FAILED_def)
  then have run: "extend_heap n s = Inr (?e + 8, grown n s)"
    by (simp add: extend_heap_def prog_eval sbrk block_set_size_and_allocated_01 rooms next_u
        grown_def mm_consts)
  have "no_adjacent_free (chunks A @ [(n, True)])"
    using rep by (simp add: rep_def no_adjacent_free_append)
  moreover have "free_links (grown n s) (order A)"
    using free_links_grown [OF lay n(1,2) room fl] set_fl by simp
  ultimately have "rep (grown n s) (snd (a_extend A n))"
    using lay_grown [OF lay n(1,2) room] True rep set_fl ab
    by (simp add: a_extend_def rep_def grown_def base_def)
  moreover have "bytes_kept (used_bytes (abase A) (chunks A)) s (grown n s)"
    using used_grown [OF lay n(1)] ab by (simp add: bytes_kept_def)
  moreover have "?e + 8 = atop A - 8" using b(5) ab by (simp add: atop_def)
  ultimately show ?thesis using run True by (simp add: a_extend_def)
next
  case False
  have lay: "lay s (chunks A)" and lim: "alimit A = mem_max_addr s" using rep by (simp_all add: rep_def)
  have top: "atop A = mem_brk s" using lay_base(6) [OF lay] rep by (simp add: atop_def rep_def)
  have "mem_sbrk (int_of_long n) s = Inr (SBRK_FAILED, s)"
  proof (cases "n < 2 ^ 31")
    case True
    then show ?thesis
      using False n(1) top lim by (simp add: int_of_long_id is_int_def mem_sbrk_apply)
  next
    case False
    then have "int_of_long n < 0" using n(3) by (intro int_of_long_neg) simp_all
    then show ?thesis by (simp add: mem_sbrk_apply)
  qed
  then have "extend_heap n s = Inr (NULL, s)" by (simp add: extend_heap_def prog_eval)
  moreover have "a_extend A n = (NULL, A)" using False by (auto simp: a_extend_def)
  ultimately show ?thesis using rep by (simp add: bytes_kept_def)
qed

section \<open>mm\_malloc\<close>

lemma align_ok:
  assumes "is_long (sz + 7)"
  shows "align sz s = Inr (round_up sz, s)"
proof -
  have "(sz + 7) - (sz + 7) mod 8 = round_up sz"
    by (simp add: round_up_def minus_mod_eq_mult_div)
  then show ?thesis using assms by (simp add: align_def prog_eval mm_consts masks)
qed

lemma mm_malloc_ok:
  assumes rep: "rep s A" and sz: "- (2 ^ 63) \<le> sz" "block_need sz < 2 ^ 32"
  shows "\<exists>s'. mm_malloc sz s = Inr (fst (a_malloc sz A), s') \<and> rep s' (snd (a_malloc sz A)) \<and>
      bytes_kept (used_bytes (abase A) (chunks A)) s s'"
proof -
  let ?n = "block_need sz"
  note n = block_need_bounds [of sz]
  note ru = round_up_bounds [of sz]
  have lng: "is_long (sz + 7)" "is_long (round_up sz + 16)"
    using n(3) ru sz by (simp_all add: is_long_def)
  show ?thesis
  proof (cases "sz = 0")
    case True
    then show ?thesis
      using align_ok [OF lng(1)] lng(2) rep
      by (simp add: mm_malloc_def prog_eval mm_consts a_malloc_def bytes_kept_def)
  next
    case False
    have run: "mm_malloc sz s = (case search_free (heap_words s) ?n (flist_first s) s of
        Inl e \<Rightarrow> Inl e
      | Inr (found, s') \<Rightarrow> (case found of Some p \<Rightarrow> Inr (p, s') | None \<Rightarrow> extend_heap ?n s'))"
      using align_ok [OF lng(1)] lng(2) False
      by (cases "round_up sz < 16")
        (simp_all add: mm_malloc_def prog_eval mm_consts block_need_def max_def Let_def split: sum.splits option.splits)
    show ?thesis
    proof (cases "List.find (a_fits A ?n) (order A)")
      case None
      then have "mm_malloc sz s = extend_heap ?n s" using run search_ok [OF rep] by simp
      moreover have "a_malloc sz A = a_extend A ?n" using None False by (simp add: a_malloc_def)
      ultimately show ?thesis using extend_heap_ok [OF rep n(1,2) sz(2)] by simp
    next
      case (Some x)
      then have x: "x \<in> set (order A)" "a_fits A ?n x" using find_eq_SomeD by fastforce+
      obtain us z vs where c: "cut (abase A) (chunks A) x = Some (us, (z, False), vs)"
        using order_cut [OF rep x(1)] .
      then have "?n \<le> z" using x(2) by (simp add: a_fits_def)
      then obtain s' where s': "take_block x ?n s = Inr ((), s')" "rep s' (a_take A ?n x)"
          "quiet (used_bytes (abase A) (chunks A)) s s'"
        using take_block_ok [OF rep x(1) c n(1,2)] by blast
      then have "mm_malloc sz s = Inr (x + 8, s')" using run search_ok [OF rep] Some by simp
      moreover have "a_malloc sz A = (x + 8, a_take A ?n x)" using Some False
        by (simp add: a_malloc_def)
      ultimately show ?thesis using s'(2,3) quiet_kept by auto
    qed
  qed
qed

end
