(* ===== verification/Live.thy ===== *)
theory Live
  imports Free
begin

text \<open>
  What a client sees of an abstract heap: the live payloads.  \<open>held A\<close> is the set
  of allocated chunks by address; the lemmas give it after each operation of
  the specification, and show that payloads are aligned, inside the heap and
  apart from each other.
\<close>

definition held :: "aheap \<Rightarrow> (int \<times> int) set" where
  "held A = {(x, sz). (x, sz, True) \<in> set (place (abase A) (chunks A))}"

lemma held_chunks:
  "chunks A = us @ (sz, al) # vs \<Longrightarrow> held A =
     {(x, n). (x, n, True) \<in> set (place (abase A) us)} \<union> (if al then {(abase A + extent us, sz)} else {}) \<union>
     {(x, n). (x, n, True) \<in> set (place (abase A + extent us + sz) vs)}"
  by (auto simp: held_def place_append)

lemma used_bytes_held: "used_bytes (abase A) (chunks A) = (\<Union>(x, sz)\<in>held A. {x + 8 ..< x + sz - 8})"
  by (fastforce simp: used_bytes_def held_def)

lemma a_ok_sizes: "a_ok A \<Longrightarrow> sizes_ok (chunks A)"
  by (simp add: a_ok_def)

lemma live_held: "sizes_ok (chunks A) \<Longrightarrow> live A p = Some k \<longleftrightarrow> (p - 8, k + 16) \<in> held A"
proof
  assume ok: "sizes_ok (chunks A)"
  show "live A p = Some k \<Longrightarrow> (p - 8, k + 16) \<in> held A"
    using cut_SomeD [of "abase A" "chunks A" "p - 8"]
    by (force simp: live_def held_def place_split split: option.splits prod.splits bool.splits)
  assume "(p - 8, k + 16) \<in> held A"
  then obtain us vs where "chunks A = us @ (k + 16, True) # vs" "p - 8 = abase A + extent us"
    by (auto simp: held_def place_split)
  then show "live A p = Some k"
    using cut_append [of us "p - 8" "abase A" "(k + 16, True)" vs] ok
    by (simp add: live_def)
qed

lemma live_cut:
  assumes "live A p = Some k"
  obtains us vs where "cut (abase A) (chunks A) (p - 8) = Some (us, (k + 16, True), vs)"
  using assms by (auto simp: live_def split: option.splits prod.splits bool.splits)

lemma cut_held: "cut (abase A) (chunks A) x = Some (us, (sz, True), vs) \<Longrightarrow> (x, sz) \<in> held A"
  using cut_SomeD by (fastforce simp: held_def place_split)

lemma held_split: "(x, n) \<in> held A \<Longrightarrow> \<exists>us vs. chunks A = us @ (n, True) # vs \<and> x = abase A + extent us"
  by (simp add: held_def place_split)

lemma held_bounds:
  assumes "a_ok A" and "(x, sz) \<in> held A"
  shows "x mod 8 = 0" and "32 \<le> sz" and "sz mod 8 = 0" and "abase A \<le> x"
    and "x + sz + 16 \<le> atop A" and "0 < x"
proof -
  have "(x, sz, True) \<in> set (place (abase A) (chunks A))" using assms(2) by (simp add: held_def)
  note b = place_bounds [OF a_ok_sizes [OF assms(1)] this]
  have a: "24 \<le> abase A" "abase A mod 8 = 0" using assms(1) by (simp_all add: a_ok_def)
  show "x mod 8 = 0" using b(5) a(2) by (simp add: mod_diff_0)
  show "32 \<le> sz" "sz mod 8 = 0" "abase A \<le> x" using b by simp_all
  show "x + sz + 16 \<le> atop A" using b(2) by (simp add: atop_def)
  show "0 < x" using b(1) a(1) by simp
qed

lemma held_apart:
  "a_ok A \<Longrightarrow> (x, m) \<in> held A \<Longrightarrow> (y, n) \<in> held A \<Longrightarrow> x = y \<and> m = n \<or> x + m \<le> y \<or> y + n \<le> x"
  using place_apart [OF a_ok_sizes, of A x m True "abase A" y n True] by (auto simp: held_def)

section \<open>After each operation\<close>

lemma a_take_fields [simp]: "abase (a_take A n x) = abase A" "alimit (a_take A n x) = alimit A"
  by (simp_all add: a_take_def split: option.splits prod.splits)

lemma a_take_held:
  assumes ok: "a_ok A" and c: "cut (abase A) (chunks A) x = Some (us, (z, False), vs)"
    and n: "32 \<le> n" "n \<le> z"
  shows "\<exists>m. n \<le> m \<and> m \<le> z \<and> held (a_take A n x) = insert (x, m) (held A)"
proof -
  have d: "chunks A = us @ (z, False) # vs" "x = abase A + extent us"
    using cut_SomeD [OF c] by simp_all
  have A: "held A = {(x, n). (x, n, True) \<in> set (place (abase A) us)} \<union>
      {(y, n). (y, n, True) \<in> set (place (x + z) vs)}"
    using held_chunks [OF d(1), folded d(2)] by simp
  show ?thesis
  proof (cases "32 \<le> z - n")
    case True
    then have "chunks (a_take A n x) = us @ (n, True) # (z - n, False) # vs"
      using c by (simp add: a_take_def)
    from held_chunks [OF this] have "held (a_take A n x) = insert (x, n) (held A)"
      using A by (simp add: d(2) [symmetric])
    then show ?thesis using n by auto
  next
    case False
    then have "chunks (a_take A n x) = us @ (z, True) # vs"
      using c by (simp add: a_take_def)
    from held_chunks [OF this] have "held (a_take A n x) = insert (x, z) (held A)"
      using A by (simp add: d(2) [symmetric])
    then show ?thesis using n by auto
  qed
qed

lemma a_merge_held:
  assumes c: "chunks A = us @ (sz, al) # vs" and x: "x = abase A + extent us"
  shows "held (a_merge A x us sz vs) =
     {(y, n). (y, n, True) \<in> set (place (abase A) us)} \<union>
     {(y, n). (y, n, True) \<in> set (place (x + sz) vs)}"
proof -
  obtain psz pal nsz nal where p: "prev_of us = (psz, pal)" and n: "next_of vs = (nsz, nal)"
    by force
  have us: "us = (if pal then us else butlast us @ [(psz, False)])"
    using prev_free_snoc [of us psz] p by simp
  have vs: "vs = (if nal then vs else (nsz, False) # tl vs)"
    using next_free_Cons [of vs nsz] n by simp
  have l: "{(y, n). (y, n, True) \<in> set (place (abase A) us)} =
      {(y, n). (y, n, True) \<in> set (place (abase A) (if pal then us else butlast us))}"
    by (subst us) (simp add: place_append)
  have r: "{(y, n). (y, n, True) \<in> set (place (x + sz) vs)} =
      {(y, n). (y, n, True) \<in> set (place (x + sz + (if nal then 0 else nsz)) (if nal then vs else tl vs))}"
    by (subst vs) simp
  have e: "extent us = extent (if pal then us else butlast us) + (if pal then 0 else psz)"
    by (subst us) simp
  define us' where "us' = (if pal then us else butlast us)"
  define vs' where "vs' = (if nal then vs else tl vs)"
  define m where "m = (if pal then 0 else psz) + sz + (if nal then 0 else nsz)"
  have m: "abase A + extent us' + m = x + sz + (if nal then 0 else nsz)"
    using e x by (simp add: us'_def m_def)
  have "chunks (a_merge A x us sz vs) = us' @ (m, False) # vs'"
    using p n by (simp add: a_merge_def us'_def vs'_def m_def)
  from held_chunks [OF this] show ?thesis
    unfolding l r using m by (simp add: us'_def [symmetric] vs'_def [symmetric])
qed

lemma a_free_held:
  assumes ok: "sizes_ok (chunks A)" and p: "p \<noteq> NULL" and live: "live A p = Some k"
  shows "held (a_free p A) = held A - {(p - 8, k + 16)}"
proof -
  obtain us vs where c: "cut (abase A) (chunks A) (p - 8) = Some (us, (k + 16, True), vs)"
    using live_cut [OF live] .
  note d = cut_SomeD [OF c]
  have "a_free p A = a_merge A (p - 8) us (k + 16) vs"
    using c p by (simp add: a_free_def)
  moreover have ok': "sizes_ok us" "sizes_ok vs" "32 \<le> k + 16" using ok d by auto
  then have "\<And>n. (p - 8, n, True) \<notin> set (place (abase A) us)"
    "\<And>n. (p - 8, n, True) \<notin> set (place (p - 8 + (k + 16)) vs)"
    using place_bounds(2,3) [OF ok'(1), of "p - 8" _ True "abase A"]
      place_bounds(1) [OF ok'(2), of "p - 8" _ True "p - 8 + (k + 16)"] d by fastforce+
  ultimately show ?thesis
    using a_merge_held [of A us "k + 16" True vs "p - 8"] held_chunks [of A us "k + 16" True vs] d
    by auto
qed

lemma a_free_other: "live A p = None \<Longrightarrow> a_free p A = A"
  by (simp add: a_free_def live_def split: option.splits prod.splits bool.splits)

lemma a_ok_order_cut:
  assumes "a_ok A" and "x \<in> set (order A)"
  obtains us z vs where "cut (abase A) (chunks A) x = Some (us, (z, False), vs)"
proof -
  have "x \<in> frees (abase A) (chunks A)" using assms by (simp add: a_ok_def)
  then obtain us z vs where c: "chunks A = us @ (z, False) # vs" "x = abase A + extent us"
    using frees_cut by blast
  then show thesis using that cut_append [of us x "abase A" "(z, False)" vs] a_ok_sizes [OF assms(1)]
    by simp
qed

lemma a_malloc_held:
  assumes ok: "a_ok A" and m: "a_malloc sz A = (q, A')"
  shows "q = NULL \<Longrightarrow> A' = A"
    and "q \<noteq> NULL \<Longrightarrow> \<exists>n. block_need sz \<le> n \<and> held A' = insert (q - 8, n) (held A) \<and>
           (\<forall>(y, k)\<in>held A. q - 8 + n \<le> y \<or> y + k \<le> q - 8)"
proof -
  let ?b = "block_need sz"
  note b = block_need_bounds [of sz]
  have top: "0 < atop A - 8"
    using ok sizes_ok_extent [OF a_ok_sizes [OF ok]] by (simp add: a_ok_def atop_def)
  have main: "(q = NULL \<longrightarrow> A' = A) \<and> (q \<noteq> NULL \<longrightarrow>
      (\<exists>n. ?b \<le> n \<and> held A' = insert (q - 8, n) (held A) \<and>
         (\<forall>(y, k)\<in>held A. q - 8 + n \<le> y \<or> y + k \<le> q - 8)))"
  proof (cases "sz = 0")
    case True
    then show ?thesis using m by (auto simp: a_malloc_def)
  next
    case False
    show ?thesis
    proof (cases "List.find (a_fits A ?b) (order A)")
      case None
      then have e: "(q, A') = a_extend A ?b" using m False by (simp add: a_malloc_def)
      have "y + k \<le> atop A - 16" if "(y, k) \<in> held A" for y k
        using held_bounds(5) [OF ok that] by simp
      moreover have "held (A\<lparr>chunks := chunks A @ [(?b, True)]\<rparr>) = insert (atop A - 16, ?b) (held A)"
        by (auto simp: held_def place_append atop_def)
      ultimately show ?thesis
        using e top by (auto simp: a_extend_def NULL_def split: if_splits)
    next
      case (Some x)
      then have x: "x \<in> set (order A)" "a_fits A ?b x" using find_eq_SomeD by fastforce+
      have q: "q = x + 8" "A' = a_take A ?b x" using m Some False by (simp_all add: a_malloc_def)
      obtain us z vs where c: "cut (abase A) (chunks A) x = Some (us, (z, False), vs)"
        using a_ok_order_cut [OF ok x(1)] .
      have "?b \<le> z" using x(2) c by (simp add: a_fits_def)
      then obtain n where n: "?b \<le> n" "n \<le> z" "held A' = insert (x, n) (held A)"
        using a_take_held [OF ok c b(1)] q(2) by blast
      have d: "(x, z, False) \<in> set (place (abase A) (chunks A))"
        using cut_SomeD [OF c] by (simp add: place_append)
      have "x + n \<le> y \<or> y + k \<le> x" if "(y, k) \<in> held A" for y k
        using place_apart [OF a_ok_sizes [OF ok] d, of y k True] that n(2) by (auto simp: held_def)
      moreover have "0 \<le> x" using place_bounds(1) [OF a_ok_sizes [OF ok] d] ok by (simp add: a_ok_def)
      ultimately show ?thesis using q n by (auto simp: NULL_def)
    qed
  qed
  then show "q = NULL \<Longrightarrow> A' = A"
    and "q \<noteq> NULL \<Longrightarrow> \<exists>n. ?b \<le> n \<and> held A' = insert (q - 8, n) (held A) \<and>
           (\<forall>(y, k)\<in>held A. q - 8 + n \<le> y \<or> y + k \<le> q - 8)" by blast+
qed

lemma a_malloc_sizes:
  assumes ok: "a_ok A"
  shows "sizes_ok (chunks (snd (a_malloc sz A)))"
proof (cases "List.find (a_fits A (block_need sz)) (order A)")
  case None
  then show ?thesis
    using a_ok_sizes [OF ok] block_need_bounds [of sz] by (simp add: a_malloc_def a_extend_def)
next
  case (Some x)
  then have x: "x \<in> set (order A)" "a_fits A (block_need sz) x" using find_eq_SomeD by fastforce+
  obtain us z vs where c: "cut (abase A) (chunks A) x = Some (us, (z, False), vs)"
    using a_ok_order_cut [OF ok x(1)] .
  have "sizes_ok us" "sizes_ok vs" "32 \<le> z" "z mod 8 = 0"
    using cut_SomeD [OF c] a_ok_sizes [OF ok] by simp_all
  then show ?thesis
    using Some c block_need_bounds(1,2) [of sz] a_ok_sizes [OF ok]
    by (simp add: a_malloc_def a_take_def mod_diff_0)
qed

lemma held_only:
  assumes ok: "a_ok A" and c: "chunks A = us @ (sz, True) # vs" and x: "x = abase A + extent us"
  shows "held A - {(x, sz)} = {(y, n). (y, n, True) \<in> set (place (abase A) us)} \<union>
     {(y, n). (y, n, True) \<in> set (place (x + sz) vs)}"
proof -
  have ok': "sizes_ok us" "sizes_ok vs" "32 \<le> sz" using a_ok_sizes [OF ok] c by auto
  have 1: "(x, sz, True) \<notin> set (place (abase A) us)"
    using place_bounds(2,3) [OF ok'(1), of x sz True "abase A"] x by auto
  have 2: "(x, sz, True) \<notin> set (place (x + sz) vs)"
    using place_bounds(1) [OF ok'(2), of x sz True "x + sz"] ok'(3) by auto
  show ?thesis using held_chunks [OF c, folded x] 1 2 by auto
qed

lemma a_realloc_held:
  assumes ok: "a_ok A" and live: "live A p = Some k" and sz: "sz \<noteq> 0"
    and r: "a_realloc p sz A = (q, A')"
  shows "q = NULL \<Longrightarrow> A' = A"
    and "q \<noteq> NULL \<Longrightarrow> \<exists>m. k \<le> m \<and> sz \<le> m \<and>
           held A' = insert (q - 8, m + 16) (held A - {(p - 8, k + 16)}) \<and>
           (\<forall>n. (q - 8, n) \<notin> held A - {(p - 8, k + 16)})"
proof -
  let ?n = "round_up sz + 16" and ?old = "k + 16"
  let ?grow = "\<exists>m. k \<le> m \<and> sz \<le> m \<and> held A' = insert (q - 8, m + 16) (held A - {(p - 8, ?old)}) \<and>
      (\<forall>n. (q - 8, n) \<notin> held A - {(p - 8, ?old)})"
  obtain us vs where c: "cut (abase A) (chunks A) (p - 8) = Some (us, (?old, True), vs)"
    using live_cut [OF live] .
  have d: "chunks A = us @ (?old, True) # vs" "p - 8 = abase A + extent us"
    using cut_SomeD [OF c] by simp_all
  note h = held_only [OF ok d] and hp = cut_held [OF c]
  have p: "p \<noteq> NULL" using held_bounds(6) [OF ok hp] by (simp add: NULL_def)
  obtain psz pal nsz nal where pv: "prev_of us = (psz, pal)" and nx: "next_of vs = (nsz, nal)"
    by force
  have sizes: "sizes_ok us" "sizes_ok vs" using a_ok_sizes [OF ok] d by simp_all
  note ar = a_realloc_run [OF c p sz pv nx]
  define us' where "us' = (if pal then us else butlast us)"
  define vs' where "vs' = (if nal then vs else tl vs)"
  have us: "us = us' @ (if pal then [] else [(psz, False)])"
    using prev_free_snoc [of us psz] pv us'_def by (cases pal) auto
  have vs: "vs = (if nal then [] else [(nsz, False)]) @ vs'"
    using next_free_Cons [of vs nsz] nx vs'_def by (cases nal) auto
  have pos: "pal \<or> 32 \<le> psz" "nal \<or> 32 \<le> nsz" using sizes us vs by (cases pal; cases nal; simp)+
  have L: "{(y, n). (y, n, True) \<in> set (place (abase A) us)} = {(y, n). (y, n, True) \<in> set (place (abase A) us')}"
    by (subst us) (simp add: place_append)
  have R: "{(y, n). (y, n, True) \<in> set (place z vs)} =
      {(y, n). (y, n, True) \<in> set (place (z + (if nal then 0 else nsz)) vs')}" for z
    by (subst vs) simp
  have E: "extent us = extent us' + (if pal then 0 else psz)" by (subst us) simp
  have up: "sz \<le> round_up sz" using round_up_bounds by simp
  have ok': "sizes_ok us'" "sizes_ok vs'" using sizes us vs by (cases pal; cases nal; simp)+
  have grow: "q \<noteq> NULL \<and> ?grow"
    if u1: "sizes_ok us1" "sizes_ok vs1" and e: "chunks A' = us1 @ (m + 16, True) # vs1" "abase A' = abase A" "q - 8 = abase A + extent us1"
      and m: "k \<le> m" "sz \<le> m"
      and l: "{(y, n). (y, n, True) \<in> set (place (abase A) us)} = {(y, n). (y, n, True) \<in> set (place (abase A) us1)}"
      and r: "{(y, n). (y, n, True) \<in> set (place (p - 8 + ?old) vs)} =
        {(y, n). (y, n, True) \<in> set (place (q - 8 + (m + 16)) vs1)}" for us1 vs1 m
  proof
    show "q \<noteq> NULL" using e(3) sizes_ok_extent [OF u1(1)] ok by (simp add: NULL_def a_ok_def)
    have H: "held A - {(p - 8, ?old)} = {(y, n). (y, n, True) \<in> set (place (abase A) us1)} \<union>
        {(y, n). (y, n, True) \<in> set (place (q - 8 + (m + 16)) vs1)}"
      using h unfolding l r .
    have "(q - 8, n, True) \<notin> set (place (abase A) us1)" for n
      using place_bounds(2,3) [OF u1(1), of "q - 8" n True "abase A"] e(3) by auto
    moreover have "0 < m + 16" using m held_bounds(2) [OF ok hp] by simp
    then have "(q - 8, n, True) \<notin> set (place (q - 8 + (m + 16)) vs1)" for n
      using place_bounds(1) [OF u1(2), of "q - 8" n True "q - 8 + (m + 16)"] by auto
    ultimately have "\<forall>n. (q - 8, n) \<notin> held A - {(p - 8, ?old)}" unfolding H by simp
    moreover have "held A' = insert (q - 8, m + 16) (held A - {(p - 8, ?old)})"
      using held_chunks [OF e(1)] unfolding H e(2) e(3) [symmetric] by auto
    ultimately show ?grow using m by blast
  qed
  consider (stay) "?n \<le> ?old" | (prev) "\<not> ?n \<le> ?old" "\<not> pal" "?n \<le> ?old + psz"
    | (nxt) "\<not> ?n \<le> ?old" "\<not> (\<not> pal \<and> ?n \<le> ?old + psz)" "\<not> nal" "?n \<le> ?old + nsz"
    | (both) "\<not> ?n \<le> ?old" "\<not> ?n \<le> ?old + psz" "\<not> ?n \<le> ?old + nsz"
        "\<not> pal" "\<not> nal" "?n \<le> ?old + psz + nsz"
    | (move) "\<not> ?n \<le> ?old" "\<not> (\<not> pal \<and> ?n \<le> ?old + psz)" "\<not> (\<not> nal \<and> ?n \<le> ?old + nsz)"
        "\<not> (\<not> pal \<and> \<not> nal \<and> ?n \<le> ?old + psz + nsz)"
    by blast
  then have main: "(q = NULL \<longrightarrow> A' = A) \<and> (q \<noteq> NULL \<longrightarrow> ?grow)"
  proof cases
    case stay
    then have e: "q = p" "A' = A" using r by (simp_all add: ar)
    moreover have "(p - 8, n) \<notin> held A - {(p - 8, ?old)}" for n
      using held_apart [OF ok _ hp, of "p - 8" n] held_bounds(2) [OF ok, of "p - 8" n]
        held_bounds(2) [OF ok hp] by auto
    moreover have "held A = insert (p - 8, ?old) (held A - {(p - 8, ?old)})" using hp by blast
    moreover have "sz \<le> k" using stay up by simp
    ultimately show ?thesis using p by blast
  next
    case prev
    then have e: "q = p - psz" "chunks A' = us' @ (psz + k + 16, True) # vs" "abase A' = abase A"
      using r by (simp_all add: ar us'_def add.assoc) auto
    have "q \<noteq> NULL \<and> ?grow"
      by (rule grow [of us' vs "psz + k"])
        (use e d(2) E L pos ok' sizes(2) prev up in \<open>simp_all add: algebra_simps\<close>)
    then show ?thesis by blast
  next
    case nxt
    then have e: "q = p" "chunks A' = us @ (k + nsz + 16, True) # vs'" "abase A' = abase A"
      using r unfolding ar by (auto simp: vs'_def)
    have "q \<noteq> NULL \<and> ?grow"
      by (rule grow [of us vs' "k + nsz"])
        (use e d(2) R pos sizes ok' nxt(1,3,4) up in \<open>simp_all add: algebra_simps\<close>)
    then show ?thesis by blast
  next
    case both
    then have e: "q = p - psz" "chunks A' = us' @ (psz + k + nsz + 16, True) # vs'" "abase A' = abase A"
      using r unfolding ar by (auto simp: us'_def vs'_def)
    have "q \<noteq> NULL \<and> ?grow"
      by (rule grow [of us' vs' "psz + k + nsz"])
        (use e d(2) E L R pos ok' both up in \<open>simp_all add: algebra_simps\<close>)
    then show ?thesis by blast
  next
    case move
    obtain q1 A1 where m: "a_malloc ?n A = (q1, A1)" by force
    have e: "(q, A') = (if q1 = NULL then (NULL, A1) else (q1, a_free p A1))"
      using r move by (simp only: ar m if_False simp_thms) simp
    show ?thesis
    proof (cases "q1 = NULL")
      case True
      then show ?thesis using e a_malloc_held(1) [OF ok m] by simp
    next
      case False
      obtain n where n: "block_need ?n \<le> n" "held A1 = insert (q1 - 8, n) (held A)"
          "\<forall>(y, i)\<in>held A. q1 - 8 + n \<le> y \<or> y + i \<le> q1 - 8"
        using a_malloc_held(2) [OF ok m False] by (elim exE conjE)
      have ok1: "sizes_ok (chunks A1)" using a_malloc_sizes [OF ok, of ?n] m by simp
      have "q1 - 8 + n \<le> p - 8 \<or> p - 8 + ?old \<le> q1 - 8" using bspec [OF n(3) hp] by auto
      then have "q1 \<noteq> p" using n(1) block_need_bounds(1) [of ?n] held_bounds(2) [OF ok hp] by auto
      moreover have "held A' = held A1 - {(p - 8, ?old)}"
        using a_free_held [OF ok1 p, of k] live_held [OF ok1, of p k] n(2) hp e False by simp
      ultimately have "held A' = insert (q - 8, (n - 16) + 16) (held A - {(p - 8, ?old)})"
        using n(2) e False by auto
      moreover have "k \<le> n - 16" "sz \<le> n - 16"
        using n(1) block_need_bounds(3) [of ?n] move(1) up by simp_all
      moreover have "(q1 - 8, j) \<notin> held A" for j
        using bspec [OF n(3), of "(q1 - 8, j)"] n(1) block_need_bounds(1) [of ?n]
          held_bounds(2) [OF ok, of "q1 - 8" j] by auto
      ultimately show ?thesis using e False by auto
    qed
  qed
  then show "q = NULL \<Longrightarrow> A' = A"
    and "q \<noteq> NULL \<Longrightarrow> ?grow" by blast+
qed

end
