(* ===== verification/Realloc.thy ===== *)
theory Realloc
  imports Malloc Live
begin

text \<open>
  \<open>mm_realloc\<close> implements \<open>a_realloc\<close> on a live block: it stays where it is, grows
  into the free block before it, after it, or both, or moves to a new block.
  The bytes of the old payload are those at the start of the new one, and no
  payload byte of another block changes.  The copy moves \<open>old_size\<close> bytes, 16
  more than the payload holds; it stays inside the new payload all the same.
\<close>

section \<open>Writing to payloads\<close>

lemma tag_not_used:
  assumes "sizes_ok bs" and "(x, sz, al) \<in> set (place a bs)"
    and "x \<le> t \<and> t < x + 8 \<or> x + sz - 8 \<le> t \<and> t < x + sz"
  shows "t \<notin> used_bytes a bs"
proof
  assume "t \<in> used_bytes a bs"
  then obtain y sy where y: "(y, sy, True) \<in> set (place a bs)" "y + 8 \<le> t" "t < y + sy - 8"
    by (auto simp: used_bytes_def)
  show False
    using place_apart [OF assms(1,2) y(1)] place_bounds(3) [OF assms(1,2)] assms(3) y(2,3) by auto
qed

lemma free_not_used:
  assumes "sizes_ok bs" and "(x, sz, False) \<in> set (place a bs)" and "x \<le> t" "t < x + sz"
  shows "t \<notin> used_bytes a bs"
proof
  assume "t \<in> used_bytes a bs"
  then obtain y sy where y: "(y, sy, True) \<in> set (place a bs)" "y + 8 \<le> t" "t < y + sy - 8"
    by (auto simp: used_bytes_def)
  show False using place_apart [OF assms(1,2) y(1)] assms(3,4) y(2,3) by auto
qed

lemma payload_write_rep:
  assumes rep: "rep s A" and out: "\<And>t. t \<notin> used_bytes (abase A) (chunks A) \<Longrightarrow> m t = mem s t"
  shows "rep (s\<lparr>mem := m\<rparr>) A"
proof -
  let ?s = "s\<lparr>mem := m\<rparr>"
  have lay: "lay s (chunks A)" and fl: "free_links s (order A)" and ab: "abase A = base s"
    and ord: "set (order A) = frees (base s) (chunks A)"
    using rep by (simp_all add: rep_def)
  note b = lay_base [OF lay] and ok = lay_sizes [OF lay]
  note ub = used_bytes_bounds [OF ok, of _ "base s"]
  have w: "wv ?s t = wv s t" if "\<And>i. t \<le> i \<Longrightarrow> i < t + 8 \<Longrightarrow> i \<notin> used_bytes (base s) (chunks A)" for t
    using that out ab by (intro wv_cong) simp
  have "tags_ok (wv ?s) (place (base s) (chunks A))"
    unfolding tags_ok_def
  proof clarify
    fix x sz al assume x: "(x, sz, al) \<in> set (place (base s) (chunks A))"
    have "wv ?s x = wv s x" "wv ?s (x + sz - 8) = wv s (x + sz - 8)"
      by (rule w, rule tag_not_used [OF ok x], simp)+
    then show "wv ?s x = tag sz al \<and> wv ?s (x + sz - 8) = tag sz al"
      using lay x by (auto simp: lay_def tags_ok_def)
  qed
  moreover have "wv ?s t = wv s t"
    if "t \<in> {prologue s, prologue s + 8, epilogue s, epilogue s + 8}" for t
  proof (rule w)
    fix i assume "t \<le> i" "i < t + 8"
    then have "i < base s + 8 \<or> base s + extent (chunks A) \<le> i + 8" using that b(4,5,9) by auto
    then show "i \<notin> used_bytes (base s) (chunks A)" using ub [of i] by auto
  qed
  then have "sentinels ?s" using lay by (simp add: sentinels_def lay_def)
  ultimately have "lay ?s (chunks A)"
    using lay by (simp add: lay_def geometry_def base_def)
  moreover have "free_links ?s (order A)"
  proof (rule free_links_cong [OF fl])
    fix x assume "x \<in> set (order A)"
    then obtain sz where x: "(x, sz, False) \<in> set (place (base s) (chunks A))"
      using ord by (auto simp: frees_def)
    then have "32 \<le> sz" using place_bounds(3) [OF ok] by blast
    then show "wv ?s (x + 8) = wv s (x + 8) \<and> wv ?s (x + 16) = wv s (x + 16)"
      by (intro conjI w free_not_used [OF ok x]) simp_all
  qed simp
  ultimately show ?thesis using rep by (simp add: rep_def base_def)
qed

text \<open>The bytes of one allocated block.\<close>

lemma memmove_block_ok:
  assumes rep: "rep s A" and c: "chunks A = us @ (n, True) # vs" and a: "a = abase A + extent us"
    and k: "0 \<le> k" "k + 16 \<le> n" and src: "in_heap s p k"
  shows "memmove (a + 8) p k s = Inr ((), s\<lparr>mem := move (mem s) (a + 8) p k\<rparr>)"
    and "rep (s\<lparr>mem := move (mem s) (a + 8) p k\<rparr>) A"
proof -
  have lay: "lay s (us @ [(n, True)] @ vs)" and ab: "abase A = base s"
    using rep c by (simp_all add: rep_def)
  note f = lay_region_facts [OF lay _ _ refl, of a, simplified, OF a [unfolded ab]]
  have "in_heap s (a + 8) k"
    using f(5,6) k a ab lay_base(1,4) [OF lay] by (simp add: in_heap_def)
  then show "memmove (a + 8) p k s = Inr ((), s\<lparr>mem := move (mem s) (a + 8) p k\<rparr>)"
    using k src by (simp add: memmove_def)
  show "rep (s\<lparr>mem := move (mem s) (a + 8) p k\<rparr>) A"
  proof (rule payload_write_rep [OF rep])
    fix t assume "t \<notin> used_bytes (abase A) (chunks A)"
    then have "\<not> (a + 8 \<le> t \<and> t < a + 8 + k)" using c a k by auto
    then show "move (mem s) (a + 8) p k t = mem s t" by (auto simp: move_def)
  qed
qed

section \<open>A run of blocks becomes one allocated block\<close>

lemma claim_ok:
  assumes rep: "rep s A" and c: "chunks A = us @ mid @ vs" and ne: "mid \<noteq> []"
    and a: "a = base s + extent us" and n: "n = extent mid"
    and t: "lay t (us @ mid @ vs)" "free_links t fl"
      "quiet (used_bytes (base s) (us @ mid @ vs)) s t"
    and fl: "set fl = frees (base s) us \<union> frees (a + n) vs"
  shows "block_set_size_and_allocated a n 1 t = Inr ((), tagged a n True t)"
    and "rep (tagged a n True t) (A\<lparr>chunks := us @ (n, True) # vs, order := fl\<rparr>)"
    and "quiet (used_bytes (base s) (us @ mid @ vs)) s (tagged a n True t)"
proof -
  have bt: "base t = base s" using quiet_base [OF t(3)] .
  have at: "a = base t + extent us" using a bt by simp
  note f = lay_region_facts [OF t(1) ne at n]
  show "block_set_size_and_allocated a n 1 t = Inr ((), tagged a n True t)"
    by (rule block_set_size_and_allocated_01(1) [OF f(1)])
  have q: "quiet (used_bytes (base s) (us @ mid @ vs)) t (tagged a n True t)"
    using quiet_tagged [OF t(1) ne at n] bt by simp
  then show "quiet (used_bytes (base s) (us @ mid @ vs)) s (tagged a n True t)"
    by (rule quiet_trans [OF t(3)])
  have "no_adjacent_free (us @ (n, True) # vs)"
    using rep c by (auto simp: rep_def no_adjacent_free_append no_adjacent_free_Cons)
  moreover have "lay (tagged a n True t) (us @ (n, True) # vs)"
    by (rule lay_tagged [OF t(1) ne at n])
  moreover have "free_links (tagged a n True t) fl"
    using free_links_tagged [OF t(1) ne at n t(2)] fl bt by simp
  moreover have "mem_max_addr t = mem_max_addr s" using t(3) by (simp add: quiet_def same_frame_def)
  ultimately show "rep (tagged a n True t) (A\<lparr>chunks := us @ (n, True) # vs, order := fl\<rparr>)"
    using rep fl bt a by (simp add: rep_def add.assoc)
qed

section \<open>The tests\<close>

lemma free_and_enough_ok:
  assumes "block_allocated b s = Inr (of_bool al, s)" and "block_size b s = Inr (z, s)"
    and "\<not> al \<Longrightarrow> is_long (old + z)"
  shows "free_and_enough b old n s = Inr (\<not> al \<and> n \<le> old + z, s)"
  using assms by (cases al) (simp_all add: free_and_enough_def prog_eval)

lemma both_free_and_enough_ok:
  assumes "block_allocated p s = Inr (of_bool pal, s)" and "block_size p s = Inr (pz, s)"
    and "block_allocated q s = Inr (of_bool qal, s)" and "block_size q s = Inr (qz, s)"
    and "\<not> pal \<Longrightarrow> \<not> qal \<Longrightarrow> is_long (old + pz) \<and> is_long (old + pz + qz)"
  shows "both_free_and_enough p q old n s = Inr (\<not> pal \<and> \<not> qal \<and> n \<le> old + pz + qz, s)"
  using assms by (cases pal; cases qal) (simp_all add: both_free_and_enough_def prog_eval)

section \<open>The cases of mm\_realloc\<close>

text \<open>What the cases have in common: a live block \<open>x = p - 8\<close> of \<open>old\<close> bytes in the heap, a
  new size with a block of \<open>n\<close> bytes, and the result of the call.\<close>

definition realloc_done ::
  "heap \<Rightarrow> aheap \<Rightarrow> int \<Rightarrow> int \<Rightarrow> int set \<Rightarrow> int \<times> aheap \<Rightarrow> fault + (int \<times> heap) \<Rightarrow> bool" where
  "realloc_done s A p old B qA r \<longleftrightarrow>
     (\<exists>s'. r = Inr (fst qA, s') \<and> rep s' (snd qA) \<and> bytes_kept B s s' \<and>
        (\<forall>i. 0 \<le> i \<longrightarrow> i < old - 16 \<longrightarrow>
           mem s' ((if fst qA = NULL then p else fst qA) + i) = mem s (p + i)))"

lemma claim_move_done:
  assumes rep: "rep s A" and c: "chunks A = us @ mid @ vs" and ne: "mid \<noteq> []"
    and a: "a = base s + extent us" and n: "n = extent mid"
    and t: "lay t (us @ mid @ vs)" "free_links t fl"
      "quiet (used_bytes (base s) (us @ mid @ vs)) s t"
    and fl: "set fl = frees (base s) us \<union> frees (a + n) vs"
    and old: "32 \<le> old" "old + 16 \<le> n" and p: "a + 8 \<le> p" "p + old \<le> mem_brk s"
    and used: "\<And>i. 0 \<le> i \<Longrightarrow> i < old - 16 \<Longrightarrow> p + i \<in> used_bytes (base s) (us @ mid @ vs)"
  shows "realloc_done s A p old (used_bytes (base s) us \<union> used_bytes (a + n) vs)
      (a + 8, A\<lparr>chunks := us @ (n, True) # vs, order := fl\<rparr>)
      (seqp (block_set_size_and_allocated a n 1)
        (seqp (memmove (payload a 0) p old) (ret (payload a 0))) t)"
proof -
  note cl = claim_ok [OF rep c ne a n t fl]
  let ?u = "tagged a n True t"
  let ?A = "A\<lparr>chunks := us @ (n, True) # vs, order := fl\<rparr>"
  have bs: "abase A = base s" using rep by (simp add: rep_def)
  have lay: "lay s (us @ mid @ vs)" using rep c by (simp add: rep_def)
  note f = lay_region_facts [OF lay ne a n]
  have fr: "mem_start_brk ?u = mem_start_brk s" "mem_brk ?u = mem_brk s"
    using cl(3) by (simp_all add: quiet_def same_frame_def)
  have ih: "in_heap ?u p old"
    using p f(5) lay_base(1,4) [OF lay] fr by (simp add: in_heap_def)
  let ?v = "?u\<lparr>mem := move (mem ?u) (a + 8) p old\<rparr>"
  have v: "memmove (a + 8) p old ?u = Inr ((), ?v)" "rep ?v ?A"
    by (rule memmove_block_ok [OF cl(2), of us n vs]; use a bs old ih in simp)+
  have ok: "sizes_ok us" "sizes_ok vs" using lay_sizes [OF lay] by simp_all
  have "mem ?v b = mem s b" if "b \<in> used_bytes (base s) us \<union> used_bytes (a + n) vs" for b
  proof -
    have "b < a \<or> a + n \<le> b" using outer_used [OF lay a] that n by blast
    then have "mem ?v b = mem ?u b" using old by (auto simp: move_def)
    then show ?thesis using cl(3) that a n by (auto simp: quiet_def add.assoc)
  qed
  moreover have "mem ?v (a + 8 + i) = mem s (p + i)" if "0 \<le> i" "i < old - 16" for i
    using cl(3) used [OF that] that by (simp add: move_def quiet_def)
  ultimately show ?thesis
    using cl(1) v f(5) lay_base(8) [OF lay]
    by (auto simp: realloc_done_def prog_eval bytes_kept_def NULL_def intro!: exI [of _ ?v])
qed

lemma pull_rep:
  assumes rep: "rep s A" and c: "chunks A = us @ (sz, False) # vs" and x: "x = base s + extent us"
  shows "\<exists>t. pull_free_block x s = Inr ((), t) \<and> lay t (us @ (sz, False) # vs) \<and>
      free_links t (remove1 x (order A)) \<and>
      set (remove1 x (order A)) = frees (base s) us \<union> frees (x + sz) vs \<and>
      quiet (used_bytes (base s) (us @ (sz, False) # vs)) s t"
proof -
  have lay: "lay s (us @ (sz, False) # vs)" and fl: "free_links s (order A)"
    and ord: "set (order A) = frees (base s) (us @ (sz, False) # vs)"
    using rep c by (simp_all add: rep_def)
  have d: "distinct (order A)" using fl by (simp add: free_links_def)
  have "x \<in> set (order A)" using ord x by simp
  moreover have "set (remove1 x (order A)) = frees (base s) us \<union> frees (x + sz) vs"
    using d ord outside_frees [OF lay x] x by (auto simp: add.assoc)
  ultimately show ?thesis using pull_ok [OF lay fl equalityD1 [OF ord]] by blast
qed

lemma realloc_prev:
  assumes rep: "rep s A" and c: "chunks A = us @ (psz, False) # (old, True) # vs"
    and a: "a = base s + extent us" and p: "p = a + psz + 8"
  shows "realloc_done s A p old (used_bytes (base s) us \<union> used_bytes (a + psz + old) vs)
      (a + 8, A\<lparr>chunks := us @ (psz + old, True) # vs, order := remove1 a (order A)\<rparr>)
      (seqp (pull_free_block a) (bnd (block_size a) (\<lambda>sp. bnd (long_add old sp) (\<lambda>t.
        seqp (block_set_size_and_allocated a t 1)
       (seqp (memmove (payload a 0) p old) (ret (payload a 0)))))) s)"
proof -
  let ?mid = "[(psz, False), (old, True)]"
  have c': "chunks A = us @ ?mid @ vs" using c by simp
  have lay: "lay s (us @ ?mid @ vs)" using rep c by (simp add: rep_def)
  obtain t where t: "pull_free_block a s = Inr ((), t)"
      "lay t (us @ (psz, False) # (old, True) # vs)" "free_links t (remove1 a (order A))"
      "set (remove1 a (order A)) = frees (base s) us \<union> frees (a + psz) ((old, True) # vs)"
      "quiet (used_bytes (base s) (us @ (psz, False) # (old, True) # vs)) s t"
    using pull_rep [OF rep c a] by blast
  have ok: "sizes_ok us" "sizes_ok vs" "32 \<le> psz" "32 \<le> old" using lay_sizes [OF lay] by simp_all
  note e = sizes_ok_extent [OF ok(1)] sizes_ok_extent [OF ok(2)]
  obtain z al where pv: "prev_of us = (z, al)" by force
  have "block_size a t = Inr (psz, t)"
    using lay_at(1) [OF t(2) _ pv, of a old True] a quiet_base [OF t(5)] by simp
  moreover have "is_long (old + psz)" using ok e by (intro lay_long [OF lay]) simp_all
  moreover have "realloc_done s A p old (used_bytes (base s) us \<union> used_bytes (a + (psz + old)) vs)
      (a + 8, A\<lparr>chunks := us @ (psz + old, True) # vs, order := remove1 a (order A)\<rparr>)
      (seqp (block_set_size_and_allocated a (psz + old) 1)
        (seqp (memmove (payload a 0) p old) (ret (payload a 0))) t)"
  proof (rule claim_move_done [OF rep c' _ a])
    show "p + old \<le> mem_brk s" using lay_base(6) [OF lay] e a p by simp
    show "p + i \<in> used_bytes (base s) (us @ ?mid @ vs)" if "0 \<le> i" "i < old - 16" for i
      using that a p by simp
  qed (use t ok p in \<open>simp_all add: add.assoc\<close>)
  ultimately show ?thesis using t(1) by (simp add: prog_eval add.commute add.left_commute add.assoc)
qed

lemma realloc_next:
  assumes rep: "rep s A" and c: "chunks A = us @ (old, True) # (nsz, False) # vs"
    and x: "x = base s + extent us"
  shows "realloc_done s A (x + 8) old (used_bytes (base s) us \<union> used_bytes (x + old + nsz) vs)
      (x + 8, A\<lparr>chunks := us @ (old + nsz, True) # vs, order := remove1 (x + old) (order A)\<rparr>)
      (bnd (block_next x) (\<lambda>nxt. seqp (pull_free_block nxt) (bnd (block_size nxt) (\<lambda>sn.
        bnd (long_add old sn) (\<lambda>t. seqp (block_set_size_and_allocated x t 1)
       (ret (payload x 0)))))) s)"
proof -
  let ?mid = "[(old, True), (nsz, False)]" and ?us = "us @ [(old, True)]"
  have c': "chunks A = us @ ?mid @ vs" and c2: "chunks A = ?us @ (nsz, False) # vs"
    using c by simp_all
  have y: "x + old = base s + extent ?us" using x by simp
  have lay: "lay s (us @ ?mid @ vs)" using rep c by (simp add: rep_def)
  obtain t where t: "pull_free_block (x + old) s = Inr ((), t)" "lay t (?us @ (nsz, False) # vs)"
      "free_links t (remove1 (x + old) (order A))"
      "set (remove1 (x + old) (order A)) = frees (base s) ?us \<union> frees (x + old + nsz) vs"
      "quiet (used_bytes (base s) (?us @ (nsz, False) # vs)) s t"
    using pull_rep [OF rep c2 y] by blast
  have ok: "sizes_ok us" "sizes_ok vs" "32 \<le> nsz" "32 \<le> old" using lay_sizes [OF lay] by simp_all
  note e = sizes_ok_extent [OF ok(1)] sizes_ok_extent [OF ok(2)]
  obtain z al z' al' where pv: "prev_of us = (z, al)" and nx: "next_of vs = (z', al')" by force
  have "block_next x s = Inr (x + old, s)"
    using lay_at(3) [of s us old True "(nsz, False) # vs" x z al nsz False, OF _ x pv] lay by simp
  moreover have "block_size (x + old) t = Inr (nsz, t)"
    using lay_at(1) [OF t(2) _ _ nx, of "x + old" old True] y quiet_base [OF t(5)]
    by (simp add: add.assoc)
  moreover have "is_long (old + nsz)" using ok e by (intro lay_long [OF lay]) simp_all
  moreover have ab: "abase A = base s" using rep by (simp add: rep_def)
  have n: "old + nsz = extent ?mid" by simp
  have t': "lay t (us @ ?mid @ vs)" "quiet (used_bytes (base s) (us @ ?mid @ vs)) s t"
    using t(2,5) by simp_all
  have fl: "set (remove1 (x + old) (order A)) = frees (base s) us \<union> frees (x + (old + nsz)) vs"
    using t(4) by (simp add: add.assoc)
  note cl = claim_ok [OF rep c' _ x n t'(1) t(3) t'(2) fl, simplified]
  have "mem (tagged x (old + nsz) True t) b = mem s b"
    if "b \<in> used_bytes (base s) us \<union> used_bytes (x + old + nsz) vs \<or> x + 8 \<le> b \<and> b < x + 8 + (old - 16)"
    for b using cl(3) that x by (auto simp: quiet_def add.assoc)
  ultimately show ?thesis
    using t(1) cl(1,2) x e lay_base(8) [OF lay]
    by (auto simp: realloc_done_def bytes_kept_def prog_eval NULL_def
        intro!: exI [of _ "tagged x (old + nsz) True t"])
qed

lemma realloc_both:
  assumes rep: "rep s A" and c: "chunks A = us @ (psz, False) # (old, True) # (nsz, False) # vs"
    and a: "a = base s + extent us" and p: "p = a + psz + 8" and y: "y = a + psz + old"
  shows "realloc_done s A p old (used_bytes (base s) us \<union> used_bytes (y + nsz) vs)
      (a + 8, A\<lparr>chunks := us @ (psz + old + nsz, True) # vs,
                order := remove1 a (remove1 y (order A))\<rparr>)
      (seqp (pull_free_block y) (seqp (pull_free_block a) (bnd (block_size y) (\<lambda>sn.
        bnd (long_add old sn) (\<lambda>t. bnd (block_size a) (\<lambda>sp. bnd (long_add t sp) (\<lambda>u.
        seqp (block_set_size_and_allocated a u 1)
       (seqp (memmove (payload a 0) p old) (ret (payload a 0))))))))) s)"
proof -
  let ?mid = "[(psz, False), (old, True), (nsz, False)]" and ?us = "us @ [(psz, False), (old, True)]"
  let ?U = "used_bytes (base s) (us @ ?mid @ vs)"
  have c': "chunks A = us @ ?mid @ vs" and c2: "chunks A = ?us @ (nsz, False) # vs"
    using c by simp_all
  have y': "y = base s + extent ?us" using y a by simp
  have lay: "lay s (us @ ?mid @ vs)" using rep c by (simp add: rep_def)
  have ok: "sizes_ok us" "sizes_ok vs" "32 \<le> psz" "32 \<le> nsz" "32 \<le> old"
    using lay_sizes [OF lay] by simp_all
  note e = sizes_ok_extent [OF ok(1)] sizes_ok_extent [OF ok(2)]
  let ?fl1 = "remove1 y (order A)" and ?fl2 = "remove1 a (remove1 y (order A))"
  obtain t where t: "pull_free_block y s = Inr ((), t)" "lay t (?us @ (nsz, False) # vs)"
      "free_links t ?fl1" "set ?fl1 = frees (base s) ?us \<union> frees (y + nsz) vs"
      "quiet (used_bytes (base s) (?us @ (nsz, False) # vs)) s t"
    using pull_rep [OF rep c2 y'] by blast
  have bt: "base t = base s" using quiet_base [OF t(5)] .
  have lt: "lay t (us @ (psz, False) # (old, True) # (nsz, False) # vs)" using t(2) by simp
  have sub: "set ?fl1 \<subseteq> frees (base t) (us @ (psz, False) # (old, True) # (nsz, False) # vs)"
    using t(4) bt y a by (auto simp: add.assoc)
  have "a \<in> set ?fl1" using t(4) a by simp
  then obtain u where u: "pull_free_block a t = Inr ((), u)"
      "lay u (us @ (psz, False) # (old, True) # (nsz, False) # vs)" "free_links u ?fl2"
      "quiet (used_bytes (base t) (us @ (psz, False) # (old, True) # (nsz, False) # vs)) t u"
    using pull_ok [OF lt t(3) sub] by blast
  have qu: "quiet ?U s u" using quiet_trans [OF t(5), of u] u(4) bt by simp
  have bu: "base u = base s" using quiet_base [OF qu] .
  have lu: "lay u (?us @ (nsz, False) # vs)" using u(2) by simp
  obtain z al z' al' where pv: "prev_of us = (z, al)" and nx: "next_of vs = (z', al')" by force
  have pv2: "prev_of ?us = (old, True)" by (simp add: prev_of_def)
  have sz: "block_size a u = Inr (psz, u)" "block_size y u = Inr (nsz, u)"
    using lay_at(1) [OF u(2) _ pv, of a old True] lay_at(1) [OF lu _ pv2 nx, of y] a y' bu by simp_all
  have lng: "is_long (old + nsz)" "is_long (old + nsz + psz)"
    by (rule lay_long [OF lay]; use ok e in simp)+
  have d: "distinct ?fl1" using t(3) by (simp add: free_links_def)
  have "a \<notin> frees (base s) us \<union> frees (y + nsz) vs"
    using frees_bounds(2) [OF ok(1), of a "base s"] frees_bounds(1) [OF ok(2), of a "y + nsz"] ok a y
    by auto
  then have fl: "set ?fl2 = frees (base s) us \<union> frees (a + (psz + old + nsz)) vs"
    using d t(4) a y by (auto simp: add.assoc)
  have "realloc_done s A p old (used_bytes (base s) us \<union> used_bytes (a + (psz + old + nsz)) vs)
      (a + 8, A\<lparr>chunks := us @ (psz + old + nsz, True) # vs, order := ?fl2\<rparr>)
      (seqp (block_set_size_and_allocated a (psz + old + nsz) 1)
        (seqp (memmove (payload a 0) p old) (ret (payload a 0))) u)"
  proof (rule claim_move_done [OF rep c' _ a _ _ _ qu fl])
    show "p + old \<le> mem_brk s" using lay_base(6) [OF lay] e ok a p by simp
    show "p + i \<in> ?U" if "0 \<le> i" "i < old - 16" for i using that a p by simp
  qed (use u ok p in simp_all)
  then show ?thesis
    using t(1) u(1) sz lng y
    by (simp add: prog_eval add.commute add.left_commute add.assoc)
qed

lemma held_in_used: "(x, n) \<in> held A \<Longrightarrow> x + 8 \<le> b \<Longrightarrow> b < x + n - 8 \<Longrightarrow>
    b \<in> used_bytes (abase A) (chunks A)"
  by (force simp: used_bytes_held)

lemma realloc_move:
  assumes rep: "rep s A" and c: "cut (abase A) (chunks A) (p - 8) = Some (us, (old, True), vs)"
    and n: "old < n" "block_need n < 2 ^ 32"
  shows "realloc_done s A p old (used_bytes (abase A) us \<union> used_bytes (p - 8 + old) vs)
      (let (q, A') = a_malloc n A in if q = NULL then (NULL, A') else (q, a_free p A'))
      (bnd (mm_malloc n) (\<lambda>newptr.
         if newptr \<noteq> NULL then seqp (memmove newptr p old) (seqp (mm_free p) (ret newptr))
         else ret newptr) s)"
proof -
  obtain q A1 where m: "a_malloc n A = (q, A1)" by force
  note ok = rep_a_ok [OF rep] and d = cut_SomeD [OF c] and h = cut_held [OF c]
  note hb = held_bounds [OF ok h] and mh = a_malloc_held [OF ok m]
  obtain s1 where s1: "mm_malloc n s = Inr (q, s1)" "rep s1 A1"
      "bytes_kept (used_bytes (abase A) (chunks A)) s s1"
    using mm_malloc_ok [OF rep _ n(2)] n(1) hb(2) m by auto
  let ?B = "used_bytes (abase A) us \<union> used_bytes (p - 8 + old) vs"
  have B: "?B \<subseteq> used_bytes (abase A) (chunks A)" using d by (auto simp: add.assoc)
  have kept1: "mem s1 b = mem s b" if "b \<in> ?B" for b
    using s1(3) B that by (auto simp: bytes_kept_def)
  show ?thesis
  proof (cases "q = NULL")
    case True
    have "mem s1 (p + i) = mem s (p + i)" if "0 \<le> i" "i < old - 16" for i
      using s1(3) held_in_used [OF h, of "p + i"] that by (simp add: bytes_kept_def)
    then show ?thesis using s1(1,2) kept1 m True
      by (simp add: realloc_done_def prog_eval bytes_kept_def)
  next
    case False
    obtain k where k: "block_need n \<le> k" "held A1 = insert (q - 8, k) (held A)"
        "\<forall>(y, i)\<in>held A. q - 8 + k \<le> y \<or> y + i \<le> q - 8"
      using mh(2) [OF False] by (elim exE conjE)
    have far: "q - 8 + k \<le> y \<or> y + i \<le> q - 8" if "(y, i) \<in> held A" for y i
      using bspec [OF k(3) that] by simp
    note ok1 = rep_a_ok [OF s1(2)]
    have kn: "old + 16 \<le> k" using block_need_bounds(3) [of n] k(1) n(1) by simp
    have h1: "(q - 8, k) \<in> held A1" "(p - 8, old) \<in> held A1" using k(2) h by simp_all
    obtain us1 vs1 where c1: "chunks A1 = us1 @ (k, True) # vs1" "q - 8 = abase A1 + extent us1"
      using held_split [OF h1(1)] by blast
    obtain us2 vs2 where c2: "chunks A1 = us2 @ (old, True) # vs2" "p - 8 = abase A1 + extent us2"
      using held_split [OF h1(2)] by blast
    have lay1: "lay s1 (chunks A1)" and ab1: "abase A1 = base s1" using s1(2) by (simp_all add: rep_def)
    have ih: "in_heap s1 p old"
      using held_bounds(4,5) [OF ok1 h1(2)] lay_base(1,4,6) [OF lay1] ab1
      by (simp add: in_heap_def atop_def)
    let ?s2 = "s1\<lparr>mem := move (mem s1) q p old\<rparr>"
    have mv: "memmove q p old s1 = Inr ((), ?s2)" "rep ?s2 A1"
      using memmove_block_ok [OF s1(2) c1 _ kn ih] hb(2) by simp_all
    have cut2: "cut (abase A1) (chunks A1) (p - 8) = Some (us2, (old, True), vs2)"
      using cut_append [of us2 "p - 8" "abase A1"] c2 a_ok_sizes [OF ok1] by simp
    obtain s3 where s3: "mm_free p ?s2 = Inr ((), s3)" "rep s3 (a_free p A1)"
        "quiet (used_bytes (abase A1) us2 \<union> used_bytes (p - 8 + old) vs2) ?s2 s3"
      using mm_free_ok [OF mv(2) cut2] by blast
    have kept3: "mem s3 b = mem ?s2 b"
      if "b \<in> used_bytes (abase A1) (chunks A1)" "b < p \<or> p + old - 16 \<le> b" for b
      using s3(3) that c2 by (auto simp: quiet_def add.assoc)
    have "mem s3 b = mem s b" if b: "b \<in> ?B" for b
    proof -
      have bu: "b \<in> used_bytes (abase A) (chunks A)" using B b by blast
      then have "b \<in> used_bytes (abase A1) (chunks A1)" using k(2) by (auto simp: used_bytes_held)
      moreover have "b < p \<or> p + old - 16 \<le> b"
      proof -
        have lay: "lay s (us @ [(old, True)] @ vs)" and "abase A = base s" using rep d by (simp_all add: rep_def)
        then show ?thesis using outer_used [OF lay, of "p - 8" b] b d by auto
      qed
      moreover have "b < q \<or> q + old \<le> b"
        using bu far kn by (fastforce simp: used_bytes_held)
      ultimately show ?thesis using kept3 kept1 [OF b] by (auto simp: move_def)
    qed
    moreover have "mem s3 (q + i) = mem s (p + i)" if i: "0 \<le> i" "i < old - 16" for i
    proof -
      have "q + i \<in> used_bytes (abase A1) (chunks A1)"
        using held_in_used [OF h1(1), of "q + i"] i kn by simp
      moreover have "q + i < p \<or> p + old - 16 \<le> q + i" using far [OF h] i kn by auto
      moreover have "p + i \<in> used_bytes (abase A) (chunks A)"
        using held_in_used [OF h, of "p + i"] i by simp
      ultimately show ?thesis
        using kept3 [of "q + i"] i s1(3) by (simp add: move_def bytes_kept_def)
    qed
    ultimately show ?thesis
      using s1(1) mv(1) s3(1,2) m False
      by (simp add: realloc_done_def prog_eval bytes_kept_def)
  qed
qed

section \<open>mm\_realloc\<close>

lemma mm_realloc_null:
  assumes "rep s A" and "- (2 ^ 63) \<le> sz" and "block_need sz < 2 ^ 32"
  shows "\<exists>s'. mm_realloc NULL sz s = Inr (NULL, s') \<and> rep s' (snd (a_realloc NULL sz A)) \<and>
      bytes_kept (used_bytes (abase A) (chunks A)) s s'"
  using mm_malloc_ok [OF assms]
  by (auto simp: mm_realloc_def prog_eval a_realloc_def)

lemma mm_realloc_zero:
  assumes rep: "rep s A" and c: "cut (abase A) (chunks A) (p - 8) = Some (us, (old, True), vs)"
  shows "\<exists>s'. mm_realloc p 0 s = Inr (NULL, s') \<and> rep s' (a_free p A) \<and>
      bytes_kept (used_bytes (abase A) us \<union> used_bytes (p - 8 + old) vs) s s'"
proof -
  have "0 < p" using held_bounds(6) [OF rep_a_ok [OF rep] cut_held [OF c]] by simp
  then show ?thesis
    using mm_free_ok [OF rep c] quiet_kept by (auto simp: mm_realloc_def prog_eval NULL_def)
qed

lemma mm_realloc_ok:
  assumes rep: "rep s A" and c: "cut (abase A) (chunks A) (p - 8) = Some (us, (old, True), vs)"
    and sz: "sz \<noteq> 0" "- (2 ^ 63) \<le> sz" "block_need (round_up sz + 16) < 2 ^ 32"
  shows "realloc_done s A p old (used_bytes (abase A) us \<union> used_bytes (p - 8 + old) vs)
      (a_realloc p sz A) (mm_realloc p sz s)"
proof -
  define x where "x = p - 8"
  note r = rep_cut [OF rep c, folded x_def]
  note lay = r(1) and x = r(3) and ch = r(2)
  have p: "p = x + 8" "p \<noteq> NULL" using r(4) x_def by (simp_all add: NULL_def)
  obtain psz pal nsz nal where pv: "prev_of us = (psz, pal)" and nx: "next_of vs = (nsz, nal)"
    by force
  note at = lay_at [OF lay x pv nx]
  let ?n = "round_up sz + 16"
  note ru = round_up_bounds [of sz] and bn = block_need_bounds [of ?n]
  have lng: "is_long (sz + 7)" "is_long ?n" using ru sz(2,3) bn by (simp_all add: is_long_def)
  have us: "\<not> pal \<Longrightarrow> us = butlast us @ [(psz, False)]" using prev_free_snoc [of us psz] pv by simp
  have vs: "\<not> nal \<Longrightarrow> vs = (nsz, False) # tl vs" using next_free_Cons [of vs nsz] nx by simp
  have ok: "sizes_ok us" "sizes_ok vs" "32 \<le> old" using lay_sizes [OF lay] by simp_all
  note e = sizes_ok_extent [OF ok(1)] sizes_ok_extent [OF ok(2)]
  have xs: "\<not> pal \<Longrightarrow> 32 \<le> psz \<and> extent us = extent (butlast us) + psz \<and> 0 \<le> extent (butlast us)"
    using us ok(1) sizes_ok_extent [of "butlast us"] sizes_ok_simps(3) [of "butlast us" "[(psz, False)]"]
      total_simps(3) [of "butlast us" "[(psz, False)]"] by simp
  have ys: "\<not> nal \<Longrightarrow> 32 \<le> nsz \<and> extent vs = nsz + extent (tl vs) \<and> 0 \<le> extent (tl vs)"
    using vs ok(2) sizes_ok_extent [of "tl vs"] sizes_ok_simps(2) [of nsz False "tl vs"]
      total_simps(2) [of nsz False "tl vs"] by simp
  have long: "\<not> pal \<Longrightarrow> is_long (old + psz)" "\<not> nal \<Longrightarrow> is_long (old + nsz)"
      "\<not> pal \<Longrightarrow> \<not> nal \<Longrightarrow> is_long (old + psz + nsz)"
    by (rule lay_long [OF lay]; use xs ys e ok in simp)+
  note tests = free_and_enough_ok [OF at(5,6) long(1), of ?n] free_and_enough_ok [OF at(7,8) long(2), of ?n]
    both_free_and_enough_ok [OF at(5,6,7,8), of old ?n]
  let ?move = "bnd (mm_malloc ?n) (\<lambda>newptr.
      if newptr \<noteq> NULL then seqp (memmove newptr p old) (seqp (mm_free p) (ret newptr)) else ret newptr)"
  let ?a = "x - psz" and ?y = "x + old"
  let ?prev = "seqp (pull_free_block ?a) (bnd (block_size ?a) (\<lambda>sp. bnd (long_add old sp) (\<lambda>t.
      seqp (block_set_size_and_allocated ?a t 1)
     (seqp (memmove (payload ?a 0) p old) (ret (payload ?a 0))))))"
  let ?next = "bnd (block_next x) (\<lambda>nxt. seqp (pull_free_block nxt) (bnd (block_size nxt) (\<lambda>sn.
      bnd (long_add old sn) (\<lambda>t. seqp (block_set_size_and_allocated x t 1) (ret (payload x 0))))))"
  let ?both = "seqp (pull_free_block ?y) (seqp (pull_free_block ?a) (bnd (block_size ?y) (\<lambda>sn.
      bnd (long_add old sn) (\<lambda>t. bnd (block_size ?a) (\<lambda>sp. bnd (long_add t sp) (\<lambda>u.
      seqp (block_set_size_and_allocated ?a u 1)
     (seqp (memmove (payload ?a 0) p old) (ret (payload ?a 0)))))))))"
  have xp: "payload_to_block p = x" by (simp add: payload_to_block_def x_def)
  have run: "mm_realloc p sz s =
     (if ?n \<le> old then Inr (p, s)
      else if \<not> pal \<and> ?n \<le> old + psz then ?prev s
      else if \<not> nal \<and> ?n \<le> old + nsz then ?next s
      else if \<not> pal \<and> \<not> nal \<and> ?n \<le> old + psz + nsz then ?both s
      else ?move s)"
    unfolding mm_realloc_def Let_def xp
    using p(2) sz(1) lng tests long
    by (simp add: bnd_apply [of "align sz"] bnd_apply [of "long_add _ _"] align_ok long_add_apply
        TAGS_SIZE_def WORD_SIZE_def bnd_apply [of "block_size x"] bnd_apply [of "block_next x"]
        bnd_apply [of "block_prev x"] bnd_apply [of "free_and_enough _ _ _"] ret_apply
        bnd_apply [of "both_free_and_enough _ _ _ _"] at(1,3,4))
  let ?B = "used_bytes (abase A) us \<union> used_bytes (p - 8 + old) vs"
  have px: "p - 8 = x" "p - psz = ?a + 8" using p(1) by simp_all
  have ar: "a_realloc p sz A =
     (if ?n \<le> old then (p, A)
      else if \<not> pal \<and> ?n \<le> old + psz then
        (?a + 8, A\<lparr>chunks := butlast us @ (psz + old, True) # vs, order := remove1 ?a (order A)\<rparr>)
      else if \<not> nal \<and> ?n \<le> old + nsz then
        (p, A\<lparr>chunks := us @ (old + nsz, True) # tl vs, order := remove1 ?y (order A)\<rparr>)
      else if \<not> pal \<and> \<not> nal \<and> ?n \<le> old + psz + nsz then
        (?a + 8, A\<lparr>chunks := butlast us @ (psz + old + nsz, True) # tl vs,
                  order := remove1 ?a (remove1 ?y (order A))\<rparr>)
      else (let (q, A') = a_malloc ?n A in if q = NULL then (NULL, A') else (q, a_free p A')))"
    using a_realloc_run [OF c p(2) sz(1) pv nx] by (simp only: px)
  have pp: "p = ?a + psz + 8" using p(1) by simp
  consider (stay) "?n \<le> old" | (prev) "\<not> ?n \<le> old" "\<not> pal" "?n \<le> old + psz"
    | (nxt) "\<not> ?n \<le> old" "\<not> (\<not> pal \<and> ?n \<le> old + psz)" "\<not> nal" "?n \<le> old + nsz"
    | (both) "\<not> ?n \<le> old" "\<not> (\<not> pal \<and> ?n \<le> old + psz)" "\<not> (\<not> nal \<and> ?n \<le> old + nsz)"
        "\<not> pal" "\<not> nal" "?n \<le> old + psz + nsz"
    | (move) "\<not> ?n \<le> old" "\<not> (\<not> pal \<and> ?n \<le> old + psz)" "\<not> (\<not> nal \<and> ?n \<le> old + nsz)"
        "\<not> (\<not> pal \<and> \<not> nal \<and> ?n \<le> old + psz + nsz)"
    by blast
  then show ?thesis
  proof cases
    case stay
    then show ?thesis using rep by (simp add: run ar realloc_done_def bytes_kept_def)
  next
    case prev
    have ch': "chunks A = butlast us @ (psz, False) # (old, True) # vs"
      using ch us [OF prev(2)] by (metis append.assoc append_Cons append_Nil)
    have a: "?a = base s + extent (butlast us)" using x xs prev by simp
    have "used_bytes (base s) us = used_bytes (base s) (butlast us)"
      by (subst us [OF prev(2)]) simp
    then show ?thesis
      using realloc_prev [OF rep ch' a pp] prev by (simp add: run ar px r(5))
  next
    case nxt
    have ch': "chunks A = us @ (old, True) # (nsz, False) # tl vs" using ch vs [OF nxt(3)] by simp
    have "used_bytes (x + old) vs = used_bytes (x + old + nsz) (tl vs)"
      by (subst vs [OF nxt(3)]) simp
    then show ?thesis
      using realloc_next [OF rep ch' x, folded p(1)]
      by (simp only: run ar px r(5) nxt if_False if_True simp_thms)
  next
    case both
    have ch': "chunks A = butlast us @ (psz, False) # (old, True) # (nsz, False) # tl vs"
      using ch us [OF both(4)] vs [OF both(5)] by (metis append.assoc append_Cons append_Nil)
    have small: "\<not> ?n \<le> old + psz" "\<not> ?n \<le> old + nsz" using both by blast+
    have a: "?a = base s + extent (butlast us)" and yy: "?y = ?a + psz + old"
      using x xs both by simp_all
    have "used_bytes (base s) us = used_bytes (base s) (butlast us)"
      by (subst us [OF both(4)]) simp
    moreover have "used_bytes (x + old) vs = used_bytes (x + old + nsz) (tl vs)"
      by (subst vs [OF both(5)]) simp
    ultimately show ?thesis
      using realloc_both [OF rep ch' a pp yy]
      by (simp only: run ar px r(5) both small if_False if_True simp_thms)
  next
    case move
    then have "a_realloc p sz A =
        (let (q, A') = a_malloc ?n A in if q = NULL then (NULL, A') else (q, a_free p A'))"
      by (simp only: ar if_False)
    moreover have "mm_realloc p sz s = ?move s" using move by (simp only: run if_False)
    ultimately show ?thesis using realloc_move [OF rep c, of ?n] sz(3) move(1) by simp
  qed
qed

end
