(* ===== verification/Alloc_Spec.thy ===== *)
theory Alloc_Spec
  imports Prelude
begin

text \<open>
  What a client of the allocator relies on, as interfaces.  A state has an
  invariant, a finite map from live payload addresses to their sizes, and
  bytes.  \<open>allocator\<close> is the contract of \<open>malloc\<close> and \<open>free\<close>, \<open>resizer\<close> adds
  \<open>realloc\<close>, and \<open>writer\<close> adds the write of a range of bytes into a payload.
  The lemmas inside are those a client proves once from the contracts.
\<close>

type_synonym payloads = "int \<Rightarrow> int option"

definition payload_kept :: "payloads \<Rightarrow> (int \<Rightarrow> 8 word) \<Rightarrow> (int \<Rightarrow> 8 word) \<Rightarrow> bool" where
  "payload_kept L m m' \<longleftrightarrow> (\<forall>p k i. L p = Some k \<longrightarrow> 0 \<le> i \<longrightarrow> i < k \<longrightarrow> m' (p + i) = m (p + i))"

lemma payload_kept_refl: "payload_kept L m m"
  by (simp add: payload_kept_def)

lemma payload_kept_trans:
  "payload_kept L m m' \<Longrightarrow> payload_kept L m' m'' \<Longrightarrow> payload_kept L m m''"
  by (simp add: payload_kept_def)

lemma payload_kept_mono:
  "payload_kept L m m' \<Longrightarrow> L' \<subseteq>\<^sub>m L \<Longrightarrow> payload_kept L' m m'"
  by (fastforce simp: payload_kept_def map_le_def dom_def)

lemma payload_keptD:
  "payload_kept L m m' \<Longrightarrow> L p = Some k \<Longrightarrow> 0 \<le> i \<Longrightarrow> i < k \<Longrightarrow> m' (p + i) = m (p + i)"
  by (simp add: payload_kept_def)

locale allocator =
  fixes inv :: "'s \<Rightarrow> bool"
    and blocks :: "'s \<Rightarrow> payloads"
    and byte :: "'s \<Rightarrow> int \<Rightarrow> 8 word"
    and lo :: "'s \<Rightarrow> int"
    and hi :: "'s \<Rightarrow> int"
    and good :: "int \<Rightarrow> bool"
    and malloc :: "int \<Rightarrow> ('s, int) prog"
    and free :: "int \<Rightarrow> ('s, unit) prog"
  assumes malloc: "inv s \<Longrightarrow> good sz \<Longrightarrow>
      \<exists>q s'. malloc sz s = Inr (q, s') \<and> inv s' \<and> payload_kept (blocks s) (byte s) (byte s') \<and>
        (q = 0 \<and> blocks s' = blocks s \<or>
         q \<noteq> 0 \<and> blocks s q = None \<and> (\<exists>k. sz \<le> k \<and> blocks s' = (blocks s)(q \<mapsto> k)))"
    and free: "inv s \<Longrightarrow> blocks s p = Some k \<Longrightarrow>
      \<exists>s'. free p s = Inr ((), s') \<and> inv s' \<and> blocks s' = (blocks s)(p := None) \<and>
        payload_kept (blocks s') (byte s) (byte s')"
    and region: "inv s \<Longrightarrow> blocks s p = Some k \<Longrightarrow>
      0 < p \<and> p mod 8 = 0 \<and> 16 \<le> k \<and> lo s \<le> p \<and> p + k \<le> hi s + 1"
    and apart: "inv s \<Longrightarrow> blocks s p = Some k \<Longrightarrow> blocks s q = Some m \<Longrightarrow> p \<noteq> q \<Longrightarrow>
      p + k \<le> q \<or> q + m \<le> p"
begin

text \<open>A new block is apart from every block that was live before.\<close>

lemma malloc_apart:
  assumes "inv s" and "good sz" and "malloc sz s = Inr (q, s')" and "q \<noteq> 0" and "blocks s p = Some m"
  obtains k where "sz \<le> k" and "blocks s' q = Some k" and "blocks s' p = Some m"
    and "p + m \<le> q \<or> q + k \<le> p"
proof -
  obtain k where k: "inv s'" "blocks s q = None" "sz \<le> k" "blocks s' = (blocks s)(q \<mapsto> k)"
    using malloc [OF assms(1,2)] assms(3,4) by auto
  then have "p \<noteq> q" using assms(5) by auto
  then have "blocks s' q = Some k" "blocks s' p = Some m" using k assms(5) by auto
  then show thesis using that apart [OF k(1) _ _ \<open>p \<noteq> q\<close>] k(3) by blast
qed

text \<open>Allocating and freeing leaves the client where it was.\<close>

lemma malloc_free:
  assumes "inv s" and "good sz" and "malloc sz s = Inr (q, s1)" and "q \<noteq> 0"
  obtains s2 where "free q s1 = Inr ((), s2)" and "inv s2" and "blocks s2 = blocks s"
    and "payload_kept (blocks s) (byte s) (byte s2)"
proof -
  obtain k where k: "inv s1" "blocks s q = None" "blocks s1 = (blocks s)(q \<mapsto> k)"
    and kept: "payload_kept (blocks s) (byte s) (byte s1)"
    using malloc [OF assms(1,2)] assms(3,4) by auto
  then obtain s2 where s2: "free q s1 = Inr ((), s2)" "inv s2" "blocks s2 = (blocks s1)(q := None)"
      "payload_kept (blocks s2) (byte s1) (byte s2)"
    using free [OF k(1), of q k] by auto
  moreover have "blocks s2 = blocks s" using s2(3) k(2,3) by auto
  ultimately show thesis using that kept payload_kept_trans by metis
qed

text \<open>Freeing a list of live payloads, in any order, frees exactly those.\<close>

fun free_list :: "int list \<Rightarrow> ('s, unit) prog" where
  "free_list [] = ret ()"
| "free_list (p # ps) = seqp (free p) (free_list ps)"

lemma free_list:
  assumes "inv s" and "distinct ps" and "set ps \<subseteq> dom (blocks s)"
  shows "\<exists>s'. free_list ps s = Inr ((), s') \<and> inv s' \<and> blocks s' = (blocks s) |` (- set ps) \<and>
     payload_kept (blocks s') (byte s) (byte s')"
  using assms
proof (induction ps arbitrary: s)
  case Nil
  then show ?case by (simp add: ret_apply payload_kept_refl)
next
  case (Cons p ps)
  then obtain k where "blocks s p = Some k" by auto
  then obtain s1 where s1: "free p s = Inr ((), s1)" "inv s1" "blocks s1 = (blocks s)(p := None)"
      "payload_kept (blocks s1) (byte s) (byte s1)"
    using free [OF Cons.prems(1)] by blast
  have "set ps \<subseteq> dom (blocks s1)" using Cons.prems s1(3) by auto
  then obtain s2 where s2: "free_list ps s1 = Inr ((), s2)" "inv s2"
      "blocks s2 = (blocks s1) |` (- set ps)" "payload_kept (blocks s2) (byte s1) (byte s2)"
    using Cons.IH [OF s1(2)] Cons.prems(2) by auto
  have "blocks s2 = (blocks s) |` (- set (p # ps))"
    using s2(3) s1(3) by (auto simp: restrict_map_def fun_eq_iff)
  moreover have "blocks s2 \<subseteq>\<^sub>m blocks s1" using s2(3) by (auto simp: map_le_def restrict_map_def dom_def)
  then have "payload_kept (blocks s2) (byte s) (byte s1)" by (rule payload_kept_mono [OF s1(4)])
  then have "payload_kept (blocks s2) (byte s) (byte s2)" using s2(4) by (rule payload_kept_trans)
  ultimately show ?case using s1(1) s2(1,2) by (simp add: seqp_apply)
qed

end

locale resizer = allocator +
  fixes realloc :: "int \<Rightarrow> int \<Rightarrow> ('a, int) prog"
  assumes realloc: "inv s \<Longrightarrow> good sz \<Longrightarrow> blocks s p = Some k \<Longrightarrow>
      \<exists>q s'. realloc p sz s = Inr (q, s') \<and> inv s' \<and>
        payload_kept ((blocks s)(p := None)) (byte s) (byte s') \<and>
        (q = 0 \<and> blocks s' = blocks s \<and> payload_kept (blocks s) (byte s) (byte s') \<or>
         q \<noteq> 0 \<and> ((blocks s)(p := None)) q = None \<and>
         (\<exists>m. sz \<le> m \<and> k \<le> m \<and> blocks s' = ((blocks s)(p := None))(q \<mapsto> m)) \<and>
         (\<forall>i. 0 \<le> i \<longrightarrow> i < k \<longrightarrow> byte s' (q + i) = byte s (p + i)))"
begin

text \<open>The data of a block survives a chain of calls of \<open>realloc\<close> on it.\<close>

fun realloc_list :: "int \<Rightarrow> int list \<Rightarrow> ('a, int) prog" where
  "realloc_list p [] = ret p"
| "realloc_list p (sz # szs) =
     bnd (realloc p sz) (\<lambda>q. if q = 0 then ret 0 else realloc_list q szs)"

lemma realloc_list:
  assumes "inv s" and "\<forall>sz\<in>set szs. good sz" and "blocks s p = Some k"
  shows "\<exists>q s'. realloc_list p szs s = Inr (q, s') \<and> inv s' \<and>
     (q \<noteq> 0 \<longrightarrow> (\<exists>m. k \<le> m \<and> (szs \<noteq> [] \<longrightarrow> last szs \<le> m) \<and> blocks s' q = Some m) \<and>
        (\<forall>i. 0 \<le> i \<longrightarrow> i < k \<longrightarrow> byte s' (q + i) = byte s (p + i)))"
  using assms
proof (induction szs arbitrary: s p k)
  case Nil
  then show ?case by (auto simp: ret_apply)
next
  case (Cons sz szs)
  obtain q s1 where r: "realloc p sz s = Inr (q, s1)" "inv s1"
      "q \<noteq> 0 \<Longrightarrow> \<exists>m. sz \<le> m \<and> k \<le> m \<and> blocks s1 q = Some m"
      "q \<noteq> 0 \<Longrightarrow> \<forall>i. 0 \<le> i \<longrightarrow> i < k \<longrightarrow> byte s1 (q + i) = byte s (p + i)"
    using realloc [OF Cons.prems(1) _ Cons.prems(3), of sz] Cons.prems(2) by auto
  show ?case
  proof (cases "q = 0")
    case True
    then show ?thesis using r by (simp add: bnd_apply ret_apply)
  next
    case False
    then obtain m where m: "sz \<le> m" "k \<le> m" "blocks s1 q = Some m" using r(3) by blast
    obtain q2 s2 where s2: "realloc_list q szs s1 = Inr (q2, s2)" "inv s2"
        "q2 \<noteq> 0 \<Longrightarrow> \<exists>m'. m \<le> m' \<and> (szs \<noteq> [] \<longrightarrow> last szs \<le> m') \<and> blocks s2 q2 = Some m'"
        "q2 \<noteq> 0 \<Longrightarrow> \<forall>i. 0 \<le> i \<longrightarrow> i < m \<longrightarrow> byte s2 (q2 + i) = byte s1 (q + i)"
      using Cons.IH [OF r(2) _ m(3)] Cons.prems(2) by auto
    have "\<exists>m'. k \<le> m' \<and> last (sz # szs) \<le> m' \<and> blocks s2 q2 = Some m'" if "q2 \<noteq> 0"
      using s2(3) [OF that] m by (cases szs) fastforce+
    moreover have "byte s2 (q2 + i) = byte s (p + i)" if "q2 \<noteq> 0" "0 \<le> i" "i < k" for i
      using s2(4) [OF that(1)] r(4) [OF False] that m(2) by auto
    ultimately show ?thesis using r(1) s2(1,2) False by (simp add: bnd_apply)
  qed
qed

end

locale writer = allocator +
  fixes fill :: "int \<Rightarrow> int \<Rightarrow> int \<Rightarrow> ('a, unit) prog"
  assumes fill: "inv s \<Longrightarrow> blocks s p = Some k \<Longrightarrow> 0 \<le> n \<Longrightarrow> n \<le> k \<Longrightarrow>
      \<exists>s'. fill p c n s = Inr ((), s') \<and> inv s' \<and> blocks s' = blocks s \<and> lo s' = lo s \<and> hi s' = hi s \<and>
        payload_kept ((blocks s)(p := None)) (byte s) (byte s') \<and>
        (\<forall>i. 0 \<le> i \<longrightarrow> i < k \<longrightarrow> byte s' (p + i) = (if i < n then word_of_int c else byte s (p + i)))"
begin

text \<open>What was written into one payload is still there after another block is freed or allocated.\<close>

lemma fill_malloc:
  assumes "inv s" and "blocks s p = Some k" and "0 \<le> n" and "n \<le> k" and "good sz"
    and "fill p c n s = Inr ((), s1)" and "malloc sz s1 = Inr (q, s2)" and "0 \<le> i" and "i < n"
  shows "byte s2 (p + i) = word_of_int c"
proof -
  have 1: "inv s1" "blocks s1 = blocks s" "byte s1 (p + i) = word_of_int c"
    using fill [OF assms(1-4), of c] assms(4,6,8,9) by auto
  have "payload_kept (blocks s1) (byte s1) (byte s2)"
    using malloc [OF 1(1) assms(5)] assms(7) by auto
  then show ?thesis using 1 assms(2,4,8,9) by (simp add: payload_kept_def)
qed

lemma fill_free:
  assumes "inv s" and "blocks s p = Some k" and "0 \<le> n" and "n \<le> k" and "blocks s q = Some m" and "q \<noteq> p"
    and "fill p c n s = Inr ((), s1)" and "free q s1 = Inr ((), s2)" and "0 \<le> i" and "i < n"
  shows "byte s2 (p + i) = word_of_int c"
proof -
  have 1: "inv s1" "blocks s1 = blocks s" "byte s1 (p + i) = word_of_int c"
    using fill [OF assms(1-4), of c] assms(4,7,9,10) by auto
  have "blocks s2 = (blocks s)(q := None)" "payload_kept (blocks s2) (byte s1) (byte s2)"
    using free [OF 1(1), of q m] 1(2) assms(5,8) by auto
  then show ?thesis using 1 assms(2,4,6,9,10) by (simp add: payload_kept_def)
qed

end

text \<open>
  How much memory the calls may take: \<open>used\<close> counts what has been taken so far,
  \<open>cap\<close> is the limit, and a request of size \<open>sz\<close> takes at most \<open>need sz\<close> and
  fails only when the limit stands in the way.
\<close>

locale bounded = resizer +
  fixes used :: "'a \<Rightarrow> int"
    and cap :: "'a \<Rightarrow> int"
    and need :: "int \<Rightarrow> int"
  assumes malloc_used: "inv s \<Longrightarrow> good sz \<Longrightarrow> malloc sz s = Inr (q, s') \<Longrightarrow>
      used s \<le> used s' \<and> used s' \<le> used s + need sz \<and> cap s' = cap s \<and> lo s' = lo s \<and>
      (q = 0 \<longrightarrow> cap s < used s + need sz)"
    and free_used: "inv s \<Longrightarrow> blocks s p = Some k \<Longrightarrow> free p s = Inr ((), s') \<Longrightarrow>
      used s' = used s \<and> cap s' = cap s \<and> lo s' = lo s"
    and realloc_used: "inv s \<Longrightarrow> good sz \<Longrightarrow> blocks s p = Some k \<Longrightarrow> realloc p sz s = Inr (q, s') \<Longrightarrow>
      used s \<le> used s' \<and> used s' \<le> used s + need sz \<and> cap s' = cap s \<and> lo s' = lo s \<and>
      (q = 0 \<longrightarrow> cap s < used s + need sz)"
    and need_nonneg: "0 \<le> need sz"
begin

text \<open>With room for all of a list of requests, every one of them gets a block.\<close>

fun malloc_list :: "int list \<Rightarrow> ('a, int list) prog" where
  "malloc_list [] = ret []"
| "malloc_list (sz # szs) = bnd (malloc sz) (\<lambda>q. bnd (malloc_list szs) (\<lambda>qs. ret (q # qs)))"

lemma malloc_list:
  assumes "inv s" and "\<forall>sz\<in>set szs. good sz" and "used s + sum_list (map need szs) \<le> cap s"
  shows "\<exists>qs s'. malloc_list szs s = Inr (qs, s') \<and> inv s' \<and> length qs = length szs \<and> 0 \<notin> set qs"
  using assms
proof (induction szs arbitrary: s)
  case Nil
  then show ?case by (simp add: ret_apply)
next
  case (Cons sz szs)
  have good: "good sz" using Cons.prems(2) by simp
  have pos: "0 \<le> sum_list (map need szs)" by (induction szs) (simp_all add: need_nonneg)
  obtain q s1 where m: "malloc sz s = Inr (q, s1)" "inv s1" using malloc [OF Cons.prems(1) good] by blast
  note u = malloc_used [OF Cons.prems(1) good m(1)]
  have "q \<noteq> 0" using u Cons.prems(3) pos by auto
  moreover obtain qs s2 where "malloc_list szs s1 = Inr (qs, s2)" "inv s2" "length qs = length szs" "0 \<notin> set qs"
    using Cons.IH [OF m(2)] u Cons.prems(2,3) by auto
  ultimately show ?case using m(1) by (simp add: bnd_apply ret_apply)
qed

end

end
