(* ===== verification/Heap_View.thy ===== *)
theory Heap_View
  imports Realloc Alloc_Spec
begin

text \<open>
  Reading the abstract heap back from a heap: \<open>abs_heap\<close> walks the blocks by
  their headers, as the heap printer of the driver does, and the free list by
  its forward links.  On a heap that satisfies the invariant the walk finds
  exactly its abstraction, so the invariant is \<open>heap_inv s\<close> and the payload map
  of a heap is a function of it.  With these, the operations of the allocator
  meet the contracts of \<open>Alloc_Spec\<close>.
\<close>

section \<open>The walks\<close>

fun walk :: "nat \<Rightarrow> (int \<Rightarrow> int) \<Rightarrow> int \<Rightarrow> int \<Rightarrow> chunk list" where
  "walk 0 w a e = []"
| "walk (Suc n) w a e =
     (if a = e then []
      else (w a AND - 2, odd (w a)) # walk n w (a + (w a AND - 2)) e)"

fun follow :: "nat \<Rightarrow> (int \<Rightarrow> int) \<Rightarrow> int \<Rightarrow> int \<Rightarrow> int list" where
  "follow 0 w first x = []"
| "follow (Suc n) w first x = x # (if w (x + 8) = first then [] else follow n w first (w (x + 8)))"

definition abs_heap :: "heap \<Rightarrow> aheap" where
  "abs_heap s =
     \<lparr>abase = base s,
      chunks = walk (heap_words s) (wv s) (base s) (epilogue s),
      order = (if flist_first s = NULL then []
               else follow (heap_words s) (wv s) (flist_first s) (flist_first s)),
      alimit = mem_max_addr s\<rparr>"

lemma walk_ok:
  "sizes_ok bs \<Longrightarrow> tags_ok w (place a bs) \<Longrightarrow> length bs \<le> n \<Longrightarrow> e = a + extent bs \<Longrightarrow>
     walk n w a e = bs"
proof (induction bs arbitrary: a n)
  case Nil
  then show ?case by (cases n) simp_all
next
  case (Cons b bs)
  obtain sz al where b: "b = (sz, al)" by force
  obtain n' where n: "n = Suc n'" using Cons.prems(3) by (cases n) auto
  have w: "w a = tag sz al" and ok: "32 \<le> sz" "sz mod 8 = 0" "sizes_ok bs"
    using Cons.prems(1,2) b by auto
  have "w a AND - 2 = sz" "odd (w a) = al"
    using tag_parity [OF ok(2), of al] w by (simp_all add: masks odd_iff_mod_2_eq_one)
  moreover have "a \<noteq> e" using Cons.prems(4) b ok sizes_ok_extent [OF ok(3)] by simp
  moreover have "walk n' w (a + sz) e = bs"
    using Cons.prems b ok n by (intro Cons.IH) simp_all
  ultimately show ?case using n b by simp
qed

lemma follow_ok:
  "chain w (x # xs @ [first]) \<Longrightarrow> first \<notin> set xs \<Longrightarrow> length (x # xs) \<le> n \<Longrightarrow>
     follow n w first x = x # xs"
proof (induction xs arbitrary: x n)
  case Nil
  then show ?case by (cases n) (simp_all add: link_def)
next
  case (Cons y ys)
  obtain n' where n: "n = Suc n'" using Cons.prems(3) by (cases n) auto
  have "w (x + 8) = y" "y \<noteq> first" using Cons.prems(1,2) by (auto simp: link_def)
  moreover have "follow n' w first y = y # ys"
    using Cons.prems n by (intro Cons.IH) simp_all
  ultimately show ?case using n by simp
qed

lemma rep_abs_heap:
  assumes rep: "rep s A"
  shows "abs_heap s = A"
proof -
  have lay: "lay s (chunks A)" and fl: "free_links s (order A)" and ab: "abase A = base s"
    and lim: "alimit A = mem_max_addr s" using rep by (simp_all add: rep_def)
  have "int (length (chunks A)) \<le> (mem_brk s - mem_start_brk s) div 8"
    using extent_length [OF lay_sizes [OF lay]] lay_base(4,6) [OF lay] by simp
  then have "walk (heap_words s) (wv s) (base s) (epilogue s) = chunks A"
    using lay lay_base(5) [OF lay] by (intro walk_ok) (simp_all add: lay_def heap_words_def mm_consts)
  moreover have "(if flist_first s = NULL then []
      else follow (heap_words s) (wv s) (flist_first s) (flist_first s)) = order A"
  proof (cases "order A")
    case Nil
    then show ?thesis using fl by (simp add: free_links_def)
  next
    case (Cons x xs)
    have x: "flist_first s = x" using fl Cons by (simp add: free_links_def)
    have "x \<in> frees (abase A) (chunks A)" using rep Cons by (auto simp: rep_def)
    then have "0 < x" using frees_bounds(1) [OF lay_sizes [OF lay]] ab lay_base(8) [OF lay] by fastforce
    moreover have "follow (heap_words s) (wv s) x x = x # xs"
      using fl Cons order_length [OF rep] by (intro follow_ok) (simp_all add: free_links_def)
    ultimately show ?thesis using x Cons by (simp add: NULL_def)
  qed
  ultimately show ?thesis using ab lim by (simp add: abs_heap_def)
qed

section \<open>The invariant and the payloads of a heap\<close>

definition heap_inv :: "heap \<Rightarrow> bool" where
  "heap_inv s \<longleftrightarrow> rep s (abs_heap s)"

definition payloads :: "heap \<Rightarrow> payloads" where
  "payloads s = live (abs_heap s)"

lemma heap_invI: "rep s A \<Longrightarrow> heap_inv s"
  using rep_abs_heap [of s A] by (simp add: heap_inv_def)

lemma payloads_rep: "rep s A \<Longrightarrow> payloads s = live A"
  using rep_abs_heap [of s A] by (simp add: payloads_def)

lemma heap_invD: "heap_inv s \<Longrightarrow> rep s (abs_heap s)"
  by (simp add: heap_inv_def)

text \<open>The sizes for which no conversion in the code overflows.\<close>

definition size_ok :: "int \<Rightarrow> bool" where
  "size_ok sz \<longleftrightarrow> 0 < sz \<and> sz < 2 ^ 32 - 64"

lemma size_ok_bounds:
  assumes "size_ok sz"
  shows "sz \<noteq> 0" and "- (2 ^ 63) \<le> sz" and "block_need sz < 2 ^ 32"
    and "block_need (round_up sz + 16) < 2 ^ 32"
proof -
  have s: "0 < sz" "sz < 2 ^ 32 - 64" using assms by (simp_all add: size_ok_def)
  show "sz \<noteq> 0" "- (2 ^ 63) \<le> sz" using s by simp_all
  have r: "round_up sz < sz + 8" "round_up (round_up sz + 16) < round_up sz + 24"
    using round_up_bounds(2) [of sz] round_up_bounds(2) [of "round_up sz + 16"] by simp_all
  show "block_need sz < 2 ^ 32" "block_need (round_up sz + 16) < 2 ^ 32"
    using s r by (auto simp: block_need_def max_def)
qed

text \<open>The payload map after the chunks have changed.\<close>

lemma live_update:
  assumes A: "sizes_ok (chunks A)" and A': "sizes_ok (chunks A')"
    and h: "held A' = insert (q - 8, k + 16) (held A - {(p - 8, m + 16)})"
    and p: "live A p = Some m" and q: "((live A)(p := None)) q = None"
  shows "live A' = ((live A)(p := None))(q \<mapsto> k)"
proof
  fix r
  have "live A' r = Some j \<longleftrightarrow> (((live A)(p := None))(q \<mapsto> k)) r = Some j" for j
    using live_held [OF A, of r j] live_held [OF A', of r j] h p q by auto
  then show "live A' r = (((live A)(p := None))(q \<mapsto> k)) r" by (metis not_None_eq)
qed

lemma live_insert:
  assumes A: "sizes_ok (chunks A)" and A': "sizes_ok (chunks A')"
    and h: "held A' = insert (q - 8, k + 16) (held A)" and q: "live A q = None"
  shows "live A' = (live A)(q \<mapsto> k)"
proof
  fix r
  have "live A' r = Some j \<longleftrightarrow> ((live A)(q \<mapsto> k)) r = Some j" for j
    using live_held [OF A, of r j] live_held [OF A', of r j] h q by auto
  then show "live A' r = ((live A)(q \<mapsto> k)) r" by (metis not_None_eq)
qed

lemma live_remove:
  assumes A: "sizes_ok (chunks A)" and A': "sizes_ok (chunks A')"
    and h: "held A' = held A - {(p - 8, m + 16)}" and p: "live A p = Some m"
  shows "live A' = (live A)(p := None)"
proof
  fix r
  have "live A' r = Some j \<longleftrightarrow> ((live A)(p := None)) r = Some j" for j
    using live_held [OF A, of r j] live_held [OF A', of r j] h p by (cases "r = p") (simp_all, blast?)
  then show "live A' r = ((live A)(p := None)) r" by (metis not_None_eq)
qed

lemma rep_sizes: "rep s A \<Longrightarrow> sizes_ok (chunks A)"
  by (simp add: rep_a_ok a_ok_sizes)

text \<open>The bytes outside the chunk of one payload are the bytes of the other payloads.\<close>

lemma kept_payloads:
  assumes ok: "a_ok A" and kept: "bytes_kept (used_bytes (abase A) (chunks A)) s s'"
  shows "payload_kept (live A) (mem s) (mem s')"
  unfolding payload_kept_def
proof clarify
  fix p k i :: int
  assume "live A p = Some k" and i: "0 \<le> i" "i < k"
  then have "(p - 8, k + 16) \<in> held A" using live_held [OF a_ok_sizes [OF ok]] by blast
  then have "p + i \<in> used_bytes (abase A) (chunks A)" using held_in_used [of "p - 8" "k + 16" A "p + i"] i by simp
  then show "mem s' (p + i) = mem s (p + i)" using kept by (simp add: bytes_kept_def)
qed

lemma kept_others:
  assumes ok: "a_ok A" and c: "cut (abase A) (chunks A) (p - 8) = Some (us, (k + 16, True), vs)"
    and kept: "bytes_kept (used_bytes (abase A) us \<union> used_bytes (p - 8 + (k + 16)) vs) s s'"
  shows "payload_kept ((live A)(p := None)) (mem s) (mem s')"
  unfolding payload_kept_def
proof clarify
  fix q m i :: int
  assume q: "((live A)(p := None)) q = Some m" and i: "0 \<le> i" "i < m"
  then have h: "(q - 8, m + 16) \<in> held A" "q \<noteq> p"
    using live_held [OF a_ok_sizes [OF ok]] by (auto split: if_splits)
  have d: "chunks A = us @ (k + 16, True) # vs" "p - 8 = abase A + extent us"
    using cut_SomeD [OF c] by simp_all
  have u: "q + i \<in> used_bytes (abase A) (chunks A)"
    using held_in_used [OF h(1), of "q + i"] i by simp
  have "q - 8 + (m + 16) \<le> p - 8 \<or> p - 8 + (k + 16) \<le> q - 8"
    using held_apart [OF ok h(1) cut_held [OF c]] h(2) by auto
  then have "\<not> (p \<le> q + i \<and> q + i < p + k)" using i by auto
  then have "q + i \<in> used_bytes (abase A) us \<union> used_bytes (p - 8 + (k + 16)) vs"
    using u unfolding d(1) by (auto simp: d(2) [symmetric] add.assoc [symmetric])
  then show "mem s' (q + i) = mem s (q + i)" using kept by (simp add: bytes_kept_def)
qed

section \<open>The laws\<close>

lemma mm_malloc_law:
  assumes inv: "heap_inv s" and sz: "size_ok sz"
  shows "\<exists>q s'. mm_malloc sz s = Inr (q, s') \<and> heap_inv s' \<and>
      payload_kept (payloads s) (mem s) (mem s') \<and>
      (q = 0 \<and> payloads s' = payloads s \<or>
       q \<noteq> 0 \<and> payloads s q = None \<and> (\<exists>k. sz \<le> k \<and> payloads s' = (payloads s)(q \<mapsto> k)))"
proof -
  let ?A = "abs_heap s"
  note rep = heap_invD [OF inv] and b = size_ok_bounds [OF sz]
  note ok = rep_a_ok [OF rep]
  obtain q A' where m: "a_malloc sz ?A = (q, A')" by force
  obtain s' where s': "mm_malloc sz s = Inr (q, s')" "rep s' A'"
      "bytes_kept (used_bytes (abase ?A) (chunks ?A)) s s'"
    using mm_malloc_ok [OF rep b(2,3)] m by auto
  have "q = 0 \<and> live A' = live ?A \<or>
      q \<noteq> 0 \<and> live ?A q = None \<and> (\<exists>k. sz \<le> k \<and> live A' = (live ?A)(q \<mapsto> k))"
  proof (cases "q = 0")
    case True
    then show ?thesis using a_malloc_held(1) [OF ok m] by (simp add: NULL_def)
  next
    case False
    then obtain n where n: "block_need sz \<le> n" "held A' = insert (q - 8, n) (held ?A)"
        "\<forall>(y, k)\<in>held ?A. q - 8 + n \<le> y \<or> y + k \<le> q - 8"
      using a_malloc_held(2) [OF ok m False [folded NULL_def]] by (elim exE conjE)
    have "32 \<le> n" using n(1) block_need_bounds(1) [of sz] by simp
    then have "(q - 8, j) \<notin> held ?A" for j
      using bspec [OF n(3), of "(q - 8, j)"] held_bounds(2) [OF ok, of "q - 8" j] by auto
    then have none: "live ?A q = None"
      using live_held [OF a_ok_sizes [OF ok], of q] by (metis not_None_eq)
    have "live A' = (live ?A)(q \<mapsto> n - 16)"
      by (rule live_insert [OF a_ok_sizes [OF ok] rep_sizes [OF s'(2)] _ none]) (simp add: n(2))
    moreover have "sz \<le> n - 16" using n(1) block_need_bounds(3) [of sz] by simp
    ultimately show ?thesis using False none by blast
  qed
  then show ?thesis
    using s' heap_invI kept_payloads [OF ok] payloads_rep [OF s'(2)] by (auto simp: payloads_def)
qed

lemma mm_free_law:
  assumes inv: "heap_inv s" and p: "payloads s p = Some k"
  shows "\<exists>s'. mm_free p s = Inr ((), s') \<and> heap_inv s' \<and> payloads s' = (payloads s)(p := None) \<and>
      payload_kept (payloads s') (mem s) (mem s')"
proof -
  let ?A = "abs_heap s"
  note rep = heap_invD [OF inv]
  note ok = rep_a_ok [OF rep]
  have live: "live ?A p = Some k" using p by (simp add: payloads_def)
  obtain us vs where c: "cut (abase ?A) (chunks ?A) (p - 8) = Some (us, (k + 16, True), vs)"
    using live_cut [OF live] .
  obtain s' where s': "mm_free p s = Inr ((), s')" "rep s' (a_free p ?A)"
      "quiet (used_bytes (abase ?A) us \<union> used_bytes (p - 8 + (k + 16)) vs) s s'"
    using mm_free_ok [OF rep c] by blast
  have p0: "p \<noteq> NULL" using held_bounds(6) [OF ok cut_held [OF c]] by (simp add: NULL_def)
  have h: "held (a_free p ?A) = held ?A - {(p - 8, k + 16)}"
    by (rule a_free_held [OF a_ok_sizes [OF ok] p0 live])
  have "live (a_free p ?A) = (live ?A)(p := None)"
    by (rule live_remove [OF a_ok_sizes [OF ok] rep_sizes [OF s'(2)] h live])
  then show ?thesis
    using s' heap_invI payloads_rep [OF s'(2)] kept_others [OF ok c quiet_kept [OF s'(3)]]
    by (auto simp: payloads_def)
qed

lemma mm_realloc_law:
  assumes inv: "heap_inv s" and sz: "size_ok sz" and p: "payloads s p = Some k"
  shows "\<exists>q s'. mm_realloc p sz s = Inr (q, s') \<and> heap_inv s' \<and>
      payload_kept ((payloads s)(p := None)) (mem s) (mem s') \<and>
      (q = 0 \<and> payloads s' = payloads s \<and> payload_kept (payloads s) (mem s) (mem s') \<or>
       q \<noteq> 0 \<and> ((payloads s)(p := None)) q = None \<and>
       (\<exists>m. sz \<le> m \<and> k \<le> m \<and> payloads s' = ((payloads s)(p := None))(q \<mapsto> m)) \<and>
       (\<forall>i. 0 \<le> i \<longrightarrow> i < k \<longrightarrow> mem s' (q + i) = mem s (p + i)))"
proof -
  let ?A = "abs_heap s"
  note rep = heap_invD [OF inv] and b = size_ok_bounds [OF sz]
  note ok = rep_a_ok [OF rep]
  have live: "live ?A p = Some k" using p by (simp add: payloads_def)
  obtain us vs where c: "cut (abase ?A) (chunks ?A) (p - 8) = Some (us, (k + 16, True), vs)"
    using live_cut [OF live] .
  obtain q A' where r: "a_realloc p sz ?A = (q, A')" by force
  have "realloc_done s ?A p (k + 16) (used_bytes (abase ?A) us \<union> used_bytes (p - 8 + (k + 16)) vs)
      (q, A') (mm_realloc p sz s)"
    using mm_realloc_ok [OF rep c b(1,2,4)] r by simp
  then obtain s' where s': "mm_realloc p sz s = Inr (q, s')" "rep s' A'"
      "bytes_kept (used_bytes (abase ?A) us \<union> used_bytes (p - 8 + (k + 16)) vs) s s'"
      "\<And>i. 0 \<le> i \<Longrightarrow> i < k \<Longrightarrow> mem s' ((if q = 0 then p else q) + i) = mem s (p + i)"
    unfolding realloc_done_def NULL_def fst_conv snd_conv by auto
  have kept: "payload_kept ((payloads s)(p := None)) (mem s) (mem s')"
    using kept_others [OF ok c s'(3)] by (simp add: payloads_def)
  show ?thesis
  proof (cases "q = 0")
    case True
    have "payloads s' = payloads s"
      using a_realloc_held(1) [OF ok live b(1) r] True payloads_rep [OF s'(2)]
      by (simp add: NULL_def payloads_def)
    moreover have "payload_kept (payloads s) (mem s) (mem s')"
      unfolding payload_kept_def
    proof clarify
      fix q m i :: int
      assume "payloads s q = Some m" "0 \<le> i" "i < m"
      then show "mem s' (q + i) = mem s (q + i)"
        using s'(4) [of i] True p payload_keptD [OF kept, of q m i] by (cases "q = p") simp_all
    qed
    ultimately show ?thesis using s'(1,2) heap_invI kept True by blast
  next
    case False
    then obtain m where m: "k \<le> m" "sz \<le> m"
        "held A' = insert (q - 8, m + 16) (held ?A - {(p - 8, k + 16)})"
        "\<And>n. (q - 8, n) \<notin> held ?A - {(p - 8, k + 16)}"
      using a_realloc_held(2) [OF ok live b(1) r] by (auto simp: NULL_def)
    have "live ?A q = Some j \<Longrightarrow> q = p" for j
      using live_held [OF a_ok_sizes [OF ok], of q j] m(4) [of "j + 16"] by auto
    then have none: "((live ?A)(p := None)) q = None" by (cases "live ?A q") auto
    have "live A' = ((live ?A)(p := None))(q \<mapsto> m)"
      by (rule live_update [OF a_ok_sizes [OF ok] rep_sizes [OF s'(2)] m(3) live none])
    then have "payloads s' = ((payloads s)(p := None))(q \<mapsto> m)"
      using payloads_rep [OF s'(2)] by (simp add: payloads_def)
    moreover have "((payloads s)(p := None)) q = None" using none by (simp add: payloads_def)
    ultimately show ?thesis using s' heap_invI kept False m(1,2) by auto
  qed
qed

lemma payloads_held: "heap_inv s \<Longrightarrow> payloads s p = Some k \<Longrightarrow> (p - 8, k + 16) \<in> held (abs_heap s)"
  using live_held [OF rep_sizes [OF heap_invD]] by (simp add: payloads_def)

lemma payloads_region:
  assumes inv: "heap_inv s" and p: "payloads s p = Some k"
  shows "0 < p \<and> p mod 8 = 0 \<and> 16 \<le> k \<and> mem_heap_lo s \<le> p \<and> p + k \<le> mem_heap_hi s + 1"
proof -
  note rep = heap_invD [OF inv]
  note b = held_bounds [OF rep_a_ok [OF rep] payloads_held [OF inv p]]
  have lay: "lay s (chunks (abs_heap s))" "abase (abs_heap s) = base s" using rep by (simp_all add: rep_def)
  have "p mod 8 = 0" using b(1) by (simp add: mod_diff_eq [symmetric])
  then show ?thesis
    using b(2,4,5,6) lay_base(1,4,6) [OF lay(1)] lay(2)
    by (simp add: mem_heap_lo_def mem_heap_hi_def atop_def)
qed

lemma payloads_apart:
  assumes inv: "heap_inv s" and p: "payloads s p = Some k" and q: "payloads s q = Some m" and ne: "p \<noteq> q"
  shows "p + k \<le> q \<or> q + m \<le> p"
  using held_apart [OF rep_a_ok [OF heap_invD [OF inv]] payloads_held [OF inv p] payloads_held [OF inv q]] ne
  by auto

lemma fill_law:
  assumes inv: "heap_inv s" and p: "payloads s p = Some k" and n: "0 \<le> n" "n \<le> k"
  shows "\<exists>s'. memset p c n s = Inr ((), s') \<and> heap_inv s' \<and> payloads s' = payloads s \<and>
      mem_heap_lo s' = mem_heap_lo s \<and> mem_heap_hi s' = mem_heap_hi s \<and>
      payload_kept ((payloads s)(p := None)) (mem s) (mem s') \<and>
      (\<forall>i. 0 \<le> i \<longrightarrow> i < k \<longrightarrow> mem s' (p + i) = (if i < n then word_of_int c else mem s (p + i)))"
proof -
  let ?s = "s\<lparr>mem := fill (mem s) p c n\<rparr>"
  note rep = heap_invD [OF inv] and reg = payloads_region [OF inv p]
  have run: "memset p c n s = Inr ((), ?s)"
    using reg n by (simp add: memset_def in_heap_def mem_heap_lo_def mem_heap_hi_def)
  have rep': "rep ?s (abs_heap s)"
  proof (rule payload_write_rep [OF rep])
    fix t assume t: "t \<notin> used_bytes (abase (abs_heap s)) (chunks (abs_heap s))"
    have "\<not> (p \<le> t \<and> t < p + n)"
      using t held_in_used [OF payloads_held [OF inv p], of t] n(2) by auto
    then show "fill (mem s) p c n t = mem s t" by (auto simp: fill_def)
  qed
  have "payload_kept ((payloads s)(p := None)) (mem s) (mem ?s)"
    unfolding payload_kept_def
  proof clarify
    fix q m i :: int
    assume q: "((payloads s)(p := None)) q = Some m" and i: "0 \<le> i" "i < m"
    then have "q + m \<le> p \<or> p + k \<le> q"
      using payloads_apart [OF inv p, of q m] by (auto split: if_splits)
    then show "mem ?s (q + i) = mem s (q + i)" using i n(2) by (auto simp: fill_def)
  qed
  then show ?thesis
    using run heap_invI [OF rep'] payloads_rep [OF rep'] payloads_def [of s]
    by (auto simp: fill_def mem_heap_lo_def mem_heap_hi_def)
qed

interpretation mm: allocator heap_inv payloads mem mem_heap_lo mem_heap_hi size_ok mm_malloc mm_free
  by unfold_locales (fact mm_malloc_law mm_free_law payloads_region payloads_apart)+

interpretation mm_resize: resizer heap_inv payloads mem mem_heap_lo mem_heap_hi size_ok mm_malloc mm_free
    mm_realloc
  by unfold_locales (fact mm_realloc_law)

interpretation mm_write: writer heap_inv payloads mem mem_heap_lo mem_heap_hi size_ok mm_malloc mm_free
    memset
  by unfold_locales (fact fill_law)

section \<open>Reading tags and links\<close>

lemma lay_tags_read:
  assumes lay: "lay s bs" and x: "(x, sz, al) \<in> set (place (base s) bs)"
  shows "block_size x s = Inr (sz, s) \<and> block_end_size x s = Inr (sz, s) \<and>
    block_allocated x s = Inr (of_bool al, s) \<and> block_end_allocated x s = Inr (of_bool al, s)"
proof -
  obtain us vs where c: "bs = us @ (sz, al) # vs" "x = base s + extent us"
    using x by (auto simp: place_split)
  have l: "lay s (us @ (sz, al) # vs)" using lay c(1) by simp
  obtain psz pal nsz nal where "prev_of us = (psz, pal)" "next_of vs = (nsz, nal)" by force
  note at = lay_at(1,2) [OF l c(2) this]
  note blk = lay_block(1-3) [OF l, folded c(2)]
  show ?thesis using at block_end_size_ok [OF blk] by simp
qed

lemma ring_neighbours:
  assumes fl: "free_links s fl" and nodes: "free_nodes s (set fl)" and i: "i < length fl"
  shows "block_flink (fl ! i) s = Inr (fl ! (Suc i mod length fl), s) \<and>
    block_blink (fl ! (Suc i mod length fl)) s = Inr (fl ! i, s)"
proof -
  have split: "fl = take j fl @ fl ! j # drop (Suc j) fl" if "j < length fl" for j
    using that by (rule id_take_nth_drop)
  have at: "wv s (fl ! j + 8) = hd (drop (Suc j) fl @ take j fl @ [fl ! j])"
    "wv s (fl ! j + 16) = last (fl ! j # drop (Suc j) fl @ take j fl)" if "j < length fl" for j
    using free_links_cells [of s "take j fl" "fl ! j" "drop (Suc j) fl"] fl split [OF that] by simp_all
  have fwd: "wv s (fl ! i + 8) = fl ! (Suc i mod length fl)"
  proof (cases "Suc i < length fl")
    case True
    then show ?thesis using at(1) [OF i] by (simp add: hd_drop_conv_nth)
  next
    case False
    then have e: "Suc i = length fl" using i by simp
    then show ?thesis using at(1) [OF i] i by (cases i) (auto simp: hd_append hd_conv_nth)
  qed
  let ?j = "Suc i mod length fl"
  have j: "?j < length fl" using i by (cases fl) simp_all
  have bwd: "wv s (fl ! ?j + 16) = fl ! i"
  proof (cases "Suc i < length fl")
    case True
    then have "take (Suc i) fl \<noteq> []" "last (take (Suc i) fl) = fl ! i"
      using i by (auto simp: take_Suc_conv_app_nth)
    then show ?thesis using at(2) [OF j] True by (simp add: last_append)
  next
    case False
    then have e: "Suc i = length fl" using i by simp
    then have "fl \<noteq> []" "i = length fl - 1" by auto
    then have "?j = 0" "last fl = fl ! i" using e last_conv_nth [of fl] by simp_all
    then show ?thesis using at(2) [OF j] i by (cases fl) auto
  qed
  show ?thesis
    using fwd bwd node_steps [OF nodes, of "fl ! i"] node_steps [OF nodes, of "fl ! ?j"] i j by simp
qed

end
