(* ===== verification/Alloc_Limits.thy ===== *)
theory Alloc_Limits
  imports Heap_View
begin

text \<open>
  The edges of the allocator: when an allocation must succeed, and what happens
  where a size no longer fits the \<open>int\<close> that \<open>mem_sbrk\<close> takes.
\<close>

section \<open>When an allocation succeeds\<close>

lemma a_malloc_succeeds:
  assumes ok: "a_ok A" and sz: "sz \<noteq> 0"
    and room: "block_need sz < 2 ^ 31 \<and> atop A + block_need sz \<le> alimit A \<or>
      (\<exists>x\<in>set (order A). a_fits A (block_need sz) x)"
  shows "fst (a_malloc sz A) \<noteq> NULL"
proof (cases "List.find (a_fits A (block_need sz)) (order A)")
  case None
  then have "block_need sz < 2 ^ 31 \<and> atop A + block_need sz \<le> alimit A"
    using room by (auto simp: find_None_iff)
  moreover have "24 \<le> atop A"
    using ok sizes_ok_extent [OF a_ok_sizes [OF ok]] by (simp add: a_ok_def atop_def)
  ultimately show ?thesis using None sz by (simp add: a_malloc_def a_extend_def NULL_def)
next
  case (Some x)
  then have "x \<in> set (order A)" using find_eq_SomeD by fast
  then have "0 \<le> x"
    using ok frees_bounds(1) [OF a_ok_sizes [OF ok], of x "abase A"] by (auto simp: a_ok_def)
  then show ?thesis using Some sz by (simp add: a_malloc_def NULL_def)
qed

text \<open>And it fails only when the heap cannot grow by a block of that size.\<close>

lemma a_malloc_fails:
  "sz \<noteq> 0 \<Longrightarrow> a_ok A \<Longrightarrow> fst (a_malloc sz A) = NULL \<Longrightarrow>
     2 ^ 31 \<le> block_need sz \<or> alimit A < atop A + block_need sz"
  using a_malloc_succeeds [of A sz] by linarith

section \<open>Sizes beyond int\<close>

lemma a_fits_extent:
  assumes "a_ok A" and "a_fits A n x"
  shows "n \<le> extent (chunks A)"
proof -
  obtain us z al vs where c: "cut (abase A) (chunks A) x = Some (us, (z, al), vs)" "n \<le> z"
    using assms(2) by (auto simp: a_fits_def split: option.splits)
  then have "sizes_ok us" "sizes_ok vs" "chunks A = us @ (z, al) # vs"
    using cut_SomeD a_ok_sizes [OF assms(1)] by fastforce+
  then show ?thesis using c(2) sizes_ok_extent [of us] sizes_ok_extent [of vs] by simp
qed

lemma store_beyond:
  assumes "word_ok s b" and "mem_brk s \<le> b + n - 8" and "n mod 8 = 0" and "16 \<le> n" and "n < 2 ^ 62"
  shows "block_set_size_and_allocated b n 1 s = Inl Bad_Address"
proof -
  let ?al = "odd (wv s b)"
  have t: "n OR (wv s b mod 2) = tag n ?al"
    using assms(3) mod8_mod2 [of n]
    by (cases "odd (wv s b)") (simp_all add: odd_iff_mod_2_eq_one masks tag_def)
  have "is_long (tag n ?al)" using assms(4,5) by (auto simp: tag_def is_long_def)
  then have w: "wv (poke b (tag n ?al) s) b = tag n ?al"
    using assms(1) by (intro words.rd_wr_same) (simp_all add: word_ok_def)
  have "\<not> word_ok s (b + n - 8)" using assms(2) by (simp add: word_ok_def in_heap_def)
  then show ?thesis
    using assms t
    by (simp add: block_set_size_and_allocated_def block_set_size_def prog_eval mm_consts masks
        block_eval Let_def block_end_tag_ok [OF _ w] store_bad)
qed

lemma mm_malloc_truncated:
  assumes inv: "heap_inv s" and max: "mem_max_addr s \<le> mem_start_brk s + MAX_HEAP"
  shows "mm_malloc (2 ^ 32 - 16) s = Inl Bad_Address"
proof -
  let ?A = "abs_heap s"
  note rep = heap_invD [OF inv]
  have lay: "lay s (chunks ?A)" using rep by (simp add: rep_def)
  note b = lay_base [OF lay] and e = sizes_ok_extent [OF lay_sizes [OF lay]]
  have small: "extent (chunks ?A) < 2 ^ 32"
    using b(4,6,10) max by (simp add: MAX_HEAP_def push_bit_eq_mult)
  have "List.find (a_fits ?A (2 ^ 32)) (order ?A) = None"
    using a_fits_extent [OF rep_a_ok [OF rep], of "2 ^ 32"] small by (auto simp: find_None_iff)
  then have search: "search_free (heap_words s) (2 ^ 32) (flist_first s) s = Inr (None, s)"
    using search_ok [OF rep] by simp
  have "int_of_long (2 ^ 32) = 0"
    using int_of_long_wrap [of 0 1] int_of_long_id [of 0] by (simp add: is_int_def)
  then have sbrk: "mem_sbrk (int_of_long (2 ^ 32)) s = Inr (mem_brk s, s)"
    using b(10) by (simp add: mem_sbrk_apply)
  have m8: "epilogue s mod 8 = 0" using b(3,5) e by (simp add: mod_add_0)
  have "block_set_size_and_allocated (epilogue s) (2 ^ 32) 1 s = Inl Bad_Address"
    by (rule store_beyond) (use m8 b(1,4,5,6) e in \<open>simp_all add: word_ok_def in_heap_def\<close>)
  then have ext: "extend_heap (2 ^ 32) s = Inl Bad_Address"
    using sbrk b(1,4,6) e by (simp add: extend_heap_def prog_eval SBRK_FAILED_def)
  have "align (2 ^ 32 - 16) s = Inr (2 ^ 32 - 16, s)"
    using align_ok [of "2 ^ 32 - 16" s] by (simp add: is_long_def round_up_def)
  then show ?thesis
    using search ext by (simp add: mm_malloc_def prog_eval mm_consts is_long_def Let_def)
qed

end
