(* ===== verification/Sessions.thy ===== *)
theory Sessions
  imports Alloc_Limits
begin

text \<open>
  A client session as a state machine: after \<open>mm_init\<close> on a fresh region, any
  sequence of calls with admissible arguments, and of writes into live
  payloads.  The invariant of the allocator holds in every reachable state, and
  every admissible call returns.
\<close>

datatype request = Malloc int | Free int | Realloc int int | Write int int int

fun admissible :: "heap \<Rightarrow> request \<Rightarrow> bool" where
  "admissible s (Malloc n) \<longleftrightarrow> n = 0 \<or> size_ok n"
| "admissible s (Free p) \<longleftrightarrow> p = NULL \<or> payloads s p \<noteq> None"
| "admissible s (Realloc p n) \<longleftrightarrow> (p = NULL \<or> payloads s p \<noteq> None) \<and> (n = 0 \<or> size_ok n)"
| "admissible s (Write p c n) \<longleftrightarrow> (\<exists>k. payloads s p = Some k \<and> 0 \<le> n \<and> n \<le> k)"

fun perform :: "request \<Rightarrow> (heap, int) prog" where
  "perform (Malloc n) = mm_malloc n"
| "perform (Free p) = seqp (mm_free p) (ret 0)"
| "perform (Realloc p n) = mm_realloc p n"
| "perform (Write p c n) = seqp (memset p c n) (ret 0)"

inductive step :: "heap \<Rightarrow> request \<Rightarrow> int \<Rightarrow> heap \<Rightarrow> bool" where
  call: "admissible s r \<Longrightarrow> perform r s = Inr (v, s') \<Longrightarrow> step s r v s'"

inductive_simps step_iff: "step s r v s'"

inductive session :: "heap \<Rightarrow> (request \<times> int) list \<Rightarrow> heap \<Rightarrow> bool" where
  start: "fresh s \<Longrightarrow> mm_init s = Inr (0, s') \<Longrightarrow> session s [] s'"
| next_call: "session s h t \<Longrightarrow> step t r v u \<Longrightarrow> session s (h @ [(r, v)]) u"

inductive_cases session_snocE: "session s (h @ [x]) u"

lemma mm_malloc_zero: "heap_inv s \<Longrightarrow> mm_malloc 0 s = Inr (NULL, s)"
  using align_ok [of 0 s]
  by (simp add: mm_malloc_def prog_eval is_long_def round_up_def mm_consts)

lemma mm_realloc_null_law:
  assumes inv: "heap_inv s" and n: "n = 0 \<or> size_ok n"
  shows "\<exists>s'. mm_realloc NULL n s = Inr (NULL, s') \<and> heap_inv s' \<and>
      payload_kept (payloads s) (mem s) (mem s')"
proof -
  have "- (2 ^ 63) \<le> n" "block_need n < 2 ^ 32"
    using n size_ok_bounds [of n] by (auto simp: block_need_def round_up_def)
  then obtain s' where "mm_realloc NULL n s = Inr (NULL, s')" "rep s' (snd (a_realloc NULL n (abs_heap s)))"
      "bytes_kept (used_bytes (abase (abs_heap s)) (chunks (abs_heap s))) s s'"
    using mm_realloc_null [OF heap_invD [OF inv]] by blast
  then show ?thesis
    using heap_invI kept_payloads [OF rep_a_ok [OF heap_invD [OF inv]]] by (auto simp: payloads_def)
qed

lemma mm_realloc_zero_law:
  assumes inv: "heap_inv s" and p: "payloads s p = Some k"
  shows "mm_realloc p 0 s = seqp (mm_free p) (ret NULL) s"
  using mm.region [OF inv p] by (simp add: mm_realloc_def NULL_def)

lemma perform_ok:
  assumes inv: "heap_inv s" and adm: "admissible s r"
  shows "\<exists>v s'. perform r s = Inr (v, s') \<and> heap_inv s'"
proof (cases r)
  case (Malloc n)
  then show ?thesis
    using adm inv mm_malloc_zero [OF inv] mm.malloc [OF inv, of n] by auto
next
  case (Free p)
  then show ?thesis
    using adm inv mm_free_null mm.free [OF inv, of p] by (auto simp: prog_eval)
next
  case (Realloc p n)
  show ?thesis
  proof (cases "p = NULL")
    case True
    then show ?thesis using mm_realloc_null_law [OF inv, of n] adm Realloc by auto
  next
    case False
    then obtain k where k: "payloads s p = Some k" using adm Realloc by auto
    show ?thesis
    proof (cases "n = 0")
      case True
      then show ?thesis
        using mm.free [OF inv k] Realloc mm_realloc_zero_law [OF inv k] by (auto simp: prog_eval)
    next
      case False
      then show ?thesis using mm_resize.realloc [OF inv _ k, of n] adm Realloc by auto
    qed
  qed
next
  case (Write p c n)
  then show ?thesis using adm mm_write.fill [OF inv, of p _ n c] by (auto simp: prog_eval)
qed

lemma step_inv: "heap_inv s \<Longrightarrow> step s r v s' \<Longrightarrow> heap_inv s'"
  using perform_ok [of s r] by (auto simp: step_iff)

lemma mm_init_succeeds: "fresh s \<Longrightarrow> mm_init s = Inr (0, s') \<Longrightarrow> mem_start_brk s + 32 \<le> mem_max_addr s"
  using mm_init_no_room [of s] by fastforce

lemma session_inv: "session s h t \<Longrightarrow> heap_inv t"
proof (induction rule: session.induct)
  case (start s s')
  then show ?case
    using mm_init_rep [OF start(1) mm_init_succeeds [OF start]] heap_invI by auto
next
  case (next_call s h t r v u)
  then show ?case using step_inv by blast
qed

section \<open>A balanced session leaves no fragments\<close>

lemma no_payload_no_used:
  assumes "sizes_ok (chunks A)" and "live A = Map.empty" and "c \<in> set (chunks A)"
  shows "\<not> snd c"
proof
  assume "snd c"
  then obtain sz us vs where c: "chunks A = us @ (sz, True) # vs"
    using assms(3) split_list [of c "chunks A"] by (cases c) auto
  then have "(abase A + extent us, sz) \<in> held A" by (auto simp: held_def place_append)
  then have "live A (abase A + extent us + 8) = Some (sz - 16)"
    using live_held [OF assms(1), of "abase A + extent us + 8" "sz - 16"] by simp
  then show False using assms(2) by simp
qed

lemma all_free_one_block:
  assumes "heap_inv s" and "payloads s = Map.empty"
  shows "chunks (abs_heap s) = [] \<or> (\<exists>n. chunks (abs_heap s) = [(n, False)])"
proof -
  let ?cs = "chunks (abs_heap s)"
  note rep = heap_invD [OF assms(1)]
  have free: "\<not> snd c" if "c \<in> set ?cs" for c
    using no_payload_no_used [OF rep_sizes [OF rep]] assms(2) that by (simp add: payloads_def)
  have adj: "no_adjacent_free ?cs" using rep by (simp add: rep_def)
  show ?thesis
  proof (cases ?cs rule: no_adjacent_free.cases)
    case (2 b)
    then show ?thesis using free [of b] by (cases b) simp
  next
    case (3 b c bs)
    then show ?thesis using adj free [of b] free [of c] by simp
  qed simp
qed

text \<open>That block is the whole heap: a later request that it can hold is served without growth.\<close>

lemma all_free_refill:
  assumes inv: "heap_inv s" and none: "payloads s = Map.empty"
    and sz: "0 < sz" "block_need sz < 2 ^ 32" "block_need sz + 32 \<le> mem_heapsize s"
  shows "\<exists>s'. mm_malloc sz s = Inr (mem_start_brk s + 24, s') \<and> mem_brk s' = mem_brk s"
proof -
  let ?A = "abs_heap s"
  note rep = heap_invD [OF inv]
  have lay: "lay s (chunks ?A)" and fl: "free_links s (order ?A)" and A: "abase ?A = base s"
      "set (order ?A) = frees (base s) (chunks ?A)"
    using rep by (simp_all add: rep_def)
  note b = lay_base [OF lay] and need = block_need_bounds [of sz]
  have "chunks ?A \<noteq> []" using b(4,6) sz(3) need(1) by (auto simp: mem_heapsize_def)
  then obtain n where n: "chunks ?A = [(n, False)]" using all_free_one_block [OF inv none] by blast
  have big: "block_need sz \<le> n" using b(4,6) n sz(3) by (simp add: mem_heapsize_def)
  have "distinct (order ?A)" using fl by (auto simp: free_links_def split: list.splits)
  moreover have "set (order ?A) = {base s}" using A(2) n by simp
  ultimately have ord: "order ?A = [base s]"
    by (cases "order ?A" rule: remdups_adj.cases) auto
  have "fst (a_malloc sz ?A) = base s + 8" "extent (chunks (snd (a_malloc sz ?A))) = n"
      "abase (snd (a_malloc sz ?A)) = base s"
    using sz(1) n ord A(1) big by (simp_all add: a_malloc_def a_fits_def a_take_def)
  moreover obtain s' where s': "mm_malloc sz s = Inr (fst (a_malloc sz ?A), s')" "rep s' (snd (a_malloc sz ?A))"
    using mm_malloc_ok [OF rep _ sz(2)] sz(1) by auto
  moreover have "lay s' (chunks (snd (a_malloc sz ?A)))" "base s' = abase (snd (a_malloc sz ?A))"
    using s'(2) by (simp_all add: rep_def)
  ultimately show ?thesis using lay_base(6) [of s'] b(4,6) n by simp
qed

end
