(* ===== verification/Demo.thy ===== *)
theory Demo
  imports Sessions
begin

text \<open>
  Concrete heaps on which the properties are exercised: a region of \<open>MAX_HEAP\<close>
  zero bytes at address 4096, the heap after \<open>mm_init\<close>, after one and two
  allocations, and after the first block has been freed.
\<close>

definition demo_region :: heap where
  "demo_region =
     \<lparr>mem = (\<lambda>_. 0), mem_start_brk = 4096, mem_brk = 4096, mem_max_addr = 4096 + MAX_HEAP,
      flist_first = 0, prologue = 0, epilogue = 0\<rparr>"

definition result_state :: "fault + ('a \<times> heap) \<Rightarrow> heap" where
  "result_state r = (case r of Inl _ \<Rightarrow> demo_region | Inr (_, s) \<Rightarrow> s)"

definition demo_ready :: heap where
  "demo_ready = result_state (mm_init demo_region)"

definition demo_one :: heap where
  "demo_one = result_state (mm_malloc 100 demo_ready)"

definition demo_two :: heap where
  "demo_two = result_state (mm_malloc 200 demo_one)"

definition demo_hole :: heap where
  "demo_hole = result_state (mm_free 4120 demo_two)"

definition demo_abs :: "chunk list \<Rightarrow> int list \<Rightarrow> aheap" where
  "demo_abs cs fl = \<lparr>abase = 4112, chunks = cs, order = fl, alimit = 4096 + MAX_HEAP\<rparr>"

lemma demo_max: "MAX_HEAP = 20971520"
  by (simp add: MAX_HEAP_def push_bit_eq_mult)

lemma demo_fresh: "fresh demo_region"
  by (simp add: fresh_def demo_region_def demo_max)

lemma demo_room: "mem_start_brk demo_region + 32 \<le> mem_max_addr demo_region"
  by (simp add: demo_region_def demo_max)

lemma demo_ready: "mm_init demo_region = Inr (0, demo_ready)" "rep demo_ready (demo_abs [] [])"
  using mm_init_rep [OF demo_fresh demo_room]
  by (simp_all add: demo_ready_def result_state_def a_init_def demo_abs_def)
     (simp add: demo_region_def)

lemma demo_one: "mm_malloc 100 demo_ready = Inr (4120, demo_one)" "rep demo_one (demo_abs [(120, True)] [])"
proof -
  have "a_malloc 100 (demo_abs [] []) = (4120, demo_abs [(120, True)] [])"
    by (simp add: a_malloc_def demo_abs_def a_extend_def block_need_def round_up_def atop_def demo_max)
  then obtain s where "mm_malloc 100 demo_ready = Inr (4120, s)" "rep s (demo_abs [(120, True)] [])"
    using mm_malloc_ok [OF demo_ready(2), of 100] by (auto simp: block_need_def round_up_def)
  then show "mm_malloc 100 demo_ready = Inr (4120, demo_one)" "rep demo_one (demo_abs [(120, True)] [])"
    by (simp_all add: demo_one_def result_state_def)
qed

lemma demo_two: "mm_malloc 200 demo_one = Inr (4240, demo_two)"
  "rep demo_two (demo_abs [(120, True), (216, True)] [])"
proof -
  have "a_malloc 200 (demo_abs [(120, True)] []) = (4240, demo_abs [(120, True), (216, True)] [])"
    by (simp add: a_malloc_def demo_abs_def a_extend_def block_need_def round_up_def atop_def demo_max)
  then obtain s where "mm_malloc 200 demo_one = Inr (4240, s)"
      "rep s (demo_abs [(120, True), (216, True)] [])"
    using mm_malloc_ok [OF demo_one(2), of 200] by (auto simp: block_need_def round_up_def)
  then show "mm_malloc 200 demo_one = Inr (4240, demo_two)"
    "rep demo_two (demo_abs [(120, True), (216, True)] [])"
    by (simp_all add: demo_two_def result_state_def)
qed

lemma demo_hole: "mm_free 4120 demo_two = Inr ((), demo_hole)"
  "rep demo_hole (demo_abs [(120, False), (216, True)] [4112])"
proof -
  let ?A = "demo_abs [(120, True), (216, True)] []"
  have c: "cut (abase ?A) (chunks ?A) (4120 - 8) = Some ([], (120, True), [(216, True)])"
    by (simp add: demo_abs_def)
  have "a_free 4120 ?A = demo_abs [(120, False), (216, True)] [4112]"
    by (simp add: a_free_def demo_abs_def a_merge_def NULL_def)
  then obtain s where "mm_free 4120 demo_two = Inr ((), s)"
      "rep s (demo_abs [(120, False), (216, True)] [4112])"
    using mm_free_ok [OF demo_two(2) c] by auto
  then show "mm_free 4120 demo_two = Inr ((), demo_hole)"
    "rep demo_hole (demo_abs [(120, False), (216, True)] [4112])"
    by (simp_all add: demo_hole_def result_state_def)
qed

lemmas demo_invs = heap_invI [OF demo_ready(2)] heap_invI [OF demo_one(2)]
  heap_invI [OF demo_two(2)] heap_invI [OF demo_hole(2)]

lemma demo_payloads:
  "payloads demo_ready = Map.empty"
  "payloads demo_one 4120 = Some 104"
  "payloads demo_two 4120 = Some 104" "payloads demo_two 4240 = Some 200"
  "payloads demo_hole 4240 = Some 200" "payloads demo_hole 4120 = None"
  using payloads_rep [OF demo_ready(2)] payloads_rep [OF demo_one(2)]
    payloads_rep [OF demo_two(2)] payloads_rep [OF demo_hole(2)]
  by (simp_all add: live_def demo_abs_def fun_eq_iff)

lemma demo_size: "size_ok 100" "size_ok 200" "size_ok 300" "size_ok 50"
  by (simp_all add: size_ok_def)

text \<open>The sessions that lead to these heaps.\<close>

lemma demo_sessions:
  "session demo_region [(Malloc 100, 4120), (Malloc 200, 4240)] demo_two"
  "session demo_region [(Malloc 100, 4120), (Malloc 200, 4240), (Free 4120, 0)] demo_hole"
proof -
  have 0: "session demo_region [] demo_ready"
    using demo_fresh demo_ready(1) by (rule session.start)
  have "step demo_ready (Malloc 100) 4120 demo_one"
    using demo_one(1) demo_size by (simp add: step_iff)
  from session.next_call [OF 0 this] have 1: "session demo_region [(Malloc 100, 4120)] demo_one" by simp
  have "step demo_one (Malloc 200) 4240 demo_two"
    using demo_two(1) demo_size by (simp add: step_iff)
  from session.next_call [OF 1 this]
  show 2: "session demo_region [(Malloc 100, 4120), (Malloc 200, 4240)] demo_two" by simp
  have "step demo_two (Free 4120) 0 demo_hole"
    using demo_hole(1) demo_payloads(3) by (simp add: step_iff prog_eval)
  from session.next_call [OF 2 this]
  show "session demo_region [(Malloc 100, 4120), (Malloc 200, 4240), (Free 4120, 0)] demo_hole" by simp
qed

lemma demo_freed:
  "\<exists>h s. session demo_region h s \<and> mm_free 4240 demo_hole = Inr ((), s) \<and>
     payloads s = Map.empty \<and> rep s (demo_abs [(336, False)] [4112])"
proof -
  obtain s where s: "mm_free 4240 demo_hole = Inr ((), s)" "rep s (demo_abs [(336, False)] [4112])"
    using mm_free_ok [OF demo_hole(2), of 4240 "[(120, False)]" 216 "[]"]
    by (auto simp: a_free_def a_merge_def demo_abs_def NULL_def prev_of_def)
  have "payloads s = Map.empty"
    using payloads_rep [OF s(2)] by (simp add: live_def demo_abs_def fun_eq_iff)
  moreover have "step demo_hole (Free 4240) 0 s"
    using s(1) demo_payloads(5) by (simp add: step_iff prog_eval)
  note session.next_call [OF demo_sessions(2) this]
  ultimately show ?thesis using s by blast
qed

end
