(* ===== verification/Growth.thy ===== *)
theory Growth
  imports Alloc_Limits
begin

text \<open>
  How far each operation moves the break: not at all, or, when \<open>mm_malloc\<close> finds
  no free block that is large enough, by the size of the block that is needed.
  So a request fails only when the region has no room for that block.
\<close>

definition need :: "int \<Rightarrow> int" where
  "need sz = block_need (round_up sz + 16)"

lemma block_need_le_need: "block_need sz \<le> need sz"
proof -
  have "round_up sz + 16 \<le> round_up (round_up sz + 16)"
    using round_up_bounds(1) [of "round_up sz + 16"] by simp
  then show ?thesis by (simp add: need_def block_need_def)
qed

definition small_ok :: "int \<Rightarrow> bool" where
  "small_ok sz \<longleftrightarrow> 0 < sz \<and> sz < 2 ^ 31 - 64"

lemma small_ok_size: "small_ok sz \<Longrightarrow> size_ok sz"
  by (simp add: small_ok_def size_ok_def)

lemma small_ok_need: "small_ok sz \<Longrightarrow> need sz < 2 ^ 31"
  using round_up_bounds(2) [of sz] round_up_bounds(2) [of "round_up sz + 16"]
  by (auto simp: small_ok_def need_def block_need_def max_def)

section \<open>On abstract heaps\<close>

lemma a_take_atop: "atop (a_take A n x) = atop A"
proof (cases "cut (abase A) (chunks A) x")
  case (Some c)
  obtain us z al vs where "c = (us, (z, al), vs)" by (cases c) auto
  then show ?thesis
    using Some cut_SomeD [of "abase A" "chunks A" x us "(z, al)" vs] by (simp add: a_take_def atop_def)
qed (simp add: a_take_def)

lemma a_malloc_atop:
  assumes ok: "a_ok A" and m: "a_malloc sz A = (q, A')" and n: "block_need sz < 2 ^ 31" and sz: "sz \<noteq> 0"
  shows "atop A \<le> atop A' \<and> atop A' \<le> atop A + block_need sz \<and> alimit A' = alimit A \<and> abase A' = abase A \<and>
    (q = NULL \<longrightarrow> alimit A < atop A + block_need sz)"
proof (cases "List.find (a_fits A (block_need sz)) (order A)")
  case None
  have "24 \<le> atop A" using ok sizes_ok_extent [OF a_ok_sizes [OF ok]] by (simp add: a_ok_def atop_def)
  then show ?thesis
    using None m n sz block_need_bounds(1) [of sz]
    by (auto simp: a_malloc_def a_extend_def atop_def NULL_def split: if_splits)
next
  case (Some x)
  then have "fst (a_malloc sz A) \<noteq> NULL"
    using a_malloc_succeeds [OF ok sz] find_eq_SomeD [OF Some] by blast
  then show ?thesis
    using Some m sz block_need_bounds(1) [of sz] by (auto simp: a_malloc_def a_take_atop)
qed

lemma a_merge_atop:
  assumes c: "chunks A = us @ (sz, al) # vs"
  shows "atop (a_merge A x us sz vs) = atop A"
proof -
  obtain psz pal nsz nal where p: "prev_of us = (psz, pal)" and n: "next_of vs = (nsz, nal)"
    by force
  have us: "us = (if pal then us else butlast us @ [(psz, False)])"
    using prev_free_snoc [of us psz] p by simp
  have vs: "vs = (if nal then vs else (nsz, False) # tl vs)"
    using next_free_Cons [of vs nsz] n by simp
  have l: "extent us = extent (if pal then us else butlast us) + (if pal then 0 else psz)"
    by (subst us) simp
  have r: "extent vs = extent (if nal then vs else tl vs) + (if nal then 0 else nsz)"
    by (subst vs) simp
  show ?thesis
    using p n c l [symmetric] r [symmetric]
    by (cases pal; cases nal) (simp_all add: a_merge_def atop_def)
qed

lemma a_free_atop: "atop (a_free p A) = atop A" "alimit (a_free p A) = alimit A" "abase (a_free p A) = abase A"
proof -
  have "atop (a_free p A) = atop A \<and> alimit (a_free p A) = alimit A \<and> abase (a_free p A) = abase A"
  proof (cases "live A p")
    case None
    then show ?thesis by (simp add: a_free_other)
  next
    case (Some k)
    obtain us vs where c: "cut (abase A) (chunks A) (p - 8) = Some (us, (k + 16, True), vs)"
      using live_cut [OF Some] .
    have d: "chunks A = us @ (k + 16, True) # vs" using cut_SomeD [OF c] by simp
    have "a_free p A = (if p = NULL then A else a_merge A (p - 8) us (k + 16) vs)"
      using c by (simp add: a_free_def)
    then show ?thesis using a_merge_atop [OF d] by simp
  qed
  then show "atop (a_free p A) = atop A" "alimit (a_free p A) = alimit A" "abase (a_free p A) = abase A"
    by simp_all
qed

lemma a_realloc_atop:
  assumes ok: "a_ok A" and live: "live A p = Some k"
    and sz: "small_ok sz" and r: "a_realloc p sz A = (q, A')"
  shows "atop A \<le> atop A' \<and> atop A' \<le> atop A + need sz \<and> alimit A' = alimit A \<and> abase A' = abase A \<and>
    (q = NULL \<longrightarrow> alimit A < atop A + need sz)"
proof -
  let ?n = "round_up sz + 16" and ?old = "k + 16"
  obtain us vs where c: "cut (abase A) (chunks A) (p - 8) = Some (us, (?old, True), vs)"
    using live_cut [OF live] .
  have d: "chunks A = us @ (?old, True) # vs" "p - 8 = abase A + extent us"
    using cut_SomeD [OF c] by simp_all
  have p: "p \<noteq> NULL" using held_bounds(6) [OF ok cut_held [OF c]] by (simp add: NULL_def)
  have a24: "24 \<le> abase A" using ok by (simp add: a_ok_def)
  have sizes: "sizes_ok us" "sizes_ok vs" using a_ok_sizes [OF ok] d by simp_all
  have need0: "0 \<le> need sz" using block_need_bounds(1) [of ?n] by (simp add: need_def)
  obtain psz pal nsz nal where pv: "prev_of us = (psz, pal)" and nx: "next_of vs = (nsz, nal)"
    by force
  have us: "extent us = extent (butlast us) + psz \<and> 0 \<le> extent (butlast us)" if "\<not> pal"
  proof -
    have "us = butlast us @ [(psz, False)]" using prev_free_snoc [of us psz] pv that by simp
    then have "extent us = extent (butlast us) + psz" "sizes_ok (butlast us)"
      using sizes(1) total_simps(3) [of "butlast us" "[(psz, False)]"]
        sizes_ok_simps(3) [of "butlast us" "[(psz, False)]"] by simp_all
    then show ?thesis using sizes_ok_extent by blast
  qed
  have vs: "extent vs = nsz + extent (tl vs)" if "\<not> nal"
    using next_free_Cons [of vs nsz] nx that total_simps(2) [of nsz False "tl vs"] by simp
  have sz0: "sz \<noteq> 0" using sz by (simp add: small_ok_def)
  note ar = a_realloc_run [OF c p sz0 pv nx]
  show ?thesis
  proof (cases "?n \<le> ?old \<or> \<not> pal \<and> ?n \<le> ?old + psz \<or> \<not> nal \<and> ?n \<le> ?old + nsz \<or>
      \<not> pal \<and> \<not> nal \<and> ?n \<le> ?old + psz + nsz")
    case True
    then have "extent (chunks A') = extent (chunks A) \<and> alimit A' = alimit A \<and> abase A' = abase A \<and>
        (q = p \<or> \<not> pal \<and> q = p - psz)"
      using r us vs d(1) unfolding ar by (auto split: if_splits)
    then show ?thesis using need0 p us d a24 by (auto simp: NULL_def atop_def)
  next
    case False
    obtain q1 A1 where m: "a_malloc ?n A = (q1, A1)" by force
    have e: "(q, A') = (if q1 = NULL then (NULL, A1) else (q1, a_free p A1))"
      using r m False unfolding ar by (auto split: if_splits)
    have "0 < ?n" using sz round_up_bounds(1) [of sz] by (simp add: small_ok_def)
    then have "atop A \<le> atop A1 \<and> atop A1 \<le> atop A + need sz \<and> alimit A1 = alimit A \<and> abase A1 = abase A \<and>
        (q1 = NULL \<longrightarrow> alimit A < atop A + need sz)"
      using a_malloc_atop [OF ok m] small_ok_need [OF sz] by (simp add: need_def)
    then show ?thesis using e a_free_atop by (auto split: if_splits)
  qed
qed

section \<open>On heaps\<close>

lemma rep_atop: "rep s A \<Longrightarrow> atop A = mem_brk s \<and> alimit A = mem_max_addr s \<and> abase A = mem_start_brk s + 16"
  using lay_base(6) [of s "chunks A"] by (simp add: rep_def atop_def base_def)

lemma mm_malloc_used:
  assumes inv: "heap_inv s" and sz: "small_ok sz" and run: "mm_malloc sz s = Inr (q, s')"
  shows "mem_brk s \<le> mem_brk s' \<and> mem_brk s' \<le> mem_brk s + need sz \<and> mem_max_addr s' = mem_max_addr s \<and>
    mem_heap_lo s' = mem_heap_lo s \<and> (q = 0 \<longrightarrow> mem_max_addr s < mem_brk s + need sz)"
proof -
  let ?A = "abs_heap s"
  note rep = heap_invD [OF inv] and b = size_ok_bounds [OF small_ok_size [OF sz]]
  obtain A' where m: "a_malloc sz ?A = (q, A')" "rep s' A'"
    using mm_malloc_ok [OF rep b(2,3)] run by (cases "a_malloc sz ?A") auto
  have "block_need sz < 2 ^ 31" using block_need_le_need [of sz] small_ok_need [OF sz] by linarith
  then show ?thesis
    using a_malloc_atop [OF rep_a_ok [OF rep] m(1) _ b(1)] rep_atop [OF rep] rep_atop [OF m(2)]
      block_need_le_need [of sz]
    by (auto simp: NULL_def mem_heap_lo_def)
qed

lemma mm_free_used:
  assumes inv: "heap_inv s" and p: "payloads s p = Some k" and run: "mm_free p s = Inr ((), s')"
  shows "mem_brk s' = mem_brk s \<and> mem_max_addr s' = mem_max_addr s \<and> mem_heap_lo s' = mem_heap_lo s"
proof -
  note rep = heap_invD [OF inv]
  obtain us vs where c: "cut (abase (abs_heap s)) (chunks (abs_heap s)) (p - 8) = Some (us, (k + 16, True), vs)"
    using p live_cut unfolding payloads_def by blast
  have "rep s' (a_free p (abs_heap s))" using mm_free_ok [OF rep c] run by auto
  then show ?thesis
    using rep_atop [OF rep] rep_atop a_free_atop [of p "abs_heap s"] by (force simp: mem_heap_lo_def)
qed

lemma mm_realloc_used:
  assumes inv: "heap_inv s" and sz: "small_ok sz" and p: "payloads s p = Some k"
    and run: "mm_realloc p sz s = Inr (q, s')"
  shows "mem_brk s \<le> mem_brk s' \<and> mem_brk s' \<le> mem_brk s + need sz \<and> mem_max_addr s' = mem_max_addr s \<and>
    mem_heap_lo s' = mem_heap_lo s \<and> (q = 0 \<longrightarrow> mem_max_addr s < mem_brk s + need sz)"
proof -
  let ?A = "abs_heap s"
  note rep = heap_invD [OF inv] and b = size_ok_bounds [OF small_ok_size [OF sz]]
  have live: "live ?A p = Some k" using p by (simp add: payloads_def)
  obtain us vs where c: "cut (abase ?A) (chunks ?A) (p - 8) = Some (us, (k + 16, True), vs)"
    using live_cut [OF live] .
  obtain A' where r: "a_realloc p sz ?A = (q, A')" "rep s' A'"
    using mm_realloc_ok [OF rep c b(1,2,4)] run unfolding realloc_done_def
    by (cases "a_realloc p sz ?A") auto
  show ?thesis
    using a_realloc_atop [OF rep_a_ok [OF rep] live sz r(1)] rep_atop [OF rep] rep_atop [OF r(2)]
    by (auto simp: NULL_def mem_heap_lo_def)
qed

lemma need_nonneg: "0 \<le> need sz"
  using block_need_bounds(1) by (simp add: need_def order_trans [of 0 32])

interpretation mm_bounded: bounded heap_inv payloads mem mem_heap_lo mem_heap_hi small_ok mm_malloc mm_free
    mm_realloc mem_brk mem_max_addr need
proof unfold_locales
  fix s sz p k
  assume inv: "heap_inv s" and small: "small_ok sz"
  note size = small_ok_size [OF small]
  show "\<exists>q s'. mm_malloc sz s = Inr (q, s') \<and> heap_inv s' \<and> payload_kept (payloads s) (mem s) (mem s') \<and>
        (q = 0 \<and> payloads s' = payloads s \<or>
         q \<noteq> 0 \<and> payloads s q = None \<and> (\<exists>k. sz \<le> k \<and> payloads s' = (payloads s)(q \<mapsto> k)))"
    by (rule mm_malloc_law [OF inv size])
  assume p: "payloads s p = Some k"
  show "\<exists>q s'. mm_realloc p sz s = Inr (q, s') \<and> heap_inv s' \<and>
        payload_kept ((payloads s)(p := None)) (mem s) (mem s') \<and>
        (q = 0 \<and> payloads s' = payloads s \<and> payload_kept (payloads s) (mem s) (mem s') \<or>
         q \<noteq> 0 \<and> ((payloads s)(p := None)) q = None \<and>
         (\<exists>m. sz \<le> m \<and> k \<le> m \<and> payloads s' = ((payloads s)(p := None))(q \<mapsto> m)) \<and>
         (\<forall>i. 0 \<le> i \<longrightarrow> i < k \<longrightarrow> mem s' (q + i) = mem s (p + i)))"
    by (rule mm_realloc_law [OF inv size p])
qed (fact mm_free_law payloads_region payloads_apart mm_malloc_used mm_free_used mm_realloc_used need_nonneg)+

end
