(* ===== verification/Ranges.thy ===== *)
theory Ranges
  imports MM Complex_Main
begin

text \<open>
  The state of the test driver \<^verbatim>\<open>mdriver.c\<close> and its range list: the extent of
  every payload the driver believes to be allocated, which \<open>add_range\<close> uses to
  detect blocks that are misaligned, outside the heap or overlapping.

  The allocator under test is a component of the driver's state, so that the
  same driver can run the package of \<^verbatim>\<open>mm.c\<close> or the C library's.  The lemmas say
  exactly when \<open>add_range\<close> accepts a block, and that it accepts every block that
  is aligned, inside the heap and disjoint from the recorded ones.
\<close>

section \<open>State\<close>

text \<open>What \<open>malloc_error\<close> is told; the messages with addresses keep the addresses.\<close>

datatype complaint =
    Text string
  | Not_Aligned int
  | Outside_Heap int int int int
  | Overlaps int int int int

text \<open>
  \<open>hp\<close> is the allocator under test, \<open>ranges\<close> the range list from its head,
  \<open>blocks\<close> and \<open>block_sizes\<close> the two arrays of the trace, \<open>errors\<close> the global error
  count, \<open>reports\<close> what was printed on \<open>stderr\<close> (newest first, as trace number,
  line number and message), and \<open>mm_stats\<close> the error messages per trace, \<open>None\<close>
  while the array has not been allocated.  \<open>libc_out\<close> says that the C library
  has no memory left for a range node.
\<close>

record 'h driver =
  hp :: 'h
  ranges :: "(int \<times> int) list"
  blocks :: "int list"
  block_sizes :: "int list"
  errors :: int
  reports :: "(int \<times> int \<times> complaint) list"
  mm_stats :: "(int \<Rightarrow> (int \<times> complaint) option) option"
  libc_out :: bool

definition on_heap :: "('h, 'a) prog \<Rightarrow> ('h driver, 'a) prog" where
  "on_heap m = (\<lambda>d. case m (hp d) of Inl e \<Rightarrow> Inl e | Inr (x, h) \<Rightarrow> Inr (x, d\<lparr>hp := h\<rparr>))"

lemma on_heap_apply [prog_eval]:
  "on_heap m d = (case m (hp d) of Inl e \<Rightarrow> Inl e | Inr (x, h) \<Rightarrow> Inr (x, d\<lparr>hp := h\<rparr>))"
  by (simp add: on_heap_def)

section \<open>Errors\<close>

definition LINENUM :: "int \<Rightarrow> int" where
  "LINENUM i = i + 5"

definition malloc_error :: "int \<Rightarrow> int \<Rightarrow> complaint \<Rightarrow> ('h driver, unit) prog" where
  "malloc_error tracenum opnum msg =
     bnd (gets errors) (\<lambda>e. bnd (int_add e 1) (\<lambda>e'.
     seqp (modify (\<lambda>d. d\<lparr>errors := e'\<rparr>))
    (seqp (modify (\<lambda>d. d\<lparr>reports := (tracenum, LINENUM opnum, msg) # reports d\<rparr>))
          (modify (\<lambda>d. d\<lparr>mm_stats :=
             map_option (\<lambda>f. f(tracenum := Some (LINENUM opnum, msg))) (mm_stats d)\<rparr>)))))"

definition app_error :: "('s, 'a) prog" where
  "app_error = raise (Exit 1)"

definition unix_error :: "('s, 'a) prog" where
  "unix_error = raise (Exit 1)"

text \<open>What a report leaves behind.\<close>

definition reported :: "int \<Rightarrow> int \<Rightarrow> complaint \<Rightarrow> 'h driver \<Rightarrow> 'h driver" where
  "reported tracenum opnum msg d =
     d\<lparr>errors := errors d + 1, reports := (tracenum, LINENUM opnum, msg) # reports d,
       mm_stats := map_option (\<lambda>f. f(tracenum := Some (LINENUM opnum, msg))) (mm_stats d)\<rparr>"

lemma malloc_error_ok [prog_eval]:
  "malloc_error tn i msg d =
     (if is_int (errors d + 1) then Inr ((), reported tn i msg d) else Inl Signed_Overflow)"
  by (simp add: malloc_error_def prog_eval reported_def)

section \<open>The range list\<close>

definition hits :: "int \<Rightarrow> int \<Rightarrow> int \<times> int \<Rightarrow> bool" where
  "hits lo hi = (\<lambda>(plo, phi). (lo \<ge> plo \<and> lo \<le> phi) \<or> (hi \<ge> plo \<and> hi \<le> phi))"

definition add_range :: "int \<Rightarrow> int \<Rightarrow> int \<Rightarrow> int \<Rightarrow> (heap driver, int) prog" where
  "add_range lo sz tracenum opnum =
     (if sz = 0 then ret 1
      else
        let hi = lo + sz - 1 in
        seqp (assertp (sz > 0))
       (if lo mod ALIGNMENT \<noteq> 0 then
          seqp (malloc_error tracenum opnum (Not_Aligned lo)) (ret 0)
        else
          bnd (gets (mem_heap_lo \<circ> hp)) (\<lambda>heap_lo.
          bnd (gets (mem_heap_hi \<circ> hp)) (\<lambda>heap_hi.
            if lo < heap_lo \<or> lo > heap_hi \<or> hi < heap_lo \<or> hi > heap_hi then
              seqp (malloc_error tracenum opnum (Outside_Heap lo hi heap_lo heap_hi)) (ret 0)
            else
              bnd (gets ranges) (\<lambda>rs.
                case List.find (hits lo hi) rs of
                  Some (plo, phi) \<Rightarrow>
                    seqp (malloc_error tracenum opnum (Overlaps lo hi plo phi)) (ret 0)
                | None \<Rightarrow>
                    bnd (gets libc_out) (\<lambda>no_memory.
                      if no_memory then unix_error
                      else seqp (modify (\<lambda>d. d\<lparr>ranges := (lo, hi) # ranges d\<rparr>)) (ret 1)))))))"

fun without_lo :: "int \<Rightarrow> (int \<times> int) list \<Rightarrow> (int \<times> int) list" where
  "without_lo lo [] = []"
| "without_lo lo (r # rs) = (if fst r = lo then rs else r # without_lo lo rs)"

definition remove_range :: "int \<Rightarrow> ('h driver, unit) prog" where
  "remove_range lo = modify (\<lambda>d. d\<lparr>ranges := without_lo lo (ranges d)\<rparr>)"

definition clear_ranges :: "('h driver, unit) prog" where
  "clear_ranges = modify (\<lambda>d. d\<lparr>ranges := []\<rparr>)"

section \<open>What the range list guarantees\<close>

definition disjoint_from :: "int \<Rightarrow> int \<Rightarrow> (int \<times> int) list \<Rightarrow> bool" where
  "disjoint_from lo hi rs \<longleftrightarrow> (\<forall>(plo, phi)\<in>set rs. hi < plo \<or> phi < lo)"

lemma hits_disjoint: "lo \<le> hi \<Longrightarrow> disjoint_from lo hi rs \<Longrightarrow> List.find (hits lo hi) rs = None"
  by (auto simp: disjoint_from_def hits_def find_None_iff)

lemma no_hit:
  "List.find (hits lo hi) rs = None \<longleftrightarrow>
     (\<forall>(plo, phi)\<in>set rs. (lo < plo \<or> phi < lo) \<and> (hi < plo \<or> phi < hi))"
proof -
  have "\<not> hits lo hi p \<longleftrightarrow> (case p of (plo, phi) \<Rightarrow> (lo < plo \<or> phi < lo) \<and> (hi < plo \<or> phi < hi))" for p
    by (cases p) (simp add: hits_def not_le)
  then show ?thesis by (auto simp: find_None_iff)
qed

lemma add_range_accepts:
  assumes "0 < sz" and "lo mod 8 = 0" and "mem_heap_lo (hp d) \<le> lo" and "lo + sz - 1 \<le> mem_heap_hi (hp d)"
    and "disjoint_from lo (lo + sz - 1) (ranges d)" and "\<not> libc_out d"
  shows "add_range lo sz tn i d = Inr (1, d\<lparr>ranges := (lo, lo + sz - 1) # ranges d\<rparr>)"
  using assms hits_disjoint [of lo "lo + sz - 1" "ranges d"]
  by (simp add: add_range_def prog_eval Let_def mm_consts)

text \<open>
  A block that \<open>add_range\<close> accepts shares no endpoint with a recorded one; it is
  disjoint from it unless it contains it strictly, which the test does not see.
\<close>

lemma hits_complete:
  assumes "lo \<le> hi" and "plo \<le> phi" and "\<not> hits lo hi (plo, phi)"
  shows "hi < plo \<or> phi < lo \<or> lo < plo \<and> phi < hi"
  using assms by (auto simp: hits_def)

lemma add_range_result:
  assumes "add_range lo sz tn i d = Inr (r, d')" and "sz \<noteq> 0"
  shows "0 < sz"
    and "r = 1 \<Longrightarrow> lo mod 8 = 0 \<and> mem_heap_lo (hp d) \<le> lo \<and> lo + sz - 1 \<le> mem_heap_hi (hp d) \<and>
      (\<forall>p\<in>set (ranges d). \<not> hits lo (lo + sz - 1) p) \<and>
      d' = d\<lparr>ranges := (lo, lo + sz - 1) # ranges d\<rparr>"
    and "r \<noteq> 1 \<Longrightarrow> r = 0 \<and> errors d' = errors d + 1 \<and> ranges d' = ranges d"
  using assms
  by (auto simp: add_range_def prog_eval Let_def mm_consts unix_error_def reported_def find_None_iff
      split: if_splits option.splits)

lemma without_lo_set:
  "distinct (map fst rs) \<Longrightarrow> set (without_lo lo rs) = {r \<in> set rs. fst r \<noteq> lo}"
  by (induction rs) (auto simp: image_iff)

lemma without_lo_distinct:
  "distinct (map fst rs) \<Longrightarrow> distinct (map fst (without_lo lo rs))"
proof (induction rs)
  case (Cons r rs)
  then show ?case using without_lo_set [of rs lo] by (auto simp: image_iff)
qed simp

end
