(* ===== verification/Traces.thy ===== *)
theory Traces
  imports Ranges
begin

text \<open>
  Traces and their evaluation in \<^verbatim>\<open>mdriver.c\<close>: a trace is a list of requests
  with indices for the blocks; \<open>eval_mm_valid\<close> replays it and checks every result,
  \<open>eval_mm_util\<close> replays it and measures how much of the heap was in use,
  \<open>eval_mm_speed\<close> replays it for timing; the \<open>eval_libc\<close> functions do the same with
  the C library's allocator, which is a parameter.  The quotient of two
  \<open>double\<close>s is modelled by a real number.
\<close>

section \<open>Traces\<close>

datatype optype = ALLOC | FREE | REALLOC

record traceop =
  op_type :: optype
  op_index :: int
  op_size :: int

text \<open>The two arrays of a trace; an index outside them is a bad address.\<close>

definition get_block :: "int \<Rightarrow> ('h driver, int) prog" where
  "get_block i = (\<lambda>d. if 0 \<le> i \<and> i < int (length (blocks d))
     then Inr (blocks d ! nat i, d) else Inl Bad_Address)"

definition set_block :: "int \<Rightarrow> int \<Rightarrow> ('h driver, unit) prog" where
  "set_block i p = (\<lambda>d. if 0 \<le> i \<and> i < int (length (blocks d))
     then Inr ((), d\<lparr>blocks := (blocks d)[nat i := p]\<rparr>) else Inl Bad_Address)"

definition get_block_size :: "int \<Rightarrow> ('h driver, int) prog" where
  "get_block_size i = (\<lambda>d. if 0 \<le> i \<and> i < int (length (block_sizes d))
     then Inr (block_sizes d ! nat i, d) else Inl Bad_Address)"

definition set_block_size :: "int \<Rightarrow> int \<Rightarrow> ('h driver, unit) prog" where
  "set_block_size i n = (\<lambda>d. if 0 \<le> i \<and> i < int (length (block_sizes d))
     then Inr ((), d\<lparr>block_sizes := (block_sizes d)[nat i := n]\<rparr>) else Inl Bad_Address)"

section \<open>eval\_mm\_valid\<close>

text \<open>The loop that compares \<open>newp[j]\<close>, a signed \<open>char\<close>, with the low byte of the index.\<close>

fun same_bytes :: "int \<Rightarrow> int \<Rightarrow> nat \<Rightarrow> (heap, bool) prog" where
  "same_bytes p v 0 = ret True"
| "same_bytes p v (Suc n) =
     bnd (load_char p) (\<lambda>c. if c \<noteq> v then ret False else same_bytes (p + 1) v n)"

text \<open>One request; the result says whether the replay goes on.\<close>

definition valid_alloc :: "int \<Rightarrow> int \<Rightarrow> int \<Rightarrow> int \<Rightarrow> (heap driver, bool) prog" where
  "valid_alloc tracenum i index sz =
     bnd (on_heap (mm_malloc sz)) (\<lambda>p.
       if p = NULL \<and> sz \<noteq> 0 then
         seqp (malloc_error tracenum i (Text ''mm_malloc failed.'')) (ret False)
       else if sz = 0 then ret True
       else
         bnd (add_range p sz tracenum i) (\<lambda>ok.
           if ok = 0 then ret False
           else
             seqp (on_heap (memset p (index AND 0xFF) sz))
            (seqp (set_block index p)
            (seqp (set_block_size index sz)
            (ret True)))))"

definition valid_realloc :: "int \<Rightarrow> int \<Rightarrow> int \<Rightarrow> int \<Rightarrow> (heap driver, bool) prog" where
  "valid_realloc tracenum i index sz =
     bnd (get_block index) (\<lambda>oldp.
     bnd (on_heap (mm_realloc oldp sz)) (\<lambda>newp.
       if newp = NULL \<and> sz \<noteq> 0 then
         seqp (malloc_error tracenum i (Text ''mm_realloc failed.'')) (ret False)
       else if sz = 0 then ret True
       else
         seqp (remove_range oldp)
        (bnd (add_range newp sz tracenum i) (\<lambda>ok.
           if ok = 0 then ret False
           else
             bnd (get_block_size index) (\<lambda>n.
             let oldsize0 = int_of_long n;
                 oldsize = (if sz < oldsize0 then sz else oldsize0) in
             bnd (on_heap (same_bytes newp (index AND 0xFF) (nat oldsize))) (\<lambda>same.
               if \<not> same then
                 seqp (malloc_error tracenum i
                        (Text ''mm_realloc did not preserve the data from old block''))
                      (ret False)
               else
                 seqp (on_heap (memset newp (index AND 0xFF) sz))
                (seqp (set_block index newp)
                (seqp (set_block_size index sz)
                (ret True)))))))))"

definition valid_free :: "int \<Rightarrow> (heap driver, bool) prog" where
  "valid_free index =
     bnd (get_block index) (\<lambda>p.
     seqp (remove_range p)
    (seqp (on_heap (mm_free p))
    (ret True)))"

definition valid_op :: "int \<Rightarrow> int \<Rightarrow> traceop \<Rightarrow> (heap driver, bool) prog" where
  "valid_op tracenum i r =
     (case op_type r of
        ALLOC \<Rightarrow> valid_alloc tracenum i (op_index r) (op_size r)
      | REALLOC \<Rightarrow> valid_realloc tracenum i (op_index r) (op_size r)
      | FREE \<Rightarrow> valid_free (op_index r))"

fun valid_ops :: "int \<Rightarrow> int \<Rightarrow> traceop list \<Rightarrow> (heap driver, int) prog" where
  "valid_ops tracenum i [] = ret 1"
| "valid_ops tracenum i (r # rs) =
     bnd (valid_op tracenum i r) (\<lambda>go_on.
       if go_on then valid_ops tracenum (i + 1) rs else ret 0)"

definition eval_mm_valid :: "traceop list \<Rightarrow> int \<Rightarrow> (heap driver, int) prog" where
  "eval_mm_valid ops tracenum =
     seqp (on_heap mem_reset_brk)
    (seqp clear_ranges
    (bnd (on_heap mm_init) (\<lambda>r.
       if r < 0 then
         seqp (malloc_error tracenum 0 (Text ''mm_init failed.'')) (ret 0)
       else valid_ops tracenum 0 ops)))"

section \<open>eval\_mm\_util\<close>

text \<open>
  The totals are C \<open>int\<close>s.  The loop carries \<open>total_size\<close> and \<open>max_total_size\<close>;
  \<open>None\<close> is the early return of 0.
\<close>

definition util_alloc :: "int \<Rightarrow> int \<Rightarrow> int \<Rightarrow> int \<Rightarrow> int \<Rightarrow> int \<Rightarrow>
    (heap driver, (int \<times> int) option) prog" where
  "util_alloc tracenum i index sz tot max_total =
     bnd (on_heap (mm_malloc sz)) (\<lambda>p.
       if p = NULL \<and> sz \<noteq> 0 then app_error
       else if sz = 0 then ret (Some (tot, max_total))
       else
         bnd (add_range p sz tracenum i) (\<lambda>ok.
           if ok = 0 then ret None
           else
             seqp (on_heap (memset p (index AND 0xFF) sz))
            (seqp (set_block index p)
            (seqp (set_block_size index sz)
            (bnd (int_add tot sz) (\<lambda>tot'.
             ret (Some (tot', max tot' max_total))))))))"

definition util_realloc :: "int \<Rightarrow> int \<Rightarrow> int \<Rightarrow> int \<Rightarrow> int \<Rightarrow> int \<Rightarrow>
    (heap driver, (int \<times> int) option) prog" where
  "util_realloc tracenum i index newsize tot max_total =
     bnd (get_block_size index) (\<lambda>_.
     bnd (get_block index) (\<lambda>oldp.
     bnd (on_heap (mm_realloc oldp newsize)) (\<lambda>newp.
       if newp = NULL \<and> newsize \<noteq> 0 then app_error
       else if newsize = 0 then ret (Some (tot, max_total))
       else
         seqp (remove_range oldp)
        (bnd (add_range newp newsize tracenum i) (\<lambda>ok.
           if ok = 0 then ret None
           else
             seqp (on_heap (memset newp (index AND 0xFF) newsize))
            (bnd (get_block_size index) (\<lambda>n.
             let oldsize = int_of_long n in
             seqp (set_block index newp)
            (seqp (set_block_size index newsize)
            (bnd (int_add newsize (- oldsize)) (\<lambda>diff.
             bnd (int_add tot diff) (\<lambda>tot'.
             ret (Some (tot', max tot' max_total)))))))))))))"

definition util_free :: "int \<Rightarrow> int \<Rightarrow> int \<Rightarrow> (heap driver, (int \<times> int) option) prog" where
  "util_free index tot max_total =
     bnd (get_block_size index) (\<lambda>n.
     let sz = int_of_long n in
     bnd (get_block index) (\<lambda>p.
     seqp (remove_range p)
    (seqp (on_heap (mm_free p))
    (bnd (int_add tot (- sz)) (\<lambda>tot'.
     ret (Some (tot', max_total)))))))"

definition util_op :: "int \<Rightarrow> int \<Rightarrow> traceop \<Rightarrow> int \<Rightarrow> int \<Rightarrow>
    (heap driver, (int \<times> int) option) prog" where
  "util_op tracenum i r tot max_total =
     (case op_type r of
        ALLOC \<Rightarrow> util_alloc tracenum i (op_index r) (op_size r) tot max_total
      | REALLOC \<Rightarrow> util_realloc tracenum i (op_index r) (op_size r) tot max_total
      | FREE \<Rightarrow> util_free (op_index r) tot max_total)"

fun util_ops :: "int \<Rightarrow> int \<Rightarrow> traceop list \<Rightarrow> int \<Rightarrow> int \<Rightarrow> (heap driver, int option) prog" where
  "util_ops tracenum i [] tot max_total = ret (Some max_total)"
| "util_ops tracenum i (r # rs) tot max_total =
     bnd (util_op tracenum i r tot max_total) (\<lambda>res.
       case res of
         None \<Rightarrow> ret None
       | Some (tot', max_total') \<Rightarrow> util_ops tracenum (i + 1) rs tot' max_total')"

definition eval_mm_util :: "traceop list \<Rightarrow> int \<Rightarrow> (heap driver, real) prog" where
  "eval_mm_util ops tracenum =
     seqp (on_heap mem_reset_brk)
    (seqp clear_ranges
    (bnd (on_heap mm_init) (\<lambda>r.
       if r < 0 then app_error
       else
         bnd (util_ops tracenum 0 ops 0 0) (\<lambda>res.
           case res of
             None \<Rightarrow> ret 0
           | Some max_total \<Rightarrow>
               bnd (gets (mem_heapsize \<circ> hp)) (\<lambda>sz. ret (of_int max_total / of_int sz))))))"

section \<open>eval\_mm\_speed\<close>

definition speed_op :: "traceop \<Rightarrow> (heap driver, unit) prog" where
  "speed_op r =
     (let index = op_index r; sz = op_size r in
      case op_type r of
        ALLOC \<Rightarrow>
          bnd (on_heap (mm_malloc sz)) (\<lambda>p.
            if p = NULL then app_error
            else seqp (on_heap (memset p (index AND 0xFF) sz)) (set_block index p))
      | REALLOC \<Rightarrow>
          bnd (get_block index) (\<lambda>oldp.
          bnd (on_heap (mm_realloc oldp sz)) (\<lambda>newp.
            if newp = NULL then app_error
            else seqp (on_heap (memset newp (index AND 0xFF) sz)) (set_block index newp)))
      | FREE \<Rightarrow> bnd (get_block index) (\<lambda>block. on_heap (mm_free block)))"

fun speed_ops :: "traceop list \<Rightarrow> (heap driver, unit) prog" where
  "speed_ops [] = ret ()"
| "speed_ops (r # rs) = seqp (speed_op r) (speed_ops rs)"

definition eval_mm_speed :: "traceop list \<Rightarrow> (heap driver, unit) prog" where
  "eval_mm_speed ops =
     seqp (on_heap mem_reset_brk)
    (bnd (on_heap mm_init) (\<lambda>r. if r < 0 then app_error else speed_ops ops))"

section \<open>The C library's allocator\<close>

text \<open>The C library's \<open>malloc\<close>, \<open>realloc\<close> and \<open>free\<close> are the parameters.\<close>

definition libc_valid_op ::
  "(int \<Rightarrow> ('h, int) prog) \<Rightarrow> (int \<Rightarrow> int \<Rightarrow> ('h, int) prog) \<Rightarrow> (int \<Rightarrow> ('h, unit) prog) \<Rightarrow>
   int \<Rightarrow> int \<Rightarrow> traceop \<Rightarrow> ('h driver, unit) prog" where
  "libc_valid_op lmalloc lrealloc lfree tracenum i r =
     (case op_type r of
        ALLOC \<Rightarrow>
          bnd (on_heap (lmalloc (op_size r))) (\<lambda>p.
            seqp (if p = NULL then
                    seqp (malloc_error tracenum i (Text ''libc malloc failed'')) unix_error
                  else ret ())
                 (set_block (op_index r) p))
      | REALLOC \<Rightarrow>
          bnd (get_block (op_index r)) (\<lambda>oldp.
          bnd (on_heap (lrealloc oldp (op_size r))) (\<lambda>newp.
            seqp (if newp = NULL then
                    seqp (malloc_error tracenum i (Text ''libc realloc failed'')) unix_error
                  else ret ())
                 (set_block (op_index r) newp)))
      | FREE \<Rightarrow> bnd (get_block (op_index r)) (\<lambda>p. on_heap (lfree p)))"

fun libc_valid_ops ::
  "(int \<Rightarrow> ('h, int) prog) \<Rightarrow> (int \<Rightarrow> int \<Rightarrow> ('h, int) prog) \<Rightarrow> (int \<Rightarrow> ('h, unit) prog) \<Rightarrow>
   int \<Rightarrow> int \<Rightarrow> traceop list \<Rightarrow> ('h driver, unit) prog" where
  "libc_valid_ops lmalloc lrealloc lfree tracenum i [] = ret ()"
| "libc_valid_ops lmalloc lrealloc lfree tracenum i (r # rs) =
     seqp (libc_valid_op lmalloc lrealloc lfree tracenum i r)
          (libc_valid_ops lmalloc lrealloc lfree tracenum (i + 1) rs)"

definition eval_libc_valid ::
  "(int \<Rightarrow> ('h, int) prog) \<Rightarrow> (int \<Rightarrow> int \<Rightarrow> ('h, int) prog) \<Rightarrow> (int \<Rightarrow> ('h, unit) prog) \<Rightarrow>
   traceop list \<Rightarrow> int \<Rightarrow> ('h driver, int) prog" where
  "eval_libc_valid lmalloc lrealloc lfree ops tracenum =
     seqp (libc_valid_ops lmalloc lrealloc lfree tracenum 0 ops) (ret 1)"

definition libc_speed_op ::
  "(int \<Rightarrow> ('h, int) prog) \<Rightarrow> (int \<Rightarrow> int \<Rightarrow> ('h, int) prog) \<Rightarrow> (int \<Rightarrow> ('h, unit) prog) \<Rightarrow>
   traceop \<Rightarrow> ('h driver, unit) prog" where
  "libc_speed_op lmalloc lrealloc lfree r =
     (let index = op_index r; sz = op_size r in
      case op_type r of
        ALLOC \<Rightarrow>
          bnd (on_heap (lmalloc sz)) (\<lambda>p. if p = NULL then unix_error else set_block index p)
      | REALLOC \<Rightarrow>
          bnd (get_block index) (\<lambda>oldp.
          bnd (on_heap (lrealloc oldp sz)) (\<lambda>newp.
            if newp = NULL then unix_error else set_block index newp))
      | FREE \<Rightarrow> bnd (get_block index) (\<lambda>block. on_heap (lfree block)))"

fun eval_libc_speed ::
  "(int \<Rightarrow> ('h, int) prog) \<Rightarrow> (int \<Rightarrow> int \<Rightarrow> ('h, int) prog) \<Rightarrow> (int \<Rightarrow> ('h, unit) prog) \<Rightarrow>
   traceop list \<Rightarrow> ('h driver, unit) prog" where
  "eval_libc_speed lmalloc lrealloc lfree [] = ret ()"
| "eval_libc_speed lmalloc lrealloc lfree (r # rs) =
     seqp (libc_speed_op lmalloc lrealloc lfree r) (eval_libc_speed lmalloc lrealloc lfree rs)"

end
