(* ===== verification/Replay.thy ===== *)
theory Replay
  imports Growth Traces
begin

text \<open>
  What the driver knows while it replays a trace: \<open>tracks d L\<close> says that for the
  indices \<open>L\<close> of live blocks the arrays hold exactly the live payloads of the
  heap, that the range list holds exactly their extents, and that every block is
  filled with the low byte of its index.  Every request of a well-formed trace
  keeps this, or ends the replay because memory ran out.
\<close>

abbreviation bl :: "'h driver \<Rightarrow> int \<Rightarrow> int" where
  "bl d i \<equiv> blocks d ! nat i"

abbreviation bsz :: "'h driver \<Rightarrow> int \<Rightarrow> int" where
  "bsz d i \<equiv> block_sizes d ! nat i"

text \<open>The indices that a trace may use.\<close>

definition ids :: "'h driver \<Rightarrow> int set" where
  "ids d = {i. 0 \<le> i \<and> i < int (length (blocks d)) \<and> i < int (length (block_sizes d))}"

text \<open>The pointers of the live indices are the live payloads, one for each.\<close>

definition points :: "heap driver \<Rightarrow> int set \<Rightarrow> bool" where
  "points d L \<longleftrightarrow> heap_inv (hp d) \<and> L \<subseteq> ids d \<and> inj_on (bl d) L \<and>
     dom (payloads (hp d)) = bl d ` L"

definition sized :: "heap driver \<Rightarrow> int set \<Rightarrow> bool" where
  "sized d L \<longleftrightarrow> (\<forall>i\<in>L. 0 < bsz d i \<and> bsz d i < 2 ^ 31 \<and>
     (\<exists>k. payloads (hp d) (bl d i) = Some k \<and> bsz d i \<le> k))"

definition ranged :: "heap driver \<Rightarrow> int set \<Rightarrow> bool" where
  "ranged d L \<longleftrightarrow> distinct (map fst (ranges d)) \<and>
     set (ranges d) = (\<lambda>i. (bl d i, bl d i + bsz d i - 1)) ` L"

definition filled :: "heap driver \<Rightarrow> int set \<Rightarrow> bool" where
  "filled d L \<longleftrightarrow> (\<forall>i\<in>L. \<forall>j. 0 \<le> j \<longrightarrow> j < bsz d i \<longrightarrow>
     mem (hp d) (bl d i + j) = word_of_int (i AND 0xFF))"

definition tracks :: "heap driver \<Rightarrow> int set \<Rightarrow> bool" where
  "tracks d L \<longleftrightarrow> points d L \<and> sized d L \<and> ranged d L \<and> filled d L \<and> \<not> libc_out d"

text \<open>The array updates of a request that has been served.\<close>

definition recorded :: "int \<Rightarrow> int \<Rightarrow> int \<Rightarrow> heap \<Rightarrow> (int \<times> int) list \<Rightarrow> heap driver \<Rightarrow> heap driver" where
  "recorded i q sz h rs d =
     d\<lparr>hp := h, ranges := (q, q + sz - 1) # rs, blocks := (blocks d)[nat i := q],
       block_sizes := (block_sizes d)[nat i := sz]\<rparr>"

lemma array_steps:
  assumes "i \<in> ids d"
  shows "get_block i d = Inr (bl d i, d)" and "get_block_size i d = Inr (bsz d i, d)"
    and "set_block i p d = Inr ((), d\<lparr>blocks := (blocks d)[nat i := p]\<rparr>)"
    and "set_block_size i n d = Inr ((), d\<lparr>block_sizes := (block_sizes d)[nat i := n]\<rparr>)"
  using assms
  by (simp_all add: ids_def get_block_def get_block_size_def set_block_def set_block_size_def)

lemma ids_fields [simp]:
  "ids (d\<lparr>hp := h\<rparr>) = ids d" "ids (d\<lparr>ranges := rs\<rparr>) = ids d"
  "ids (d\<lparr>blocks := (blocks d)[m := p]\<rparr>) = ids d"
  by (simp_all add: ids_def)

lemma nat_index_eq: "i \<in> ids d \<Longrightarrow> j \<in> ids d \<Longrightarrow> nat i = nat j \<longleftrightarrow> i = j"
  by (auto simp: ids_def)

lemma recorded_arrays:
  assumes "i \<in> ids d" and "j \<in> ids d"
  shows "bl (recorded i q sz h rs d) j = (if j = i then q else bl d j)"
    and "bsz (recorded i q sz h rs d) j = (if j = i then sz else bsz d j)"
  using assms nat_index_eq [OF assms]
  by (auto simp: recorded_def ids_def nth_list_update)

lemma recorded_ids [simp]: "ids (recorded i q sz h rs d) = ids d"
  by (simp add: ids_def recorded_def)

lemma tracks_recorded:
  assumes tr: "tracks d L" and i: "i \<in> ids d" and K: "K = L - {i}"
    and inv: "heap_inv h" and pay: "payloads h = M(q \<mapsto> k)" and q: "M q = None"
    and M: "M = payloads (hp d) |` (bl d ` K)"
    and kept: "payload_kept M (mem (hp d)) (mem h)"
    and sz: "0 < sz" "sz < 2 ^ 31" "sz \<le> k"
    and fill: "\<And>j. 0 \<le> j \<Longrightarrow> j < sz \<Longrightarrow> mem h (q + j) = word_of_int (i AND 0xFF)"
    and rs: "distinct (map fst rs)" "set rs = (\<lambda>i. (bl d i, bl d i + bsz d i - 1)) ` K"
  shows "tracks (recorded i q sz h rs d) (insert i K)"
proof -
  let ?d = "recorded i q sz h rs d"
  have p: "points d L" and s: "sized d L" and f: "filled d L" and out: "\<not> libc_out d"
    using tr by (simp_all add: tracks_def)
  have L: "K \<subseteq> ids d" "i \<notin> K" "K \<subseteq> L" using p K by (auto simp: points_def)
  note ar = recorded_arrays [OF i, of _ q sz h rs]
  have old: "bl ?d j = bl d j" "bsz ?d j = bsz d j" if "j \<in> K" for j
    using ar that L by auto
  have new: "bl ?d i = q" "bsz ?d i = sz" using ar i by auto
  have domM: "dom M = bl d ` K" using M p L(3) by (auto simp: points_def)
  have qK: "bl d j \<noteq> q" if "j \<in> K" for j using q domM that by auto
  have qn: "q \<notin> bl d ` K" using domM q by auto
  have Mj: "M (bl d j) = payloads (hp d) (bl d j)" if "j \<in> K" for j using M that by simp
  have "inj_on (bl d) K" using p L(3) inj_on_subset unfolding points_def by blast
  then have "inj_on (bl ?d) K" using inj_on_cong [of K "bl ?d" "bl d"] old(1) by blast
  moreover have "q \<notin> bl ?d ` K" using old(1) qK by auto
  ultimately have "inj_on (bl ?d) (insert i K)" using L(2) new(1) by simp
  moreover have "dom (payloads h) = bl ?d ` insert i K"
    using pay domM old new by auto
  ultimately have "points ?d (insert i K)"
    using inv L(1) i by (auto simp: points_def recorded_def ids_def)
  moreover have "sized ?d (insert i K)"
  proof -
    have "0 < bsz ?d j \<and> bsz ?d j < 2 ^ 31 \<and> (\<exists>k. payloads h (bl ?d j) = Some k \<and> bsz ?d j \<le> k)"
      if "j \<in> K" for j
      using s L(3) that old [OF that] Mj [OF that] pay qK [OF that] by (auto simp: sized_def)
    then show ?thesis using new pay sz by (auto simp: sized_def recorded_def)
  qed
  moreover have "ranged ?d (insert i K)"
  proof -
    have "fst ` set rs = bl d ` K" using rs(2) by (simp add: image_image)
    then have "q \<notin> fst ` set rs" using qn by simp
    moreover have "(\<lambda>j. (bl ?d j, bl ?d j + bsz ?d j - 1)) ` K = set rs"
      using rs(2) old by (auto simp: image_iff)
    ultimately show ?thesis using rs(1) new by (simp add: ranged_def recorded_def)
  qed
  moreover have "filled ?d (insert i K)"
  proof -
    have "mem h (bl d j + n) = word_of_int (j AND 0xFF)" if "j \<in> K" "0 \<le> n" "n < bsz d j" for j n
    proof -
      have jL: "j \<in> L" using L(3) that(1) by blast
      then obtain m where m: "payloads (hp d) (bl d j) = Some m" "bsz d j \<le> m"
        using s unfolding sized_def by blast
      then have "mem h (bl d j + n) = mem (hp d) (bl d j + n)"
        using payload_keptD [OF kept, of "bl d j" m n] Mj [OF that(1)] that by simp
      then show ?thesis using f jL that(2,3) by (simp add: filled_def)
    qed
    then show ?thesis using old new fill by (auto simp: filled_def recorded_def)
  qed
  ultimately show ?thesis using out by (simp add: tracks_def recorded_def)
qed

text \<open>An operation that changes no payload, nor any of its bytes.\<close>

lemma tracks_quiet:
  assumes tr: "tracks d L" and inv: "heap_inv h" and pay: "payloads h = payloads (hp d)"
    and kept: "payload_kept (payloads (hp d)) (mem (hp d)) (mem h)"
  shows "tracks (d\<lparr>hp := h\<rparr>) L"
proof -
  have p: "points d L" and s: "sized d L" and f: "filled d L" and r: "ranged d L" and out: "\<not> libc_out d"
    using tr by (simp_all add: tracks_def)
  have "mem h (bl d i + j) = word_of_int (i AND 0xFF)" if i: "i \<in> L" and j: "0 \<le> j" "j < bsz d i" for i j
  proof -
    obtain k where k: "payloads (hp d) (bl d i) = Some k" "bsz d i \<le> k" using s i by (auto simp: sized_def)
    have "mem h (bl d i + j) = mem (hp d) (bl d i + j)" using payload_keptD [OF kept k(1) j(1)] j(2) k(2) by simp
    then show ?thesis using f i j by (simp add: filled_def)
  qed
  then have "filled (d\<lparr>hp := h\<rparr>) L" by (simp add: filled_def)
  moreover have "points (d\<lparr>hp := h\<rparr>) L" using p inv pay by (simp add: points_def)
  moreover have "sized (d\<lparr>hp := h\<rparr>) L" "ranged (d\<lparr>hp := h\<rparr>) L"
    using s r pay by (simp_all add: sized_def ranged_def)
  ultimately show ?thesis using out by (simp add: tracks_def)
qed

section \<open>Outcomes of a request\<close>

text \<open>How far the break has moved, and that nothing has been reported.\<close>

definition took :: "int \<Rightarrow> heap driver \<Rightarrow> heap driver \<Rightarrow> bool" where
  "took n d d' \<longleftrightarrow> mem_brk (hp d) \<le> mem_brk (hp d') \<and> mem_brk (hp d') \<le> mem_brk (hp d) + n \<and>
     mem_max_addr (hp d') = mem_max_addr (hp d) \<and> mem_heap_lo (hp d') = mem_heap_lo (hp d)"

definition silent :: "'h driver \<Rightarrow> 'h driver \<Rightarrow> bool" where
  "silent d d' \<longleftrightarrow> errors d' = errors d \<and> reports d' = reports d \<and> mm_stats d' = mm_stats d \<and>
     ids d' = ids d"

definition out_of_memory :: "complaint set" where
  "out_of_memory = {Text ''mm_malloc failed.'', Text ''mm_realloc failed.''}"

definition served :: "int \<Rightarrow> int \<Rightarrow> heap driver \<Rightarrow> int \<Rightarrow> int set \<Rightarrow> fault + (bool \<times> heap driver) \<Rightarrow> bool" where
  "served tn n d c L r \<longleftrightarrow>
     (\<exists>d'. r = Inr (True, d') \<and> tracks d' L \<and> took c d d' \<and> silent d d') \<or>
     (\<exists>h msg. r = Inr (False, reported tn n msg (d\<lparr>hp := h\<rparr>)) \<and> msg \<in> out_of_memory \<and>
        mem_max_addr (hp d) < mem_brk (hp d) + c)"

lemma silent_recorded: "silent d (recorded i q sz h rs d)"
  by (simp add: silent_def) (simp add: recorded_def)

lemma memset_fields:
  "memset p c n s = Inr (u, s') \<Longrightarrow>
     mem_brk s' = mem_brk s \<and> mem_max_addr s' = mem_max_addr s \<and> mem_heap_lo s' = mem_heap_lo s"
  by (auto simp: memset_def mem_heap_lo_def split: if_splits)

text \<open>The extents of the other live blocks are disjoint from a new payload.\<close>

lemma disjoint_new:
  assumes tr: "tracks d L" and K: "K \<subseteq> L" and inv: "heap_inv h"
    and pay: "payloads h = M(q \<mapsto> k)" and q: "M q = None"
    and M: "M = payloads (hp d) |` (bl d ` K)" and sz: "sz \<le> k"
    and rs: "set rs = (\<lambda>i. (bl d i, bl d i + bsz d i - 1)) ` K"
  shows "disjoint_from q (q + sz - 1) rs"
proof -
  have "q + sz - 1 < plo \<or> phi < q" if r: "(plo, phi) \<in> set rs" for plo phi
  proof -
    obtain j where j: "j \<in> K" "plo = bl d j" "phi = bl d j + bsz d j - 1" using rs r by auto
    then have jL: "j \<in> L" using K by blast
    then obtain m where m: "payloads (hp d) (bl d j) = Some m" "bsz d j \<le> m"
      using tr unfolding tracks_def sized_def by blast
    have Mj: "M (bl d j) = Some m" using M m(1) j(1) by simp
    then have ne: "bl d j \<noteq> q" using q by auto
    then have "payloads h (bl d j) = Some m" "payloads h q = Some k" using pay Mj by simp_all
    from mm.apart [OF inv this ne] have "bl d j + m \<le> q \<or> q + k \<le> bl d j" .
    then show "q + sz - 1 < plo \<or> phi < q"
    proof
      assume "bl d j + m \<le> q"
      then have "phi < q" using j m(2) by simp
      then show ?thesis by blast
    next
      assume "q + k \<le> bl d j"
      then have "q + sz - 1 < plo" using j sz by simp
      then show ?thesis by blast
    qed
  qed
  then show ?thesis unfolding disjoint_from_def by blast
qed

text \<open>
  The second half of \<open>ALLOC\<close> and \<open>REALLOC\<close>: the block passes the checks of
  \<open>add_range\<close>, is filled, and is recorded in the arrays.
\<close>

lemma fill_record:
  assumes tr: "tracks d L" and i: "i \<in> ids d" and K: "K = L - {i}"
    and inv: "heap_inv h" and pay: "payloads h = M(q \<mapsto> k)" and q: "M q = None"
    and M: "M = payloads (hp d) |` (bl d ` K)"
    and kept: "payload_kept M (mem (hp d)) (mem h)"
    and sz: "0 < sz" "sz < 2 ^ 31" "sz \<le> k"
    and rs: "distinct (map fst rs)" "set rs = (\<lambda>i. (bl d i, bl d i + bsz d i - 1)) ` K"
  shows "add_range q sz tn n (d\<lparr>hp := h, ranges := rs\<rparr>) =
      Inr (1, d\<lparr>hp := h, ranges := (q, q + sz - 1) # rs\<rparr>)"
    and "\<exists>h2. memset q (i AND 0xFF) sz h = Inr ((), h2) \<and>
      mem_brk h2 = mem_brk h \<and> mem_max_addr h2 = mem_max_addr h \<and> mem_heap_lo h2 = mem_heap_lo h \<and>
      tracks (recorded i q sz h2 rs d) (insert i K)"
proof -
  have qk: "payloads h q = Some k" using pay by simp
  note reg = mm.region [OF inv qk]
  have "disjoint_from q (q + sz - 1) rs"
    by (rule disjoint_new [OF tr _ inv pay q M sz(3) rs(2)]) (use K in blast)
  then show "add_range q sz tn n (d\<lparr>hp := h, ranges := rs\<rparr>) =
      Inr (1, d\<lparr>hp := h, ranges := (q, q + sz - 1) # rs\<rparr>)"
    using add_range_accepts [of sz q "d\<lparr>hp := h, ranges := rs\<rparr>" tn n] reg sz tr
    by (simp add: tracks_def)
  have "0 \<le> sz" using sz(1) by simp
  then obtain h2 where h2: "memset q (i AND 0xFF) sz h = Inr ((), h2)" "heap_inv h2"
      "payloads h2 = payloads h" "payload_kept ((payloads h)(q := None)) (mem h) (mem h2)"
      "\<forall>j. 0 \<le> j \<longrightarrow> j < k \<longrightarrow> mem h2 (q + j) = (if j < sz then word_of_int (i AND 0xFF) else mem h (q + j))"
    using mm_write.fill [OF inv qk _ sz(3), of "i AND 0xFF"] by blast
  have "M \<subseteq>\<^sub>m (payloads h)(q := None)" using pay q by (auto simp: map_le_def)
  then have "payload_kept M (mem (hp d)) (mem h2)"
    using payload_kept_trans [OF kept payload_kept_mono [OF h2(4)]] by blast
  moreover have "payloads h2 = M(q \<mapsto> k)" using h2(3) pay by simp
  ultimately have "tracks (recorded i q sz h2 rs d) (insert i K)"
    using h2(5) sz(3) by (intro tracks_recorded [OF tr i K h2(2) _ q M _ sz _ rs]) simp_all
  then show "\<exists>h2. memset q (i AND 0xFF) sz h = Inr ((), h2) \<and>
      mem_brk h2 = mem_brk h \<and> mem_max_addr h2 = mem_max_addr h \<and> mem_heap_lo h2 = mem_heap_lo h \<and>
      tracks (recorded i q sz h2 rs d) (insert i K)"
    using h2(1) memset_fields [OF h2(1)] by blast
qed

section \<open>The requests\<close>

text \<open>
  \<open>mm_malloc\<close> as the driver sees it: memory has run out, or the block passes the
  checks and can be filled and recorded.
\<close>

lemma alloc_cases:
  assumes tr: "tracks d L" and i: "i \<in> ids d" "i \<notin> L" and sz: "small_ok sz"
  obtains (fail) h where "mm_malloc sz (hp d) = Inr (0, h)"
      and "mem_max_addr (hp d) < mem_brk (hp d) + need sz" and "tracks (d\<lparr>hp := h\<rparr>) L"
      and "took (need sz) d (d\<lparr>hp := h\<rparr>)"
  | (ok) q h h2 where "mm_malloc sz (hp d) = Inr (q, h)" and "q \<noteq> 0"
      and "add_range q sz tn n (d\<lparr>hp := h\<rparr>) = Inr (1, d\<lparr>hp := h, ranges := (q, q + sz - 1) # ranges d\<rparr>)"
      and "memset q (i AND 0xFF) sz h = Inr ((), h2)"
      and "tracks (recorded i q sz h2 (ranges d) d) (insert i L)"
      and "took (need sz) d (recorded i q sz h2 (ranges d) d)"
proof -
  have inv: "heap_inv (hp d)" using tr by (simp add: tracks_def points_def)
  have sz': "0 < sz" "sz < 2 ^ 31" using sz by (simp_all add: small_ok_def)
  obtain q h where m: "mm_malloc sz (hp d) = Inr (q, h)" "heap_inv h"
      "payload_kept (payloads (hp d)) (mem (hp d)) (mem h)"
    and c: "q = 0 \<and> payloads h = payloads (hp d) \<or>
      q \<noteq> 0 \<and> payloads (hp d) q = None \<and> (\<exists>k. sz \<le> k \<and> payloads h = (payloads (hp d))(q \<mapsto> k))"
    using mm_bounded.malloc [OF inv sz] by blast
  note u = mm_malloc_used [OF inv sz m(1)]
  show thesis
  proof (cases "q = 0")
    case True
    then show thesis using fail m(1) u tracks_quiet [OF tr m(2) _ m(3)] c by (simp add: took_def)
  next
    case False
    then obtain k where k: "payloads (hp d) q = None" "sz \<le> k" "payloads h = (payloads (hp d))(q \<mapsto> k)"
      using c by blast
    have K: "L = L - {i}" using i(2) by simp
    have M: "payloads (hp d) = payloads (hp d) |` (bl d ` L)"
      using tr by (auto simp: tracks_def points_def restrict_map_def fun_eq_iff dom_def)
    have rs: "distinct (map fst (ranges d))" "set (ranges d) = (\<lambda>i. (bl d i, bl d i + bsz d i - 1)) ` L"
      using tr by (simp_all add: tracks_def ranged_def)
    note fr = fill_record [OF tr i(1) K m(2) k(3,1) M m(3) sz' k(2) rs]
    obtain h2 where h2: "memset q (i AND 0xFF) sz h = Inr ((), h2)"
        "mem_brk h2 = mem_brk h" "mem_max_addr h2 = mem_max_addr h" "mem_heap_lo h2 = mem_heap_lo h"
        "tracks (recorded i q sz h2 (ranges d) d) (insert i L)"
      using fr(2) by blast
    have "took (need sz) d (recorded i q sz h2 (ranges d) d)"
      using u h2 by (simp add: took_def recorded_def)
    then show thesis using ok [OF m(1) False _ h2(1) h2(5)] fr(1) by simp
  qed
qed

lemma valid_alloc_ok:
  assumes tr: "tracks d L" and i: "i \<in> ids d" "i \<notin> L" and sz: "small_ok sz" and e: "is_int (errors d + 1)"
  shows "served tn n d (need sz) (insert i L) (valid_alloc tn n i sz d)"
proof -
  have sz0: "sz \<noteq> 0" using sz by (simp add: small_ok_def)
  show ?thesis
  proof (cases rule: alloc_cases [OF tr i sz, where tn = tn and n = n, case_names fail ok])
    case (fail h)
    have "valid_alloc tn n i sz d = Inr (False, reported tn n (Text ''mm_malloc failed.'') (d\<lparr>hp := h\<rparr>))"
      using fail(1) sz0 e by (simp add: valid_alloc_def prog_eval NULL_def)
    then show ?thesis using fail(2) unfolding served_def out_of_memory_def by blast
  next
    case (ok q h h2)
    have "valid_alloc tn n i sz d = Inr (True, recorded i q sz h2 (ranges d) d)"
      using ok(1-4) sz0 i(1)
      by (simp add: valid_alloc_def prog_eval NULL_def set_block_def set_block_size_def ids_def recorded_def)
    then show ?thesis using ok(5,6) silent_recorded unfolding served_def by blast
  qed
qed

lemma sint_low: "0 \<le> v \<Longrightarrow> v < 128 \<Longrightarrow> sint (word_of_int v :: 8 word) = v"
  by (simp add: sint_sbintrunc' signed_take_bit_int_eq_self)

lemma sint_high: "128 \<le> v \<Longrightarrow> v < 256 \<Longrightarrow> sint (word_of_int v :: 8 word) \<noteq> v"
  using sint_lt [of "word_of_int v :: 8 word"] by auto

lemma low_byte: "0 \<le> i AND 0xFF" "i AND 0xFF < (256 :: int)"
  by (simp_all add: and_255)

lemma same_bytes_ok:
  assumes "0 \<le> v" and "v < 128" and "in_heap h p (int n)"
    and "\<And>j. 0 \<le> j \<Longrightarrow> j < int n \<Longrightarrow> mem h (p + j) = word_of_int v"
  shows "same_bytes p v n h = Inr (True, h)"
  using assms(3,4)
proof (induction n arbitrary: p)
  case (Suc n)
  have "mem h p = word_of_int v" using Suc.prems(2) [of 0] by simp
  moreover have "mem h (p + 1 + j) = word_of_int v" if "0 \<le> j" "j < int n" for j
    using Suc.prems(2) [of "1 + j"] that by (simp add: add.assoc)
  ultimately show ?case
    using Suc.prems(1) Suc.IH [of "p + 1"] sint_low [OF assms(1,2)]
    by (simp add: prog_eval load_char_def in_heap_def)
qed (simp add: ret_apply)

lemma same_bytes_high:
  assumes "128 \<le> v" and "v < 256" and "in_heap h p (int n)" and "n \<noteq> 0"
    and "mem h p = word_of_int v"
  shows "same_bytes p v n h = Inr (False, h)"
  using assms sint_high [OF assms(1,2)]
  by (cases n) (simp_all add: prog_eval load_char_def in_heap_def)

text \<open>What \<open>mm_realloc\<close> of a live block gives the driver, before its checks.\<close>

lemma tracks_live:
  assumes "tracks d L" and "i \<in> L"
  shows "heap_inv (hp d)" and "i \<in> ids d" and "0 < bsz d i" and "bsz d i < 2 ^ 31"
    and "\<exists>k. payloads (hp d) (bl d i) = Some k \<and> bsz d i \<le> k"
  using assms by (auto simp: tracks_def points_def sized_def)

lemma tracks_other_map:
  assumes tr: "tracks d L" and i: "i \<in> L"
  shows "(payloads (hp d))(bl d i := None) = payloads (hp d) |` (bl d ` (L - {i}))"
proof
  fix p
  have inj: "inj_on (bl d) L" and dom: "dom (payloads (hp d)) = bl d ` L"
    using tr by (simp_all add: tracks_def points_def)
  have "p \<in> bl d ` (L - {i}) \<longleftrightarrow> p \<in> bl d ` L \<and> p \<noteq> bl d i"
    using inj i by (auto dest: inj_onD)
  then show "((payloads (hp d))(bl d i := None)) p = (payloads (hp d) |` (bl d ` (L - {i}))) p"
    using dom by (auto simp: restrict_map_def)
qed

lemma image_filter: "{r \<in> f ` A. P r} = f ` {a \<in> A. P (f a)}"
  by blast

lemma tracks_without:
  assumes tr: "tracks d L" and i: "i \<in> L"
  shows "distinct (map fst (without_lo (bl d i) (ranges d)))"
    and "set (without_lo (bl d i) (ranges d)) = (\<lambda>j. (bl d j, bl d j + bsz d j - 1)) ` (L - {i})"
proof -
  have r: "distinct (map fst (ranges d))" "set (ranges d) = (\<lambda>j. (bl d j, bl d j + bsz d j - 1)) ` L"
    and inj: "inj_on (bl d) L"
    using tr by (simp_all add: tracks_def ranged_def points_def)
  show "distinct (map fst (without_lo (bl d i) (ranges d)))" by (rule without_lo_distinct [OF r(1)])
  have "j \<noteq> i" if "j \<in> L" "bl d j \<noteq> bl d i" for j using that by auto
  moreover have "bl d j \<noteq> bl d i" if "j \<in> L" "j \<noteq> i" for j
    using inj_onD [OF inj, of j i] that i by blast
  ultimately have E: "L - {i} = {j \<in> L. bl d j \<noteq> bl d i}" by blast
  show "set (without_lo (bl d i) (ranges d)) = (\<lambda>j. (bl d j, bl d j + bsz d j - 1)) ` (L - {i})"
    unfolding without_lo_set [OF r(1)] r(2) E image_filter by simp
qed

lemma realloc_cases:
  assumes tr: "tracks d L" and i: "i \<in> L" and sz: "small_ok sz"
  obtains (fail) h where "mm_realloc (bl d i) sz (hp d) = Inr (0, h)"
      and "mem_max_addr (hp d) < mem_brk (hp d) + need sz" and "tracks (d\<lparr>hp := h\<rparr>) L"
      and "took (need sz) d (d\<lparr>hp := h\<rparr>)"
  | (ok) q h h2 where "mm_realloc (bl d i) sz (hp d) = Inr (q, h)" and "q \<noteq> 0"
      and "add_range q sz tn n (d\<lparr>hp := h, ranges := without_lo (bl d i) (ranges d)\<rparr>) =
        Inr (1, d\<lparr>hp := h, ranges := (q, q + sz - 1) # without_lo (bl d i) (ranges d)\<rparr>)"
      and "in_heap h q (min sz (bsz d i))"
      and "\<And>j. 0 \<le> j \<Longrightarrow> j < bsz d i \<Longrightarrow> mem h (q + j) = word_of_int (i AND 0xFF)"
      and "memset q (i AND 0xFF) sz h = Inr ((), h2)"
      and "tracks (recorded i q sz h2 (without_lo (bl d i) (ranges d)) d) L"
      and "took (need sz) d (recorded i q sz h2 (without_lo (bl d i) (ranges d)) d)"
proof -
  note live = tracks_live [OF tr i]
  have sz': "0 < sz" "sz < 2 ^ 31" using sz by (simp_all add: small_ok_def)
  obtain k where k: "payloads (hp d) (bl d i) = Some k" "bsz d i \<le> k" using live(5) by blast
  let ?M = "(payloads (hp d))(bl d i := None)"
  obtain q h where m: "mm_realloc (bl d i) sz (hp d) = Inr (q, h)" "heap_inv h"
      "payload_kept ?M (mem (hp d)) (mem h)"
    and c: "q \<noteq> 0 \<Longrightarrow> ?M q = None \<and> (\<exists>m. sz \<le> m \<and> k \<le> m \<and> payloads h = ?M(q \<mapsto> m)) \<and>
        (\<forall>j. 0 \<le> j \<longrightarrow> j < k \<longrightarrow> mem h (q + j) = mem (hp d) (bl d i + j))"
    and c0: "q = 0 \<Longrightarrow> payloads h = payloads (hp d) \<and> payload_kept (payloads (hp d)) (mem (hp d)) (mem h)"
    using mm_bounded.realloc [OF live(1) sz k(1)] by blast
  note u = mm_realloc_used [OF live(1) sz k(1) m(1)]
  show thesis
  proof (cases "q = 0")
    case True
    then show thesis using fail m(1) u tracks_quiet [OF tr m(2)] c0 by (simp add: took_def)
  next
    case False
    then obtain m' where m': "?M q = None" "sz \<le> m'" "k \<le> m'" "payloads h = ?M(q \<mapsto> m')"
        "\<And>j. 0 \<le> j \<Longrightarrow> j < k \<Longrightarrow> mem h (q + j) = mem (hp d) (bl d i + j)"
      using c by blast
    let ?rs = "without_lo (bl d i) (ranges d)"
    note fr = fill_record [OF tr live(2) refl m(2) m'(4,1) tracks_other_map [OF tr i] m(3) sz' m'(2)
        tracks_without [OF tr i]]
    obtain h2 where h2: "memset q (i AND 0xFF) sz h = Inr ((), h2)"
        "mem_brk h2 = mem_brk h" "mem_max_addr h2 = mem_max_addr h" "mem_heap_lo h2 = mem_heap_lo h"
        "tracks (recorded i q sz h2 ?rs d) (insert i (L - {i}))"
      using fr(2) by blast
    have "payloads h q = Some m'" using m'(4) by simp
    moreover have "q + min sz (bsz d i) \<le> q + m'" using m'(2) by linarith
    ultimately have heap: "in_heap h q (min sz (bsz d i))"
      using mm.region [OF m(2), of q m'] by (simp add: in_heap_def mem_heap_lo_def mem_heap_hi_def)
    have data: "mem h (q + j) = word_of_int (i AND 0xFF)" if "0 \<le> j" "j < bsz d i" for j
      using m'(5) [of j] tr i k(2) that by (simp add: tracks_def filled_def)
    have "took (need sz) d (recorded i q sz h2 ?rs d)"
      using u h2 by (simp add: took_def recorded_def)
    moreover have "insert i (L - {i}) = L" using i by blast
    ultimately show thesis using ok [OF m(1) False fr(1) heap data h2(1)] h2(5) by simp
  qed
qed

lemma valid_realloc_ok:
  assumes tr: "tracks d L" and i: "i \<in> L" and low: "i AND 0xFF < 128" and sz: "small_ok sz"
    and e: "is_int (errors d + 1)"
  shows "served tn n d (need sz) L (valid_realloc tn n i sz d)"
proof -
  note live = tracks_live [OF tr i] and ar = array_steps [OF tracks_live(2) [OF tr i]]
  have sz0: "0 < sz" "sz \<noteq> 0" using sz by (simp_all add: small_ok_def)
  show ?thesis
  proof (cases rule: realloc_cases [OF tr i sz, where tn = tn and n = n, case_names fail ok])
    case (fail h)
    have "valid_realloc tn n i sz d =
        Inr (False, reported tn n (Text ''mm_realloc failed.'') (d\<lparr>hp := h\<rparr>))"
      using fail(1) sz0 e ar(1) by (simp add: valid_realloc_def prog_eval NULL_def)
    then show ?thesis using fail(2) unfolding served_def out_of_memory_def by blast
  next
    case (ok q h h2)
    let ?n = "min sz (bsz d i)" and ?rs = "without_lo (bl d i) (ranges d)"
    have n: "0 \<le> ?n" using sz0(1) live(3) by simp
    have same: "same_bytes q (i AND 0xFF) (nat ?n) h = Inr (True, h)"
      using low_byte(1) low ok(4,5) n by (intro same_bytes_ok) simp_all
    have old: "int_of_long (bsz d i) = bsz d i"
      using live(3,4) by (simp add: int_of_long_id is_int_def)
    have "valid_realloc tn n i sz d = Inr (True, recorded i q sz h2 ?rs d)"
      using ok(1-3,6) sz0 live(2) ar(1) same
      by (cases "sz < bsz d i")
        (simp_all add: valid_realloc_def prog_eval NULL_def set_block_def set_block_size_def
          get_block_size_def ids_def recorded_def remove_range_def Let_def old)
    then show ?thesis using ok(7,8) silent_recorded unfolding served_def by blast
  qed
qed

text \<open>
  The comparison of a signed \<open>char\<close> with the low byte of the index fails for every
  index whose low byte is 128 or more, although the data is there.
\<close>

lemma valid_realloc_high:
  assumes tr: "tracks d L" and i: "i \<in> L" and high: "128 \<le> i AND 0xFF" and sz: "small_ok sz"
    and e: "is_int (errors d + 1)"
    and room: "mem_brk (hp d) + need sz \<le> mem_max_addr (hp d)"
  shows "\<exists>d1. valid_realloc tn n i sz d = Inr (False, reported tn n
      (Text ''mm_realloc did not preserve the data from old block'') d1) \<and>
    (\<exists>q. q \<noteq> 0 \<and> mm_realloc (bl d i) sz (hp d) = Inr (q, hp d1) \<and>
       (\<forall>j. 0 \<le> j \<longrightarrow> j < bsz d i \<longrightarrow> mem (hp d1) (q + j) = mem (hp d) (bl d i + j)))"
proof -
  note live = tracks_live [OF tr i] and ar = array_steps [OF tracks_live(2) [OF tr i]]
  have sz0: "0 < sz" "sz \<noteq> 0" using sz by (simp_all add: small_ok_def)
  show ?thesis
  proof (cases rule: realloc_cases [OF tr i sz, where tn = tn and n = n, case_names fail ok])
    case (fail h)
    then show ?thesis using room by simp
  next
    case (ok q h h2)
    let ?n = "min sz (bsz d i)" and ?rs = "without_lo (bl d i) (ranges d)"
    have n: "0 < ?n" using sz0(1) live(3) by simp
    have same: "same_bytes q (i AND 0xFF) (nat ?n) h = Inr (False, h)"
      using low_byte(2) high ok(4) ok(5) [of 0] live(3) n by (intro same_bytes_high) simp_all
    have old: "int_of_long (bsz d i) = bsz d i"
      using live(3,4) by (simp add: int_of_long_id is_int_def)
    let ?d1 = "d\<lparr>hp := h, ranges := (q, q + sz - 1) # ?rs\<rparr>"
    have "valid_realloc tn n i sz d = Inr (False, reported tn n
        (Text ''mm_realloc did not preserve the data from old block'') ?d1)"
      using ok(1-3) sz0 live(2) ar(1) same e
      by (cases "sz < bsz d i")
        (simp_all add: valid_realloc_def prog_eval NULL_def
          get_block_size_def ids_def remove_range_def Let_def old reported_def)
    moreover have "mem h (q + j) = mem (hp d) (bl d i + j)" if "0 \<le> j" "j < bsz d i" for j
      using ok(5) [OF that] tr i that by (simp add: tracks_def filled_def)
    ultimately show ?thesis using ok(1,2) by (intro exI [of _ ?d1]) auto
  qed
qed

lemma free_step:
  assumes tr: "tracks d L" and i: "i \<in> L"
  obtains h where "mm_free (bl d i) (hp d) = Inr ((), h)"
    and "tracks (d\<lparr>hp := h, ranges := without_lo (bl d i) (ranges d)\<rparr>) (L - {i})"
    and "took 0 d (d\<lparr>hp := h, ranges := without_lo (bl d i) (ranges d)\<rparr>)"
proof -
  note live = tracks_live [OF tr i]
  obtain k where k: "payloads (hp d) (bl d i) = Some k" using live(5) by blast
  obtain h where h: "mm_free (bl d i) (hp d) = Inr ((), h)" "heap_inv h"
      "payloads h = (payloads (hp d))(bl d i := None)" "payload_kept (payloads h) (mem (hp d)) (mem h)"
    using mm.free [OF live(1) k] by blast
  note u = mm_free_used [OF live(1) k h(1)]
  let ?rs = "without_lo (bl d i) (ranges d)" and ?K = "L - {i}"
  let ?d = "d\<lparr>hp := h, ranges := ?rs\<rparr>"
  have P: "payloads h = payloads (hp d) |` (bl d ` ?K)"
    using h(3) tracks_other_map [OF tr i] by simp
  have Pj: "payloads h (bl d j) = payloads (hp d) (bl d j)" if "j \<in> ?K" for j using P that by simp
  have p: "points d L" "sized d L" "filled d L" "\<not> libc_out d" using tr by (simp_all add: tracks_def)
  have "bl d ` L \<inter> bl d ` ?K = bl d ` ?K" by blast
  then have "dom (payloads h) = bl d ` ?K" using P p(1) by (simp add: points_def)
  moreover have "inj_on (bl d) ?K"
    by (rule inj_on_subset [of _ L]) (use p(1) in \<open>auto simp: points_def\<close>)
  ultimately have "points ?d ?K" using p(1) h(2) by (auto simp: points_def ids_def)
  moreover have "sized ?d ?K" using p(2) Pj by (auto simp: sized_def)
  moreover have "ranged ?d ?K" using tracks_without [OF tr i] by (simp add: ranged_def)
  moreover have "filled ?d ?K"
    unfolding filled_def
  proof clarify
    fix j m :: int
    assume j: "j \<in> L" "j \<noteq> i" and m: "0 \<le> m" "m < bsz ?d j"
    obtain k where k: "payloads (hp d) (bl d j) = Some k" "bsz d j \<le> k"
      using tracks_live(5) [OF tr j(1)] by blast
    have "payloads h (bl d j) = Some k" using Pj [of j] j k(1) by simp
    from payload_keptD [OF h(4) this m(1)]
    have "mem h (bl d j + m) = mem (hp d) (bl d j + m)" using m(2) k(2) by simp
    then show "mem (hp ?d) (bl ?d j + m) = word_of_int (j AND 0xFF)"
      using p(3) j m by (simp add: filled_def)
  qed
  ultimately have "tracks ?d ?K" using p(4) by (simp add: tracks_def)
  moreover have "took 0 d ?d" using u by (simp add: took_def)
  ultimately show thesis using that h(1) by blast
qed

lemma valid_free_ok:
  assumes tr: "tracks d L" and i: "i \<in> L"
  shows "served tn n d 0 (L - {i}) (valid_free i d)"
proof -
  obtain h where h: "mm_free (bl d i) (hp d) = Inr ((), h)"
      "tracks (d\<lparr>hp := h, ranges := without_lo (bl d i) (ranges d)\<rparr>) (L - {i})"
      "took 0 d (d\<lparr>hp := h, ranges := without_lo (bl d i) (ranges d)\<rparr>)"
    using free_step [OF tr i] .
  let ?d = "d\<lparr>hp := h, ranges := without_lo (bl d i) (ranges d)\<rparr>"
  have "valid_free i d = Inr (True, ?d)"
    using h(1) array_steps(1) [OF tracks_live(2) [OF tr i]]
    by (simp add: valid_free_def prog_eval remove_range_def)
  moreover have "silent d ?d" by (simp add: silent_def ids_def)
  ultimately show ?thesis using h(2,3) unfolding served_def by blast
qed

end
