(* ===== verification/Eval_Valid.thy ===== *)
theory Eval_Valid
  imports Replay
begin

text \<open>
  \<open>eval_mm_valid\<close> on the allocator of \<^verbatim>\<open>mm.c\<close>: on a well-formed trace it accepts
  the package, or reports that memory has run out, which it can do only when the
  trace demands more than the region holds, or that \<open>mm_init\<close> failed in a region
  without room for the two sentinels.  A trace is well formed when it uses
  every index in the order allocate, reallocate, free, with positive sizes; the
  result holds for traces that reallocate only blocks whose index has a low byte
  below 128, since \<open>eval_mm_valid\<close> compares signed characters with that byte.
\<close>

fun trace_ok :: "int set \<Rightarrow> int set \<Rightarrow> traceop list \<Rightarrow> bool" where
  "trace_ok U L [] \<longleftrightarrow> True"
| "trace_ok U L (r # rs) \<longleftrightarrow>
     (let i = op_index r in
      i \<in> U \<and>
      (case op_type r of
         ALLOC \<Rightarrow> i \<notin> L \<and> small_ok (op_size r) \<and> trace_ok U (insert i L) rs
       | REALLOC \<Rightarrow> i \<in> L \<and> small_ok (op_size r) \<and> trace_ok U L rs
       | FREE \<Rightarrow> i \<in> L \<and> trace_ok U (L - {i}) rs))"

definition low_bytes :: "traceop list \<Rightarrow> bool" where
  "low_bytes rs \<longleftrightarrow> (\<forall>r\<in>set rs. op_type r = REALLOC \<longrightarrow> op_index r AND 0xFF < 128)"

lemma low_bytes_Cons [simp]:
  "low_bytes (r # rs) \<longleftrightarrow> (op_type r = REALLOC \<longrightarrow> op_index r AND 0xFF < 128) \<and> low_bytes rs"
  by (auto simp: low_bytes_def)

lemma low_bytes_Nil [simp]: "low_bytes []"
  by (simp add: low_bytes_def)

fun live_after :: "int set \<Rightarrow> traceop list \<Rightarrow> int set" where
  "live_after L [] = L"
| "live_after L (r # rs) =
     live_after (case op_type r of ALLOC \<Rightarrow> insert (op_index r) L
       | REALLOC \<Rightarrow> L | FREE \<Rightarrow> L - {op_index r}) rs"

definition op_need :: "traceop \<Rightarrow> int" where
  "op_need r = (if op_type r = FREE then 0 else need (op_size r))"

definition demand :: "traceop list \<Rightarrow> int" where
  "demand rs = sum_list (map op_need rs)"

lemma op_need_nonneg: "0 \<le> op_need r"
  by (simp add: op_need_def need_nonneg)

lemma demand_nonneg: "0 \<le> demand rs"
  by (induction rs) (simp_all add: demand_def op_need_nonneg)

lemma demand_Cons: "demand (r # rs) = op_need r + demand rs"
  by (simp add: demand_def)

section \<open>The replay\<close>

lemma took_trans: "took m d d1 \<Longrightarrow> took n d1 d2 \<Longrightarrow> took (m + n) d d2"
  by (simp add: took_def)

lemma silent_trans: "silent d d1 \<Longrightarrow> silent d1 d2 \<Longrightarrow> silent d d2"
  by (simp add: silent_def)

lemma valid_op_ok:
  assumes tr: "tracks d L" and ok: "trace_ok U L (r # rs)" and low: "low_bytes (r # rs)" and U: "U = ids d"
    and e: "is_int (errors d + 1)"
  shows "served tn n d (op_need r) (live_after L [r]) (valid_op tn n r d)"
    and "trace_ok U (live_after L [r]) rs"
proof -
  have "served tn n d (op_need r) (live_after L [r]) (valid_op tn n r d) \<and>
      trace_ok U (live_after L [r]) rs"
  proof (cases "op_type r")
    case ALLOC
    then show ?thesis
      using ok U valid_alloc_ok [OF tr _ _ _ e] by (simp add: valid_op_def op_need_def Let_def)
  next
    case FREE
    then show ?thesis
      using ok U valid_free_ok [OF tr] by (simp add: valid_op_def op_need_def Let_def)
  next
    case REALLOC
    then show ?thesis
      using ok U low valid_realloc_ok [OF tr _ _ _ e] by (simp add: valid_op_def op_need_def Let_def)
  qed
  then show "served tn n d (op_need r) (live_after L [r]) (valid_op tn n r d)"
    and "trace_ok U (live_after L [r]) rs" by blast+
qed

text \<open>How a replay ends: in the state that \<open>live_after\<close> predicts, or for lack of memory.\<close>

definition ended :: "int \<Rightarrow> heap driver \<Rightarrow> int \<Rightarrow> int set \<Rightarrow> fault + (int \<times> heap driver) \<Rightarrow> bool" where
  "ended tn d c L r \<longleftrightarrow>
     (\<exists>d'. r = Inr (1, d') \<and> tracks d' L \<and> took c d d' \<and> silent d d') \<or>
     (\<exists>d' line msg. r = Inr (0, d') \<and> errors d' = errors d + 1 \<and>
        reports d' = (tn, line, msg) # reports d \<and> msg \<in> out_of_memory \<and>
        mem_max_addr (hp d) < mem_brk (hp d) + c)"

lemma valid_ops_ok:
  assumes "tracks d L" and "trace_ok U L rs" and "low_bytes rs" and "U = ids d" and "is_int (errors d + 1)"
  shows "ended tn d (demand rs) (live_after L rs) (valid_ops tn n rs d)"
  using assms
proof (induction rs arbitrary: d L n)
  case Nil
  then show ?case by (simp add: ended_def ret_apply took_def silent_def demand_def)
next
  case (Cons r rs)
  note v = valid_op_ok(1) [OF Cons.prems, of tn n] valid_op_ok(2) [OF Cons.prems]
  have live: "live_after L (r # rs) = live_after (live_after L [r]) rs" by simp
  from v(1) show ?case
    unfolding served_def
  proof (elim disjE exE conjE)
    fix d1
    assume d1: "valid_op tn n r d = Inr (True, d1)" "tracks d1 (live_after L [r])" "took (op_need r) d d1"
      "silent d d1"
    have U: "low_bytes rs" "U = ids d1" "is_int (errors d1 + 1)" using Cons.prems(3-5) d1(4) by (simp_all add: silent_def)
    have run: "valid_ops tn n (r # rs) d = valid_ops tn (n + 1) rs d1"
      using d1(1) by (simp add: bnd_apply)
    from Cons.IH [OF d1(2) v(2) U, of "n + 1"] show ?thesis
      unfolding ended_def run live
    proof (elim disjE exE conjE)
      fix d2
      assume "valid_ops tn (n + 1) rs d1 = Inr (1, d2)" "tracks d2 (live_after (live_after L [r]) rs)"
        "took (demand rs) d1 d2" "silent d1 d2"
      then show "(\<exists>d'. valid_ops tn (n + 1) rs d1 = Inr (1, d') \<and>
            tracks d' (live_after (live_after L [r]) rs) \<and> took (demand (r # rs)) d d' \<and> silent d d') \<or>
          (\<exists>d' line msg. valid_ops tn (n + 1) rs d1 = Inr (0, d') \<and> errors d' = errors d + 1 \<and>
            reports d' = (tn, line, msg) # reports d \<and> msg \<in> out_of_memory \<and>
            mem_max_addr (hp d) < mem_brk (hp d) + demand (r # rs))"
        using took_trans [OF d1(3)] silent_trans [OF d1(4)] unfolding demand_Cons by blast
    next
      fix d2 line msg
      assume "valid_ops tn (n + 1) rs d1 = Inr (0, d2)" "errors d2 = errors d1 + 1"
        "reports d2 = (tn, line, msg) # reports d1" "msg \<in> out_of_memory"
        "mem_max_addr (hp d1) < mem_brk (hp d1) + demand rs"
      then show "(\<exists>d'. valid_ops tn (n + 1) rs d1 = Inr (1, d') \<and>
            tracks d' (live_after (live_after L [r]) rs) \<and> took (demand (r # rs)) d d' \<and> silent d d') \<or>
          (\<exists>d' line msg. valid_ops tn (n + 1) rs d1 = Inr (0, d') \<and> errors d' = errors d + 1 \<and>
            reports d' = (tn, line, msg) # reports d \<and> msg \<in> out_of_memory \<and>
            mem_max_addr (hp d) < mem_brk (hp d) + demand (r # rs))"
        using d1(3,4) unfolding demand_Cons took_def silent_def by auto
    qed
  next
    fix h msg
    assume "valid_op tn n r d = Inr (False, reported tn n msg (d\<lparr>hp := h\<rparr>))" "msg \<in> out_of_memory"
      "mem_max_addr (hp d) < mem_brk (hp d) + op_need r"
    then show ?thesis
      using demand_nonneg [of rs]
      by (auto simp: ended_def bnd_apply ret_apply reported_def demand_Cons)
  qed
qed

section \<open>From an empty heap\<close>

text \<open>The driver before a trace: a region for the heap, and the arrays of the trace.\<close>

definition region_ready :: "heap \<Rightarrow> bool" where
  "region_ready s \<longleftrightarrow> 0 < mem_start_brk s \<and> mem_start_brk s mod 8 = 0 \<and> mem_max_addr s < 2 ^ 62 \<and>
     mem_start_brk s + 32 \<le> mem_max_addr s"

text \<open>The state in which the replay starts: a new heap and an empty range list.\<close>

definition restarted :: "heap driver \<Rightarrow> heap driver" where
  "restarted d = d\<lparr>ranges := [], hp := inited (hp d\<lparr>mem_brk := mem_start_brk (hp d)\<rparr>)\<rparr>"

lemma restart:
  assumes ready: "region_ready (hp d)" and out: "\<not> libc_out d"
  shows "on_heap mem_reset_brk d = Inr ((), d\<lparr>hp := hp d\<lparr>mem_brk := mem_start_brk (hp d)\<rparr>\<rparr>)"
    and "mm_init (hp d\<lparr>mem_brk := mem_start_brk (hp d)\<rparr>) = Inr (0, hp (restarted d))"
    and "tracks (restarted d) {}" and "silent d (restarted d)"
    and "mem_brk (hp (restarted d)) = mem_start_brk (hp d) + 32"
    and "mem_max_addr (hp (restarted d)) = mem_max_addr (hp d)"
    and "mem_heap_lo (hp (restarted d)) = mem_start_brk (hp d)"
proof -
  let ?s = "hp d\<lparr>mem_brk := mem_start_brk (hp d)\<rparr>"
  show "on_heap mem_reset_brk d = Inr ((), d\<lparr>hp := ?s\<rparr>)"
    by (simp add: prog_eval mem_reset_brk_def)
  have fr: "fresh ?s" "mem_start_brk ?s + 32 \<le> mem_max_addr ?s"
    using ready by (simp_all add: region_ready_def fresh_def)
  note i = mm_init_rep [OF fr]
  show "mm_init ?s = Inr (0, hp (restarted d))" using i by (simp add: restarted_def)
  have "payloads (inited ?s) = Map.empty"
    using payloads_rep [OF i [THEN conjunct2]] by (simp add: a_init_def live_def fun_eq_iff)
  then show "tracks (restarted d) {}"
    using heap_invI [OF i [THEN conjunct2]] out
    by (simp add: tracks_def points_def sized_def ranged_def filled_def restarted_def)
  show "silent d (restarted d)" by (simp add: silent_def restarted_def ids_def)
  show "mem_brk (hp (restarted d)) = mem_start_brk (hp d) + 32"
    "mem_max_addr (hp (restarted d)) = mem_max_addr (hp d)"
    "mem_heap_lo (hp (restarted d)) = mem_start_brk (hp d)"
    by (simp_all add: restarted_def inited_def Let_def mem_heap_lo_def)
qed

lemma eval_mm_valid_ok:
  assumes ready: "region_ready (hp d)" and out: "\<not> libc_out d"
    and ok: "trace_ok (ids d) {} ops" and low: "low_bytes ops" and e: "is_int (errors d + 1)"
  shows "ended tn (restarted d) (demand ops) (live_after {} ops) (eval_mm_valid ops tn d)"
proof -
  note r = restart [OF ready out]
  have "eval_mm_valid ops tn d = valid_ops tn 0 ops (restarted d)"
    using r(2) by (simp add: eval_mm_valid_def prog_eval clear_ranges_def mem_reset_brk_def restarted_def)
  moreover have "ids d = ids (restarted d)" "is_int (errors (restarted d) + 1)"
    using r(4) e by (simp_all add: silent_def)
  ultimately show ?thesis using valid_ops_ok [OF r(3) ok low] by simp
qed

text \<open>In a region without room for the two sentinels \<open>mm_init\<close> fails, and that is reported.\<close>

lemma eval_mm_valid_no_room:
  assumes d: "0 < mem_start_brk (hp d)" "mem_start_brk (hp d) mod 8 = 0" "mem_max_addr (hp d) < 2 ^ 62"
    and room: "mem_max_addr (hp d) < mem_start_brk (hp d) + 32" and e: "is_int (errors d + 1)"
  shows "\<exists>d'. eval_mm_valid rs tn d = Inr (0, d') \<and> errors d' = errors d + 1 \<and>
    reports d' = (tn, 5, Text ''mm_init failed.'') # reports d"
proof -
  let ?s = "hp d\<lparr>mem_brk := mem_start_brk (hp d)\<rparr>"
  have "fresh ?s" "mem_max_addr ?s < mem_start_brk ?s + 32" using d room by (simp_all add: fresh_def)
  then obtain s' where "mm_init ?s = Inr (- 1, s')" using mm_init_no_room by blast
  then show ?thesis
    using e by (simp add: eval_mm_valid_def prog_eval mem_reset_brk_def clear_ranges_def reported_def LINENUM_def)
qed

end
