(* ===== verification/Eval_Util.thy ===== *)
theory Eval_Util
  imports Eval_Valid
begin

text \<open>
  \<open>eval_mm_util\<close> on the allocator of \<^verbatim>\<open>mm.c\<close>.  The reference is \<open>peak\<close>, which
  computes from the trace alone the largest number of payload bytes that are
  live at any moment.  The utilization is this peak over the size of the heap at
  the end; it lies between 0 and 1, since the live payloads are disjoint pieces
  of the heap.  The traces have no reallocation to size 0: \<open>eval_mm_util\<close> leaves the size
  of the block that it frees in the total (\<open>util_realloc_zero\<close>).
\<close>

section \<open>The reference\<close>

text \<open>The sizes of the live blocks by index, and their sum.\<close>

fun sizes_after :: "(int \<rightharpoonup> int) \<Rightarrow> traceop \<Rightarrow> (int \<rightharpoonup> int)" where
  "sizes_after M r =
     (case op_type r of
        ALLOC \<Rightarrow> M(op_index r \<mapsto> op_size r)
      | REALLOC \<Rightarrow> M(op_index r \<mapsto> op_size r)
      | FREE \<Rightarrow> M(op_index r := None))"

fun total_after :: "(int \<rightharpoonup> int) \<Rightarrow> int \<Rightarrow> traceop \<Rightarrow> int" where
  "total_after M t r =
     (let old = (case M (op_index r) of None \<Rightarrow> 0 | Some n \<Rightarrow> n) in
      if op_type r = FREE then t - old else t - old + op_size r)"

text \<open>\<open>peak M t m rs\<close>: the sizes and their sum now, the largest sum so far, the requests to come.\<close>

fun peak :: "(int \<rightharpoonup> int) \<Rightarrow> int \<Rightarrow> int \<Rightarrow> traceop list \<Rightarrow> int" where
  "peak M t m [] = m"
| "peak M t m (r # rs) =
     (let t' = total_after M t r in peak (sizes_after M r) t' (max t' m) rs)"

definition peak_payload :: "traceop list \<Rightarrow> int" where
  "peak_payload rs = peak Map.empty 0 0 rs"

lemma peak_ge: "m \<le> peak M t m rs"
proof (induction rs arbitrary: M t m)
  case (Cons r rs)
  have "m \<le> max (total_after M t r) m" by simp
  also have "\<dots> \<le> peak M t m (r # rs)" using Cons.IH by (simp add: Let_def)
  finally show ?case .
qed simp

section \<open>The sum of the live sizes\<close>

definition sizes :: "'h driver \<Rightarrow> int set \<Rightarrow> (int \<rightharpoonup> int)" where
  "sizes d L = (\<lambda>i. if i \<in> L then Some (bsz d i) else None)"

definition vol :: "'h driver \<Rightarrow> int set \<Rightarrow> int" where
  "vol d L = (\<Sum>i\<in>L. bsz d i)"

lemma finite_ids: "finite (ids d)"
  by (rule finite_subset [of _ "{0..<int (length (blocks d))}"]) (auto simp: ids_def)

lemma tracks_finite: "tracks d L \<Longrightarrow> finite L"
  using finite_subset [OF _ finite_ids] by (auto simp: tracks_def points_def)

text \<open>Disjoint pieces of an interval are together no longer than the interval.\<close>

lemma disjoint_pieces:
  fixes p n :: "'a \<Rightarrow> int"
  assumes fin: "finite A" and pos: "\<And>x. x \<in> A \<Longrightarrow> 0 \<le> n x"
    and inside: "\<And>x. x \<in> A \<Longrightarrow> lo \<le> p x \<and> p x + n x \<le> hi"
    and apart: "\<And>x y. x \<in> A \<Longrightarrow> y \<in> A \<Longrightarrow> x \<noteq> y \<Longrightarrow> p x + n x \<le> p y \<or> p y + n y \<le> p x"
    and le: "lo \<le> hi"
  shows "(\<Sum>x\<in>A. n x) \<le> hi - lo"
proof -
  let ?I = "\<lambda>x. {p x..<p x + n x}"
  have "?I x \<inter> ?I y = {}" if "x \<in> A" "y \<in> A" "x \<noteq> y" for x y
    using apart [OF that] by auto
  then have "card (\<Union>x\<in>A. ?I x) = (\<Sum>x\<in>A. card (?I x))"
    by (intro card_UN_disjoint) (use fin in auto)
  moreover have "(\<Union>x\<in>A. ?I x) \<subseteq> {lo..<hi}" using inside by fastforce
  then have "card (\<Union>x\<in>A. ?I x) \<le> card {lo..<hi}" by (intro card_mono) auto
  ultimately have "(\<Sum>x\<in>A. nat (n x)) \<le> nat (hi - lo)" by simp
  then have "int (\<Sum>x\<in>A. nat (n x)) \<le> hi - lo" using le by linarith
  moreover have "int (\<Sum>x\<in>A. nat (n x)) = (\<Sum>x\<in>A. n x)"
    unfolding of_nat_sum using pos by (intro sum.cong) auto
  ultimately show ?thesis by simp
qed

lemma heap_not_below:
  assumes inv: "heap_inv s"
  shows "mem_start_brk s \<le> mem_brk s"
  using sizes_ok_extent [OF rep_sizes [OF heap_invD [OF inv]]] lay_base(1,4,6) [of s "chunks (abs_heap s)"]
    heap_invD [OF inv]
  by (auto simp: rep_def)

lemma vol_bounds:
  assumes tr: "tracks d L"
  shows "0 \<le> vol d L" and "vol d L \<le> mem_heapsize (hp d)"
proof -
  have s: "sized d L" and inv: "heap_inv (hp d)" and inj: "inj_on (bl d) L"
    using tr by (simp_all add: tracks_def points_def)
  have pos: "0 \<le> bsz d i" if "i \<in> L" for i using s that by (auto simp: sized_def)
  show "0 \<le> vol d L" using pos by (simp add: vol_def sum_nonneg)
  have k: "\<exists>k. payloads (hp d) (bl d i) = Some k \<and> bsz d i \<le> k" if "i \<in> L" for i
    using s that by (auto simp: sized_def)
  have "(\<Sum>i\<in>L. bsz d i) \<le> mem_brk (hp d) - mem_start_brk (hp d)"
  proof (rule disjoint_pieces [OF tracks_finite [OF tr] pos, where p = "bl d"])
    fix i assume "i \<in> L"
    then obtain k where k: "payloads (hp d) (bl d i) = Some k" "bsz d i \<le> k" using k by blast
    then show "mem_start_brk (hp d) \<le> bl d i \<and> bl d i + bsz d i \<le> mem_brk (hp d)"
      using mm.region [OF inv k(1)] by (simp add: mem_heap_lo_def mem_heap_hi_def)
  next
    fix i j assume ij: "i \<in> L" "j \<in> L" "i \<noteq> j"
    then obtain k m where k: "payloads (hp d) (bl d i) = Some k" "bsz d i \<le> k"
        and m: "payloads (hp d) (bl d j) = Some m" "bsz d j \<le> m"
      using k by metis
    have "bl d i \<noteq> bl d j" using inj_onD [OF inj, of i j] ij by blast
    then show "bl d i + bsz d i \<le> bl d j \<or> bl d j + bsz d j \<le> bl d i"
      using mm.apart [OF inv k(1) m(1)] k(2) m(2) by linarith
  next
    show "mem_start_brk (hp d) \<le> mem_brk (hp d)" by (rule heap_not_below [OF inv])
  qed auto
  then show "vol d L \<le> mem_heapsize (hp d)" by (simp add: vol_def mem_heapsize_def)
qed

text \<open>How recording a block changes the sizes.\<close>

lemma recorded_bsz: "i \<in> ids d \<Longrightarrow> L \<subseteq> ids d \<Longrightarrow> j \<in> L \<Longrightarrow>
    bsz (recorded i q sz h rs d) j = (if j = i then sz else bsz d j)"
  using recorded_arrays(2) [of i d j q sz h rs] by blast

lemma sizes_recorded:
  assumes "i \<in> ids d" and "L \<subseteq> ids d"
  shows "sizes (recorded i q sz h rs d) (insert i L) = (sizes d L)(i \<mapsto> sz)"
  using recorded_bsz [OF assms(1), of "insert i L" _ q sz h rs] assms
  by (auto simp: sizes_def fun_eq_iff)

lemma vol_recorded:
  assumes "i \<in> ids d" and "L \<subseteq> ids d" and "finite L"
  shows "vol (recorded i q sz h rs d) (insert i L) = vol d (L - {i}) + sz"
proof -
  note b = recorded_bsz [OF assms(1), of "insert i L" _ q sz h rs]
  have "(\<Sum>j\<in>L - {i}. bsz (recorded i q sz h rs d) j) = vol d (L - {i})"
    unfolding vol_def using assms b by (intro sum.cong) auto
  moreover have "bsz (recorded i q sz h rs d) i = sz" using assms b by simp
  ultimately show ?thesis
    using sum.insert_remove [OF assms(3), of "bsz (recorded i q sz h rs d)" i] by (simp add: vol_def)
qed

lemma vol_without: "finite L \<Longrightarrow> i \<in> L \<Longrightarrow> vol d (L - {i}) = vol d L - bsz d i"
  by (simp add: vol_def sum_diff1)

section \<open>The replay\<close>

text \<open>
  How a request ends under \<open>eval_mm_util\<close>: it is served and the totals are the
  reference's, or memory has run out and the driver exits.
\<close>

definition counted ::
  "heap driver \<Rightarrow> int \<Rightarrow> int set \<Rightarrow> (int \<rightharpoonup> int) \<Rightarrow> int \<Rightarrow> int \<Rightarrow>
   fault + ((int \<times> int) option \<times> heap driver) \<Rightarrow> bool" where
  "counted d c L M t m r \<longleftrightarrow>
     (\<exists>d'. r = Inr (Some (t, m), d') \<and> tracks d' L \<and> took c d d' \<and> silent d d' \<and>
        sizes d' L = M \<and> vol d' L = t) \<or>
     r = Inl (Exit 1) \<and> mem_max_addr (hp d) < mem_brk (hp d) + c"

text \<open>A region small enough for the totals to be C \<open>int\<close>s.\<close>

definition int_region :: "heap \<Rightarrow> bool" where
  "int_region s \<longleftrightarrow> mem_max_addr s - mem_start_brk s < 2 ^ 31"

lemma took_region: "took c d d' \<Longrightarrow> int_region (hp d) \<Longrightarrow> int_region (hp d')"
  by (simp add: took_def int_region_def mem_heap_lo_def)

lemma brk_le_max: "heap_inv s \<Longrightarrow> mem_brk s \<le> mem_max_addr s"
  using heap_invD [of s] rep_a_ok [of s "abs_heap s"] rep_atop [of s "abs_heap s"] by (simp add: a_ok_def)

lemma vol_is_int: "tracks d L \<Longrightarrow> int_region (hp d) \<Longrightarrow> is_int (vol d L)"
  using vol_bounds [of d L] brk_le_max [of "hp d"]
  by (simp add: is_int_def int_region_def mem_heapsize_def tracks_def points_def)

lemma util_alloc_ok:
  assumes tr: "tracks d L" and i: "i \<in> ids d" "i \<notin> L" and sz: "small_ok sz" and reg: "int_region (hp d)"
  shows "counted d (need sz) (insert i L) ((sizes d L)(i \<mapsto> sz)) (vol d L + sz) (max (vol d L + sz) m)
    (util_alloc tn n i sz (vol d L) m d)"
proof -
  have sz0: "sz \<noteq> 0" using sz by (simp add: small_ok_def)
  have sub: "L \<subseteq> ids d" "finite L" using tr tracks_finite [OF tr] by (simp_all add: tracks_def points_def)
  have Li: "L - {i} = L" using i(2) by blast
  show ?thesis
  proof (cases rule: alloc_cases [OF tr i sz, where tn = tn and n = n, case_names fail ok])
    case (fail h)
    have "util_alloc tn n i sz (vol d L) m d = Inl (Exit 1)"
      using fail(1) sz0 by (simp add: util_alloc_def prog_eval NULL_def app_error_def)
    then show ?thesis using fail(2) by (simp add: counted_def)
  next
    case (ok q h h2)
    let ?d = "recorded i q sz h2 (ranges d) d"
    have v: "vol ?d (insert i L) = vol d L + sz"
      using vol_recorded [OF i(1) sub, of q sz h2 "ranges d"] Li by simp
    then have "is_int (vol d L + sz)" using vol_is_int [OF ok(5) took_region [OF ok(6) reg]] by simp
    then have "util_alloc tn n i sz (vol d L) m d = Inr (Some (vol d L + sz, max (vol d L + sz) m), ?d)"
      using ok(1-4) sz0 i(1)
      by (simp add: util_alloc_def prog_eval NULL_def set_block_def set_block_size_def ids_def recorded_def)
    then show ?thesis
      using ok(5,6) silent_recorded v sizes_recorded [OF i(1) sub(1), of q sz h2 "ranges d"]
      unfolding counted_def by blast
  qed
qed

lemma util_realloc_ok:
  assumes tr: "tracks d L" and i: "i \<in> L" and sz: "small_ok sz" and reg: "int_region (hp d)"
  shows "counted d (need sz) L ((sizes d L)(i \<mapsto> sz)) (vol d L - bsz d i + sz) (max (vol d L - bsz d i + sz) m)
    (util_realloc tn n i sz (vol d L) m d)"
proof -
  note live = tracks_live [OF tr i] and ar = array_steps [OF tracks_live(2) [OF tr i]]
  have sz0: "0 < sz" "sz < 2 ^ 31" using sz by (simp_all add: small_ok_def)
  have sub: "L \<subseteq> ids d" "finite L" using tr tracks_finite [OF tr] by (simp_all add: tracks_def points_def)
  have Li: "insert i L = L" using i by blast
  show ?thesis
  proof (cases rule: realloc_cases [OF tr i sz, where tn = tn and n = n, case_names fail ok])
    case (fail h)
    have "util_realloc tn n i sz (vol d L) m d = Inl (Exit 1)"
      using fail(1) sz0 ar(1,2) by (simp add: util_realloc_def prog_eval NULL_def app_error_def)
    then show ?thesis using fail(2) by (simp add: counted_def)
  next
    case (ok q h h2)
    let ?rs = "without_lo (bl d i) (ranges d)"
    let ?d = "recorded i q sz h2 ?rs d"
    have v: "vol ?d L = vol d L - bsz d i + sz"
      using vol_recorded [OF live(2) sub, of q sz h2 ?rs] vol_without [OF sub(2) i, of d] Li by simp
    then have "is_int (vol d L - bsz d i + sz)"
      using vol_is_int [OF ok(7) took_region [OF ok(8) reg]] by simp
    then have tot: "is_int (vol d L + (sz - bsz d i))" by (simp add: algebra_simps)
    have diff: "is_int (sz - bsz d i)" using sz0 live(3,4) by (simp add: is_int_def)
    have old: "int_of_long (bsz d i) = bsz d i"
      using live(3,4) by (simp add: int_of_long_id is_int_def)
    have "util_realloc tn n i sz (vol d L) m d =
        Inr (Some (vol d L - bsz d i + sz, max (vol d L - bsz d i + sz) m), ?d)"
      using ok(1-3,6) sz0 live(2) ar(1,2) tot diff
      by (simp add: util_realloc_def prog_eval NULL_def set_block_def set_block_size_def
          get_block_size_def ids_def recorded_def remove_range_def Let_def old algebra_simps)
    then show ?thesis
      using ok(7,8) silent_recorded v sizes_recorded [OF live(2) sub(1), of q sz h2 ?rs] Li
      unfolding counted_def by (metis (no_types))
  qed
qed

text \<open>
  A reallocation to size 0, which the traces here exclude, frees the block and
  leaves its size in the total.
\<close>

lemma util_realloc_zero:
  assumes tr: "tracks d L" and i: "i \<in> L"
  shows "\<exists>d'. util_realloc tn n i 0 tot mx d = Inr (Some (tot, mx), d') \<and>
    payloads (hp d') = (payloads (hp d))(bl d i := None)"
proof -
  note live = tracks_live [OF tr i] and ar = array_steps [OF tracks_live(2) [OF tr i]]
  obtain k where k: "payloads (hp d) (bl d i) = Some k" using live(5) by blast
  obtain h where h: "mm_free (bl d i) (hp d) = Inr ((), h)" "payloads h = (payloads (hp d))(bl d i := None)"
    using mm.free [OF live(1) k] by blast
  have "bl d i \<noteq> 0" using mm.region [OF live(1) k] by simp
  then have "mm_realloc (bl d i) 0 (hp d) = Inr (NULL, h)"
    using h(1) by (simp add: mm_realloc_def prog_eval NULL_def)
  then show ?thesis using h(2) ar(1,2) by (simp add: util_realloc_def prog_eval)
qed

lemma util_free_ok:
  assumes tr: "tracks d L" and i: "i \<in> L" and reg: "int_region (hp d)"
  shows "counted d 0 (L - {i}) ((sizes d L)(i := None)) (vol d L - bsz d i) m
    (util_free i (vol d L) m d)"
proof -
  note live = tracks_live [OF tr i] and ar = array_steps [OF tracks_live(2) [OF tr i]]
  obtain h where h: "mm_free (bl d i) (hp d) = Inr ((), h)"
      "tracks (d\<lparr>hp := h, ranges := without_lo (bl d i) (ranges d)\<rparr>) (L - {i})"
      "took 0 d (d\<lparr>hp := h, ranges := without_lo (bl d i) (ranges d)\<rparr>)"
    using free_step [OF tr i] .
  let ?d = "d\<lparr>hp := h, ranges := without_lo (bl d i) (ranges d)\<rparr>"
  have v: "vol ?d (L - {i}) = vol d L - bsz d i"
    using vol_without [OF tracks_finite [OF tr] i, of d] by (simp add: vol_def)
  then have "is_int (vol d L - bsz d i)" using vol_is_int [OF h(2) took_region [OF h(3) reg]] by simp
  moreover have "int_of_long (bsz d i) = bsz d i"
    using live(3,4) by (simp add: int_of_long_id is_int_def)
  ultimately have "util_free i (vol d L) m d = Inr (Some (vol d L - bsz d i, m), ?d)"
    using h(1) ar(1,2) by (simp add: util_free_def prog_eval remove_range_def Let_def)
  moreover have "silent d ?d" by (simp add: silent_def ids_def)
  moreover have "sizes ?d (L - {i}) = (sizes d L)(i := None)" by (auto simp: sizes_def fun_eq_iff)
  ultimately show ?thesis using h(2,3) v unfolding counted_def by blast
qed

lemma util_op_ok:
  assumes tr: "tracks d L" and ok: "trace_ok (ids d) L (r # rs)" and reg: "int_region (hp d)"
    and m: "vol d L \<le> m"
  shows "counted d (op_need r) (live_after L [r]) (sizes_after (sizes d L) r)
    (total_after (sizes d L) (vol d L) r) (max (total_after (sizes d L) (vol d L) r) m)
    (util_op tn n r (vol d L) m d)"
proof (cases "op_type r")
  case ALLOC
  then have "sizes d L (op_index r) = None" using ok by (simp add: sizes_def Let_def)
  then show ?thesis
    using ALLOC ok util_alloc_ok [OF tr _ _ _ reg]
    by (simp add: util_op_def op_need_def Let_def)
next
  case REALLOC
  then have i: "op_index r \<in> L" using ok by (simp add: Let_def)
  then have "sizes d L (op_index r) = Some (bsz d (op_index r))" by (simp add: sizes_def)
  then show ?thesis
    using REALLOC ok util_realloc_ok [OF tr i _ reg]
    by (simp add: util_op_def op_need_def Let_def)
next
  case FREE
  then have i: "op_index r \<in> L" using ok by (simp add: Let_def)
  then have "sizes d L (op_index r) = Some (bsz d (op_index r))" by (simp add: sizes_def)
  moreover have "max (vol d L - bsz d (op_index r)) m = m" using tracks_live(3) [OF tr i] m by simp
  ultimately show ?thesis
    using FREE util_free_ok [OF tr i reg, of m]
    by (simp add: util_op_def op_need_def Let_def)
qed

text \<open>The whole trace.\<close>

definition measured :: "heap driver \<Rightarrow> int \<Rightarrow> int set \<Rightarrow> int \<Rightarrow> fault + (int option \<times> heap driver) \<Rightarrow> bool" where
  "measured d c L m r \<longleftrightarrow>
     (\<exists>d'. r = Inr (Some m, d') \<and> tracks d' L \<and> took c d d' \<and> silent d d') \<or>
     r = Inl (Exit 1) \<and> mem_max_addr (hp d) < mem_brk (hp d) + c"

lemma util_ops_ok:
  assumes "tracks d L" and "trace_ok (ids d) L rs" and "int_region (hp d)" and "vol d L \<le> m" and "m < 2 ^ 31"
  shows "measured d (demand rs) (live_after L rs) (peak (sizes d L) (vol d L) m rs)
    (util_ops tn n rs (vol d L) m d)"
  using assms
proof (induction rs arbitrary: d L m n)
  case Nil
  then show ?case by (simp add: measured_def ret_apply took_def silent_def demand_def)
next
  case (Cons r rs)
  let ?t = "total_after (sizes d L) (vol d L) r"
  let ?m = "max ?t m"
  have ok: "trace_ok (ids d) (live_after L [r]) rs"
    using Cons.prems(2) by (cases "op_type r") (simp_all add: Let_def)
  have live: "live_after L (r # rs) = live_after (live_after L [r]) rs" by simp
  have pk: "peak (sizes d L) (vol d L) m (r # rs) = peak (sizes_after (sizes d L) r) ?t ?m rs"
    by (simp add: Let_def)
  from util_op_ok [OF Cons.prems(1-4), of tn n] show ?case
    unfolding counted_def
  proof (elim disjE exE conjE)
    fix d1
    assume d1: "util_op tn n r (vol d L) m d = Inr (Some (?t, ?m), d1)" "tracks d1 (live_after L [r])"
      "took (op_need r) d d1" "silent d d1" "sizes d1 (live_after L [r]) = sizes_after (sizes d L) r"
      "vol d1 (live_after L [r]) = ?t"
    have ids: "ids d1 = ids d" using d1(4) by (simp add: silent_def)
    have reg: "int_region (hp d1)" by (rule took_region [OF d1(3) Cons.prems(3)])
    have "?t < 2 ^ 31" using vol_is_int [OF d1(2) reg] d1(6) by (simp add: is_int_def)
    then have m: "vol d1 (live_after L [r]) \<le> ?m" "?m < 2 ^ 31" using d1(6) Cons.prems(5) by simp_all
    have ok1: "trace_ok (ids d1) (live_after L [r]) rs" using ok ids by simp
    have run: "util_ops tn n (r # rs) (vol d L) m d = util_ops tn (n + 1) rs ?t ?m d1"
      using d1(1) by (simp add: bnd_apply)
    from Cons.IH [OF d1(2) ok1 reg m, of "n + 1"]
    have ih: "measured d1 (demand rs) (live_after (live_after L [r]) rs)
        (peak (sizes_after (sizes d L) r) ?t ?m rs) (util_ops tn (n + 1) rs ?t ?m d1)"
      using d1(5,6) by simp
    have mono: "mem_max_addr (hp d1) < mem_brk (hp d1) + demand rs \<Longrightarrow>
        mem_max_addr (hp d) < mem_brk (hp d) + demand (r # rs)"
      using d1(3) by (simp add: took_def demand_Cons)
    show ?thesis
      using ih took_trans [OF d1(3), of "demand rs"] silent_trans [OF d1(4)] mono
      unfolding measured_def run live pk demand_Cons by (elim disjE exE conjE) (metis, simp)
  next
    assume "util_op tn n r (vol d L) m d = Inl (Exit 1)" "mem_max_addr (hp d) < mem_brk (hp d) + op_need r"
    then show ?thesis
      using demand_nonneg [of rs] by (simp add: measured_def bnd_apply demand_Cons)
  qed
qed

section \<open>From an empty heap\<close>

lemma peak_bounds:
  assumes "tracks d L" and "trace_ok (ids d) L rs" and "int_region (hp d)"
    and "util_ops tn n rs (vol d L) m d = Inr (Some m', d')" and "vol d L \<le> m"
    and "m \<le> mem_heapsize (hp d)"
  shows "m' \<le> mem_heapsize (hp d')"
  using assms
proof (induction rs arbitrary: d L m n)
  case Nil
  then show ?case by (simp add: ret_apply)
next
  case (Cons r rs)
  let ?t = "total_after (sizes d L) (vol d L) r"
  let ?m = "max ?t m"
  have ok: "trace_ok (ids d) (live_after L [r]) rs"
    using Cons.prems(2) by (cases "op_type r") (simp_all add: Let_def)
  from util_op_ok [OF Cons.prems(1-3,5), of tn n] show ?case
    unfolding counted_def
  proof (elim disjE exE conjE)
    fix d1
    assume d1: "util_op tn n r (vol d L) m d = Inr (Some (?t, ?m), d1)" "tracks d1 (live_after L [r])"
      "took (op_need r) d d1" "silent d d1" "sizes d1 (live_after L [r]) = sizes_after (sizes d L) r"
      "vol d1 (live_after L [r]) = ?t"
    have ok1: "trace_ok (ids d1) (live_after L [r]) rs" using ok d1(4) by (simp add: silent_def)
    have "mem_heapsize (hp d) \<le> mem_heapsize (hp d1)"
      using d1(3) by (simp add: took_def mem_heapsize_def mem_heap_lo_def)
    then have m: "vol d1 (live_after L [r]) \<le> ?m" "?m \<le> mem_heapsize (hp d1)"
      using d1(6) vol_bounds(2) [OF d1(2)] Cons.prems(6) by simp_all
    have run: "util_ops tn (n + 1) rs (vol d1 (live_after L [r])) ?m d1 = Inr (Some m', d')"
      using d1(1,6) Cons.prems(4) by (simp add: bnd_apply)
    show ?thesis
      by (rule Cons.IH [OF d1(2) ok1 took_region [OF d1(3) Cons.prems(3)] run m])
  next
    assume "util_op tn n r (vol d L) m d = Inl (Exit 1)"
    then show ?thesis using Cons.prems(4) by (simp add: bnd_apply)
  qed
qed

lemma eval_mm_util_ok:
  assumes ready: "region_ready (hp d)" and out: "\<not> libc_out d" and reg: "int_region (hp d)"
    and ok: "trace_ok (ids d) {} ops"
  shows "(\<exists>d'. eval_mm_util ops tn d =
        Inr (of_int (peak_payload ops) / of_int (mem_heapsize (hp d')), d') \<and>
        tracks d' (live_after {} ops) \<and> took (demand ops) (restarted d) d' \<and> silent d d' \<and>
        0 \<le> peak_payload ops \<and> peak_payload ops \<le> mem_heapsize (hp d') \<and> 0 < mem_heapsize (hp d')) \<or>
     eval_mm_util ops tn d = Inl (Exit 1) \<and> mem_max_addr (hp d) < mem_start_brk (hp d) + 32 + demand ops"
proof -
  note r = restart [OF ready out]
  let ?d = "restarted d"
  have ids: "ids ?d = ids d" using r(4) by (simp add: silent_def)
  have ok': "trace_ok (ids ?d) {} ops" using ok ids by simp
  have reg': "int_region (hp ?d)" using reg r(6,7) by (simp add: int_region_def mem_heap_lo_def)
  have v: "vol ?d {} = 0" "sizes ?d {} = Map.empty" by (simp_all add: vol_def sizes_def)
  have start: "eval_mm_util ops tn d = (case util_ops tn 0 ops 0 0 ?d of
      Inl e \<Rightarrow> Inl e
    | Inr (None, d') \<Rightarrow> Inr (0, d')
    | Inr (Some m, d') \<Rightarrow> Inr (of_int m / of_int (mem_heapsize (hp d')), d'))"
    using r(2) by (simp add: eval_mm_util_def prog_eval clear_ranges_def mem_reset_brk_def restarted_def
        split: sum.splits option.splits prod.splits)
  from util_ops_ok [OF r(3) ok' reg', of 0 tn 0]
  have "measured ?d (demand ops) (live_after {} ops) (peak_payload ops) (util_ops tn 0 ops 0 0 ?d)"
    by (simp add: v peak_payload_def)
  then show ?thesis
    unfolding measured_def
  proof (elim disjE exE conjE)
    fix d'
    assume a: "util_ops tn 0 ops 0 0 ?d = Inr (Some (peak_payload ops), d')"
      "tracks d' (live_after {} ops)" "took (demand ops) ?d d'" "silent ?d d'"
    have size: "mem_heapsize (hp ?d) \<le> mem_heapsize (hp d')" "mem_heapsize (hp ?d) = 32"
      using a(3) r(5,7) by (simp_all add: took_def mem_heapsize_def mem_heap_lo_def)
    have "util_ops tn 0 ops (vol ?d {}) 0 ?d = Inr (Some (peak_payload ops), d')" using a(1) v by simp
    then have "peak_payload ops \<le> mem_heapsize (hp d')"
      by (rule peak_bounds [OF r(3) ok' reg']) (use v size in simp_all)
    then show ?thesis
      using a start size peak_ge [of 0 Map.empty 0 ops] silent_trans [OF r(4) a(4)] by (auto simp: peak_payload_def)
  next
    assume "util_ops tn 0 ops 0 0 ?d = Inl (Exit 1)" "mem_max_addr (hp ?d) < mem_brk (hp ?d) + demand ops"
    then show ?thesis using start r(5,6) by simp
  qed
qed

end
