(* ===== verification/Eval_Speed.thy ===== *)
theory Eval_Speed
  imports Eval_Util Sessions
begin

text \<open>
  \<open>eval_mm_speed\<close> on the allocator of \<^verbatim>\<open>mm.c\<close>: it replays the trace without
  checks.  It keeps neither the range list nor the sizes; the proofs supply them,
  so that the lemmas about the checked replay apply.
\<close>

definition shadow :: "int set \<Rightarrow> heap driver \<Rightarrow> int set \<Rightarrow> bool" where
  "shadow U d L \<longleftrightarrow>
     (\<exists>rs zs. tracks (d\<lparr>ranges := rs, block_sizes := zs, libc_out := False\<rparr>) L \<and>
        ids (d\<lparr>ranges := rs, block_sizes := zs, libc_out := False\<rparr>) = U)"

text \<open>How a request ends: served, or memory has run out and the driver exits.\<close>

definition replayed :: "int set \<Rightarrow> heap driver \<Rightarrow> int \<Rightarrow> int set \<Rightarrow> fault + (unit \<times> heap driver) \<Rightarrow> bool" where
  "replayed U d c L r \<longleftrightarrow>
     (\<exists>d'. r = Inr ((), d') \<and> shadow U d' L \<and> took c d d') \<or>
     r = Inl (Exit 1) \<and> mem_max_addr (hp d) < mem_brk (hp d) + c"

lemma shadow_recorded:
  assumes "tracks (recorded i q sz h rs (d\<lparr>ranges := rs', block_sizes := zs, libc_out := False\<rparr>)) L"
    and "ids (d\<lparr>ranges := rs', block_sizes := zs, libc_out := False\<rparr>) = U"
  shows "shadow U (d\<lparr>hp := h, blocks := (blocks d)[nat i := q]\<rparr>) L"
proof -
  let ?g = "d\<lparr>ranges := rs', block_sizes := zs, libc_out := False\<rparr>"
  have "recorded i q sz h rs ?g = d\<lparr>hp := h, blocks := (blocks d)[nat i := q],
      ranges := (q, q + sz - 1) # rs, block_sizes := zs[nat i := sz], libc_out := False\<rparr>"
    by (simp add: recorded_def)
  then show ?thesis using assms recorded_ids [of i q sz h rs ?g] unfolding shadow_def by metis
qed

lemma speed_op_ok:
  assumes sh: "shadow U d L" and ok: "trace_ok U L (r # rs)"
  shows "replayed U d (op_need r) (live_after L [r]) (speed_op r d)"
proof -
  obtain gs zs where g: "tracks (d\<lparr>ranges := gs, block_sizes := zs, libc_out := False\<rparr>) L"
      "ids (d\<lparr>ranges := gs, block_sizes := zs, libc_out := False\<rparr>) = U"
    using sh by (auto simp: shadow_def)
  let ?g = "d\<lparr>ranges := gs, block_sizes := zs, libc_out := False\<rparr>"
  let ?i = "op_index r" and ?n = "op_size r"
  have i: "?i \<in> ids ?g" using ok g(2) by (simp add: Let_def)
  then have len: "0 \<le> ?i" "?i < int (length (blocks d))" by (simp_all add: ids_def)
  show ?thesis
  proof (cases "op_type r")
    case ALLOC
    then have a: "?i \<notin> L" "small_ok ?n" using ok by (simp_all add: Let_def)
    show ?thesis
    proof (cases rule: alloc_cases [OF g(1) i a, where tn = 0 and n = 0, case_names fail got])
      case (fail h)
      then have "speed_op r d = Inl (Exit 1)"
        using ALLOC by (simp add: speed_op_def Let_def prog_eval NULL_def app_error_def)
      then show ?thesis using fail(2) ALLOC by (simp add: replayed_def op_need_def)
    next
      case (got q h h2)
      let ?d = "d\<lparr>hp := h2, blocks := (blocks d)[nat ?i := q]\<rparr>"
      have "speed_op r d = Inr ((), ?d)"
        using got(1,2,4) ALLOC len by (simp add: speed_op_def Let_def prog_eval NULL_def set_block_def)
      moreover have "shadow U ?d (insert ?i L)" by (rule shadow_recorded [OF got(5) g(2)])
      moreover have "took (need ?n) d ?d" using got(6) by (simp add: took_def recorded_def)
      ultimately show ?thesis using ALLOC unfolding replayed_def op_need_def by simp
    qed
  next
    case REALLOC
    then have a: "?i \<in> L" "small_ok ?n" using ok by (simp_all add: Let_def)
    have get: "get_block ?i d = Inr (bl d ?i, d)" using len by (simp add: get_block_def)
    show ?thesis
    proof (cases rule: realloc_cases [OF g(1) a, where tn = 0 and n = 0, case_names fail got])
      case (fail h)
      then have "speed_op r d = Inl (Exit 1)"
        using REALLOC get by (simp add: speed_op_def Let_def prog_eval NULL_def app_error_def)
      then show ?thesis using fail(2) REALLOC by (simp add: replayed_def op_need_def)
    next
      case (got q h h2)
      let ?d = "d\<lparr>hp := h2, blocks := (blocks d)[nat ?i := q]\<rparr>"
      have "speed_op r d = Inr ((), ?d)"
        using got(1,2,6) REALLOC len get by (simp add: speed_op_def Let_def prog_eval NULL_def set_block_def)
      moreover have "shadow U ?d L" by (rule shadow_recorded [OF got(7) g(2)])
      moreover have "took (need ?n) d ?d" using got(8) by (simp add: took_def recorded_def)
      ultimately show ?thesis using REALLOC unfolding replayed_def op_need_def by simp
    qed
  next
    case FREE
    then have a: "?i \<in> L" using ok by (simp add: Let_def)
    have get: "get_block ?i d = Inr (bl d ?i, d)" using len by (simp add: get_block_def)
    obtain h where h: "mm_free (bl ?g ?i) (hp ?g) = Inr ((), h)"
        "tracks (?g\<lparr>hp := h, ranges := without_lo (bl ?g ?i) (ranges ?g)\<rparr>) (L - {?i})"
        "took 0 ?g (?g\<lparr>hp := h, ranges := without_lo (bl ?g ?i) (ranges ?g)\<rparr>)"
      using free_step [OF g(1) a] .
    let ?d = "d\<lparr>hp := h\<rparr>"
    have "?g\<lparr>hp := h, ranges := without_lo (bl ?g ?i) (ranges ?g)\<rparr> =
        ?d\<lparr>ranges := without_lo (bl ?g ?i) (ranges ?g), block_sizes := zs, libc_out := False\<rparr>"
      by simp
    then have "shadow U ?d (L - {?i})"
      using h(2) g(2) unfolding shadow_def by (metis ids_fields(1,2))
    moreover have "speed_op r d = Inr ((), ?d)"
      using h(1) FREE get by (simp add: speed_op_def Let_def prog_eval)
    moreover have "took 0 d ?d" using h(3) by (simp add: took_def)
    ultimately show ?thesis using FREE unfolding replayed_def op_need_def by simp
  qed
qed

lemma speed_ops_ok:
  assumes "shadow U d L" and "trace_ok U L rs"
  shows "replayed U d (demand rs) (live_after L rs) (speed_ops rs d)"
  using assms
proof (induction rs arbitrary: d L)
  case Nil
  then show ?case by (simp add: replayed_def ret_apply took_def demand_def)
next
  case (Cons r rs)
  have ok: "trace_ok U (live_after L [r]) rs"
    using Cons.prems(2) by (cases "op_type r") (simp_all add: Let_def)
  have live: "live_after L (r # rs) = live_after (live_after L [r]) rs" by simp
  from speed_op_ok [OF Cons.prems] show ?case
    unfolding replayed_def
  proof (elim disjE exE conjE)
    fix d1
    assume d1: "speed_op r d = Inr ((), d1)" "shadow U d1 (live_after L [r])" "took (op_need r) d d1"
    have run: "speed_ops (r # rs) d = speed_ops rs d1" using d1(1) by (simp add: prog_eval)
    have mono: "mem_max_addr (hp d1) < mem_brk (hp d1) + demand rs \<Longrightarrow>
        mem_max_addr (hp d) < mem_brk (hp d) + (op_need r + demand rs)"
      using d1(3) by (simp add: took_def)
    have "replayed U d1 (demand rs) (live_after (live_after L [r]) rs) (speed_ops rs d1)"
      by (rule Cons.IH [OF d1(2) ok])
    then show "(\<exists>d'. speed_ops (r # rs) d = Inr ((), d') \<and> shadow U d' (live_after L (r # rs)) \<and>
          took (demand (r # rs)) d d') \<or>
        speed_ops (r # rs) d = Inl (Exit 1) \<and> mem_max_addr (hp d) < mem_brk (hp d) + demand (r # rs)"
      using took_trans [OF d1(3), of "demand rs"] mono
      unfolding replayed_def run live demand_Cons by blast
  next
    assume "speed_op r d = Inl (Exit 1)" "mem_max_addr (hp d) < mem_brk (hp d) + op_need r"
    then show "(\<exists>d'. speed_ops (r # rs) d = Inr ((), d') \<and> shadow U d' (live_after L (r # rs)) \<and>
          took (demand (r # rs)) d d') \<or>
        speed_ops (r # rs) d = Inl (Exit 1) \<and> mem_max_addr (hp d) < mem_brk (hp d) + demand (r # rs)"
      using demand_nonneg [of rs] by (simp add: prog_eval demand_Cons)
  qed
qed

text \<open>The timed replay writes the heap and the block array, and nothing else.\<close>

lemma speed_op_frame: "speed_op r d = Inr ((), d') \<Longrightarrow>
    d' = d\<lparr>hp := hp d', blocks := blocks d'\<rparr> \<and> length (blocks d') = length (blocks d)"
  by (cases "op_type r")
    (auto simp: speed_op_def Let_def prog_eval set_block_def get_block_def app_error_def
      split: sum.splits if_splits prod.splits)

lemma speed_ops_frame: "speed_ops rs d = Inr ((), d') \<Longrightarrow>
    d' = d\<lparr>hp := hp d', blocks := blocks d'\<rparr> \<and> length (blocks d') = length (blocks d)"
proof (induction rs arbitrary: d)
  case (Cons r rs)
  then obtain d1 where d1: "speed_op r d = Inr ((), d1)" "speed_ops rs d1 = Inr ((), d')"
    by (auto simp: prog_eval split: sum.splits)
  show ?case
    using speed_op_frame [OF d1(1)] Cons.IH [OF d1(2)] by (cases d; cases d1; cases d') simp
qed (simp add: ret_apply)

lemma eval_mm_speed_ok:
  assumes ready: "region_ready (hp d)"
    and ok: "trace_ok (ids d) {} ops"
  shows "(\<exists>d'. eval_mm_speed ops d = Inr ((), d') \<and> heap_inv (hp d') \<and>
        dom (payloads (hp d')) = bl d' ` live_after {} ops \<and> took (demand ops) (restarted d) d' \<and>
        d' = d\<lparr>hp := hp d', blocks := blocks d'\<rparr> \<and> length (blocks d') = length (blocks d)) \<or>
     eval_mm_speed ops d = Inl (Exit 1) \<and> mem_max_addr (hp d) < mem_start_brk (hp d) + 32 + demand ops"
proof -
  let ?s = "hp d\<lparr>mem_brk := mem_start_brk (hp d)\<rparr>"
  let ?g = "d\<lparr>libc_out := False\<rparr>"
  have g: "region_ready (hp ?g)" "\<not> libc_out ?g" using ready by simp_all
  note r = restart [OF g]
  let ?d = "d\<lparr>hp := inited ?s\<rparr>"
  let ?h = "?d\<lparr>ranges := [], block_sizes := block_sizes d, libc_out := False\<rparr>"
  have "?h = restarted ?g" by (simp add: restarted_def)
  then have "tracks ?h {}" using r(3) by (simp only:)
  moreover have "ids ?h = ids d" by (simp add: ids_def)
  ultimately have sh: "shadow (ids d) ?d {}" unfolding shadow_def by blast
  have start: "eval_mm_speed ops d = speed_ops ops ?d"
    using r(2) by (simp add: eval_mm_speed_def prog_eval mem_reset_brk_def restarted_def)
  have brk: "mem_brk (hp ?d) = mem_start_brk (hp d) + 32" "mem_max_addr (hp ?d) = mem_max_addr (hp d)"
    using r(5,6) by (simp_all add: restarted_def)
  from speed_ops_ok [OF sh ok] show ?thesis
    unfolding replayed_def
  proof (elim disjE exE conjE)
    fix d'
    assume run: "speed_ops ops ?d = Inr ((), d')" "shadow (ids d) d' (live_after {} ops)" "took (demand ops) ?d d'"
    have "heap_inv (hp d') \<and> dom (payloads (hp d')) = bl d' ` live_after {} ops"
      using run(2) by (auto simp: shadow_def tracks_def points_def)
    moreover have "took (demand ops) (restarted d) d'" using run(3) by (simp add: took_def restarted_def)
    moreover have "d' = d\<lparr>hp := hp d', blocks := blocks d'\<rparr>" "length (blocks d') = length (blocks d)"
      using speed_ops_frame [OF run(1)] by simp_all
    ultimately show ?thesis unfolding start using run(1) by blast
  next
    assume "speed_ops ops ?d = Inl (Exit 1)" "mem_max_addr (hp ?d) < mem_brk (hp ?d) + demand ops"
    then show ?thesis unfolding start brk by simp
  qed
qed

text \<open>
  A request for 0 bytes is skipped by the checked replay, but the pointer
  \<open>NULL\<close> that it returns ends the timed replay.
\<close>

lemma zero_size_replays:
  assumes ready: "region_ready (hp d)" and out: "\<not> libc_out d"
  shows "eval_mm_valid [\<lparr>op_type = ALLOC, op_index = i, op_size = 0\<rparr>] tn d = Inr (1, restarted d)"
    and "eval_mm_speed [\<lparr>op_type = ALLOC, op_index = i, op_size = 0\<rparr>] d = Inl (Exit 1)"
proof -
  note r = restart [OF ready out]
  have inv: "heap_inv (hp (restarted d))" using r(3) by (simp add: tracks_def points_def)
  have "valid_op tn 0 \<lparr>op_type = ALLOC, op_index = i, op_size = 0\<rparr> (restarted d) = Inr (True, restarted d)"
    using mm_malloc_zero [OF inv] by (simp add: valid_op_def valid_alloc_def prog_eval)
  then have "valid_ops tn 0 [\<lparr>op_type = ALLOC, op_index = i, op_size = 0\<rparr>] (restarted d) = Inr (1, restarted d)"
    by (simp add: prog_eval)
  then show "eval_mm_valid [\<lparr>op_type = ALLOC, op_index = i, op_size = 0\<rparr>] tn d = Inr (1, restarted d)"
    using r(2) by (simp add: eval_mm_valid_def prog_eval clear_ranges_def mem_reset_brk_def restarted_def)
  let ?s = "hp d\<lparr>mem_brk := mem_start_brk (hp d)\<rparr>"
  have "mm_malloc 0 (inited ?s) = Inr (NULL, inited ?s)"
    using mm_malloc_zero [OF inv] by (simp add: restarted_def)
  then show "eval_mm_speed [\<lparr>op_type = ALLOC, op_index = i, op_size = 0\<rparr>] d = Inl (Exit 1)"
    using r(2) by (simp add: eval_mm_speed_def speed_op_def Let_def prog_eval mem_reset_brk_def restarted_def
        app_error_def)
qed

end
