(* ===== verification/Eval_Libc.thy ===== *)
theory Eval_Libc
  imports Eval_Speed
begin

text \<open>
  \<open>eval_libc_valid\<close> and \<open>eval_libc_speed\<close>: the driver on the C library's
  allocator.  The library is not part of the repository; the locale \<open>c_library\<close>
  states what the C standard says of \<open>malloc\<close>, \<open>realloc\<close> and \<open>free\<close>: a new block is
  distinct from the live ones, a failed call changes nothing.  Nothing is said of
  alignment, of the place of a block or of blocks that keep their size.  The
  allocator of \<^verbatim>\<open>mm.c\<close> is an instance, so it can take the library's place.
\<close>

locale c_library =
  fixes inv :: "'h \<Rightarrow> bool"
    and owned :: "'h \<Rightarrow> payloads"
    and good :: "int \<Rightarrow> bool"
    and malloc :: "int \<Rightarrow> ('h, int) prog"
    and free :: "int \<Rightarrow> ('h, unit) prog"
    and realloc :: "int \<Rightarrow> int \<Rightarrow> ('h, int) prog"
  assumes malloc: "inv s \<Longrightarrow> good sz \<Longrightarrow>
      \<exists>q s'. malloc sz s = Inr (q, s') \<and> inv s' \<and>
        (q = 0 \<and> owned s' = owned s \<or>
         q \<noteq> 0 \<and> owned s q = None \<and> (\<exists>k. sz \<le> k \<and> owned s' = (owned s)(q \<mapsto> k)))"
    and free: "inv s \<Longrightarrow> owned s p = Some k \<Longrightarrow>
      \<exists>s'. free p s = Inr ((), s') \<and> inv s' \<and> owned s' = (owned s)(p := None)"
    and realloc: "inv s \<Longrightarrow> good sz \<Longrightarrow> owned s p = Some k \<Longrightarrow>
      \<exists>q s'. realloc p sz s = Inr (q, s') \<and> inv s' \<and>
        (q = 0 \<and> owned s' = owned s \<or>
         q \<noteq> 0 \<and> ((owned s)(p := None)) q = None \<and>
         (\<exists>m. sz \<le> m \<and> owned s' = ((owned s)(p := None))(q \<mapsto> m)))"
begin

text \<open>The indices of live blocks point to distinct live blocks of the library.\<close>

definition keeps :: "int set \<Rightarrow> 'h driver \<Rightarrow> int set \<Rightarrow> bool" where
  "keeps U d L \<longleftrightarrow> inv (hp d) \<and> U = {0..<int (length (blocks d))} \<and> L \<subseteq> U \<and>
     inj_on (bl d) L \<and> bl d ` L \<subseteq> dom (owned (hp d))"

lemma keepsD:
  assumes "keeps U d L"
  shows "inv (hp d)" and "i \<in> L \<Longrightarrow> get_block i d = Inr (bl d i, d)"
    and "i \<in> L \<Longrightarrow> \<exists>k. owned (hp d) (bl d i) = Some k"
    and "i \<in> U \<Longrightarrow> set_block i q (d\<lparr>hp := h\<rparr>) = Inr ((), d\<lparr>hp := h, blocks := (blocks d)[nat i := q]\<rparr>)"
  using assms by (auto simp: keeps_def get_block_def set_block_def)

lemma keeps_set:
  assumes k: "keeps U d L" and i: "i \<in> U" and K: "K = L - {i}" and h: "inv h"
    and own: "owned h = M(q \<mapsto> m)" and new: "M q = None" and M: "bl d ` K \<subseteq> dom M"
  shows "keeps U (d\<lparr>hp := h, blocks := (blocks d)[nat i := q]\<rparr>) (insert i K)"
proof -
  let ?d = "d\<lparr>hp := h, blocks := (blocks d)[nat i := q]\<rparr>"
  have U: "U = {0..<int (length (blocks d))}" "K \<subseteq> U" "inj_on (bl d) L" using k K by (auto simp: keeps_def)
  have at: "bl ?d j = (if j = i then q else bl d j)" if "j \<in> insert i K" for j
  proof -
    have "0 \<le> j" "0 \<le> i" "i < int (length (blocks d))" using that i U(1,2) by auto
    then show ?thesis by (simp add: nth_list_update eq_nat_nat_iff eq_commute [of i j])
  qed
  have "inj_on (bl d) K" by (rule inj_on_subset [OF U(3)]) (use K in blast)
  moreover have "q \<notin> bl d ` K" using new M by auto
  moreover have "i \<notin> K" using K by blast
  ultimately have "inj_on (bl ?d) (insert i K)"
    using at by (auto simp: inj_on_def image_iff)
  moreover have "bl ?d ` insert i K \<subseteq> dom (owned h)" using at own M by auto
  ultimately show ?thesis using h U(1,2) i by (simp add: keeps_def)
qed

text \<open>Every request is served, or the driver exits.\<close>

lemma libc_op_ok:
  assumes k: "keeps U d L" and ok: "trace_ok U L (r # rs)" and good: "\<forall>sz. small_ok sz \<longrightarrow> good sz"
  shows "(\<exists>d'. libc_speed_op malloc realloc free r d = Inr ((), d') \<and> keeps U d' (live_after L [r])) \<or>
    libc_speed_op malloc realloc free r d = Inl (Exit 1)"
proof -
  let ?i = "op_index r" and ?n = "op_size r"
  note kd = keepsD [OF k]
  have i: "?i \<in> U" using ok by (simp add: Let_def)
  show ?thesis
  proof (cases "op_type r")
    case ALLOC
    then have a: "?i \<notin> L" "good ?n" using ok good by (simp_all add: Let_def)
    obtain q h where m: "malloc ?n (hp d) = Inr (q, h)" "inv h"
      and c: "q \<noteq> 0 \<Longrightarrow> owned (hp d) q = None \<and> (\<exists>k. owned h = (owned (hp d))(q \<mapsto> k))"
      using malloc [OF kd(1) a(2)] by blast
    show ?thesis
    proof (cases "q = 0")
      case True
      then show ?thesis using m(1) ALLOC by (simp add: libc_speed_op_def prog_eval Let_def NULL_def unix_error_def)
    next
      case False
      then obtain m' where m': "owned (hp d) q = None" "owned h = (owned (hp d))(q \<mapsto> m')" using c by blast
      have "bl d ` L \<subseteq> dom (owned (hp d))" using k by (simp add: keeps_def)
      moreover have "L = L - {?i}" using a(1) by blast
      ultimately have "keeps U (d\<lparr>hp := h, blocks := (blocks d)[nat ?i := q]\<rparr>) (insert ?i L)"
        using keeps_set [OF k i _ m(2) m'(2,1)] by blast
      then show ?thesis
        using m(1) False ALLOC kd(4) [OF i] by (simp add: libc_speed_op_def prog_eval Let_def NULL_def)
    qed
  next
    case REALLOC
    then have a: "?i \<in> L" "good ?n" using ok good by (simp_all add: Let_def)
    obtain k' where k': "owned (hp d) (bl d ?i) = Some k'" using kd(3) [OF a(1)] by blast
    let ?M = "(owned (hp d))(bl d ?i := None)"
    obtain q h where m: "realloc (bl d ?i) ?n (hp d) = Inr (q, h)" "inv h"
      and c: "q \<noteq> 0 \<Longrightarrow> ?M q = None \<and> (\<exists>k. owned h = ?M(q \<mapsto> k))"
      using realloc [OF kd(1) a(2) k'] by blast
    show ?thesis
    proof (cases "q = 0")
      case True
      then show ?thesis
        using m(1) REALLOC kd(2) [OF a(1)] by (simp add: libc_speed_op_def prog_eval Let_def NULL_def unix_error_def)
    next
      case False
      then obtain m' where m': "?M q = None" "owned h = ?M(q \<mapsto> m')" using c by blast
      have "inj_on (bl d) L" "bl d ` L \<subseteq> dom (owned (hp d))" using k by (simp_all add: keeps_def)
      then have sub: "bl d ` (L - {?i}) \<subseteq> dom ?M" using a(1) by (auto dest: inj_onD)
      have "insert ?i (L - {?i}) = L" using a(1) by blast
      with keeps_set [OF k i refl m(2) m'(2,1) sub]
      have "keeps U (d\<lparr>hp := h, blocks := (blocks d)[nat ?i := q]\<rparr>) L" by (simp only:)
      then show ?thesis
        using m(1) False REALLOC kd(2) [OF a(1)] kd(4) [OF i]
        by (simp add: libc_speed_op_def prog_eval Let_def NULL_def)
    qed
  next
    case FREE
    then have a: "?i \<in> L" using ok by (simp add: Let_def)
    obtain k' where k': "owned (hp d) (bl d ?i) = Some k'" using kd(3) [OF a] by blast
    obtain h where h: "free (bl d ?i) (hp d) = Inr ((), h)" "inv h" "owned h = (owned (hp d))(bl d ?i := None)"
      using free [OF kd(1) k'] by blast
    have "inj_on (bl d) L" "bl d ` L \<subseteq> dom (owned (hp d))" using k by (simp_all add: keeps_def)
    then have "bl d ` (L - {?i}) \<subseteq> dom (owned h)" using a h(3) by (auto dest: inj_onD)
    moreover have "inj_on (bl d) (L - {?i})" by (rule inj_on_subset [of _ L]) (use k in \<open>auto simp: keeps_def\<close>)
    ultimately have "keeps U (d\<lparr>hp := h\<rparr>) (L - {?i})"
      using k h(2) by (auto simp: keeps_def)
    then show ?thesis using FREE h(1) kd(2) [OF a] by (simp add: libc_speed_op_def prog_eval Let_def)
  qed
qed

lemma libc_trace_ok:
  assumes "keeps U d L" and "trace_ok U L rs" and good: "\<forall>sz. small_ok sz \<longrightarrow> good sz"
  shows "(\<exists>d'. eval_libc_speed malloc realloc free rs d = Inr ((), d') \<and> keeps U d' (live_after L rs)) \<or>
    eval_libc_speed malloc realloc free rs d = Inl (Exit 1)"
  using assms(1,2)
proof (induction rs arbitrary: d L)
  case Nil
  then show ?case by (simp add: ret_apply)
next
  case (Cons r rs)
  have ok: "trace_ok U (live_after L [r]) rs"
    using Cons.prems(2) by (cases "op_type r") (simp_all add: Let_def)
  have live: "live_after L (r # rs) = live_after (live_after L [r]) rs" by simp
  from libc_op_ok [OF Cons.prems good] show ?case
  proof (elim disjE exE conjE)
    fix d1
    assume d1: "libc_speed_op malloc realloc free r d = Inr ((), d1)" "keeps U d1 (live_after L [r])"
    have "eval_libc_speed malloc realloc free (r # rs) d = eval_libc_speed malloc realloc free rs d1"
      using d1(1) by (simp add: prog_eval)
    then show ?thesis using Cons.IH [OF d1(2) ok] unfolding live by simp
  qed (simp add: prog_eval)
qed

end

interpretation mm_c: c_library heap_inv payloads small_ok mm_malloc mm_free mm_realloc
proof unfold_locales
  fix s sz p k
  assume inv: "heap_inv s"
  show "\<exists>s'. mm_free p s = Inr ((), s') \<and> heap_inv s' \<and> payloads s' = (payloads s)(p := None)"
    if "payloads s p = Some k" using mm_bounded.free [OF inv that] by blast
  assume small: "small_ok sz"
  show "\<exists>q s'. mm_malloc sz s = Inr (q, s') \<and> heap_inv s' \<and>
      (q = 0 \<and> payloads s' = payloads s \<or>
       q \<noteq> 0 \<and> payloads s q = None \<and> (\<exists>k. sz \<le> k \<and> payloads s' = (payloads s)(q \<mapsto> k)))"
    using mm_bounded.malloc [OF inv small] by blast
  show "\<exists>q s'. mm_realloc p sz s = Inr (q, s') \<and> heap_inv s' \<and>
      (q = 0 \<and> payloads s' = payloads s \<or>
       q \<noteq> 0 \<and> ((payloads s)(p := None)) q = None \<and>
       (\<exists>m. sz \<le> m \<and> payloads s' = ((payloads s)(p := None))(q \<mapsto> m)))"
    if "payloads s p = Some k" using mm_bounded.realloc [OF inv small that] by blast
qed

section \<open>The checked replay and the timed one\<close>

lemma libc_valid_op_iff:
  "libc_valid_op m r f tn i x d = Inr ((), d') \<longleftrightarrow> libc_speed_op m r f x d = Inr ((), d')"
  by (cases "op_type x")
    (auto simp: libc_valid_op_def libc_speed_op_def prog_eval Let_def unix_error_def
      split: sum.splits prod.splits if_splits)

lemma libc_valid_ops_iff:
  "libc_valid_ops m r f tn i ops d = Inr ((), d') \<longleftrightarrow> eval_libc_speed m r f ops d = Inr ((), d')"
proof (induction ops arbitrary: i d)
  case (Cons x ops)
  have "seqp a c d = Inr ((), d') \<longleftrightarrow> (\<exists>d1. a d = Inr ((), d1) \<and> c d1 = Inr ((), d'))"
    for a c :: "('a driver, unit) prog"
    by (auto simp: prog_eval split: sum.splits)
  then show ?case using Cons.IH by (simp add: libc_valid_op_iff)
qed simp

lemma eval_libc_valid_iff:
  "eval_libc_valid m r f ops tn d = Inr (v, d') \<longleftrightarrow> v = 1 \<and> eval_libc_speed m r f ops d = Inr ((), d')"
proof -
  have "eval_libc_valid m r f ops tn d = Inr (v, d') \<longleftrightarrow>
      v = 1 \<and> libc_valid_ops m r f tn 0 ops d = Inr ((), d')"
    by (auto simp: eval_libc_valid_def prog_eval split: sum.splits)
  then show ?thesis by (simp add: libc_valid_ops_iff)
qed

lemma eval_libc_ok:
  assumes lib: "c_library I owned good m f r" and good: "\<forall>sz. small_ok sz \<longrightarrow> good sz"
    and inv: "I (hp d)" and ok: "trace_ok {0..<int (length (blocks d))} {} ops"
  shows "(\<exists>d'. eval_libc_speed m r f ops d = Inr ((), d') \<and> I (hp d') \<and> inj_on (bl d') (live_after {} ops) \<and>
      bl d' ` live_after {} ops \<subseteq> dom (owned (hp d'))) \<or>
    eval_libc_speed m r f ops d = Inl (Exit 1)"
proof -
  have "c_library.keeps I owned {0..<int (length (blocks d))} d {}"
    using inv by (simp add: c_library.keeps_def [OF lib])
  from c_library.libc_trace_ok [OF lib this ok good] show ?thesis
    by (auto simp: c_library.keeps_def [OF lib])
qed

end
