(* ===== verification/Demo_Driver.thy ===== *)
theory Demo_Driver
  imports Demo Eval_Libc
begin

text \<open>
  A driver on the demonstration region, with a trace of two blocks that
  allocates, reallocates and frees: the properties of the driver are exercised
  on it.
\<close>

abbreviation alloc_op :: "int \<Rightarrow> int \<Rightarrow> traceop" where
  "alloc_op i n \<equiv> \<lparr>op_type = ALLOC, op_index = i, op_size = n\<rparr>"

abbreviation realloc_op :: "int \<Rightarrow> int \<Rightarrow> traceop" where
  "realloc_op i n \<equiv> \<lparr>op_type = REALLOC, op_index = i, op_size = n\<rparr>"

abbreviation free_op :: "int \<Rightarrow> traceop" where
  "free_op i \<equiv> \<lparr>op_type = FREE, op_index = i, op_size = 0\<rparr>"

definition demo_driver :: "heap driver" where
  "demo_driver =
     \<lparr>hp = demo_region, ranges = [], blocks = [0, 0], block_sizes = [0, 0], errors = 0,
      reports = [], mm_stats = None, libc_out = False\<rparr>"

definition demo_ops :: "traceop list" where
  "demo_ops = [alloc_op 0 100, alloc_op 1 200, free_op 0, realloc_op 1 300, free_op 1]"

lemma demo_driver_fields [simp]:
  "hp demo_driver = demo_region" "ranges demo_driver = []" "blocks demo_driver = [0, 0]"
  "block_sizes demo_driver = [0, 0]" "errors demo_driver = 0" "reports demo_driver = []"
  "mm_stats demo_driver = None" "libc_out demo_driver \<longleftrightarrow> False"
  by (simp_all add: demo_driver_def)

lemma demo_driver_ready: "region_ready (hp demo_driver)" "\<not> libc_out demo_driver"
  "is_int (errors demo_driver + 1)" "int_region (hp demo_driver)"
  by (simp_all add: region_ready_def int_region_def is_int_def demo_region_def demo_max)

lemma demo_ids: "ids demo_driver = {0, 1}"
  by (auto simp: ids_def)

lemma demo_trace_ok: "trace_ok (ids demo_driver) {} demo_ops" "low_bytes demo_ops"
  by (simp_all add: demo_ids demo_ops_def small_ok_def low_bytes_def)

lemma demo_demand: "demand demo_ops = 704"
  by (simp add: demand_def demo_ops_def op_need_def need_def block_need_def round_up_def)

lemma demo_live: "live_after {} demo_ops = {}"
  by (auto simp: demo_ops_def)

lemma demo_peak: "peak_payload demo_ops = 300"
  by (simp add: peak_payload_def demo_ops_def)

text \<open>A driver with room for index 128, and its state after an allocation for that index.\<close>

definition demo_wide :: "heap driver" where
  "demo_wide = demo_driver\<lparr>blocks := replicate 129 0, block_sizes := replicate 129 0\<rparr>"

definition demo_high :: "heap driver" where
  "demo_high = (case valid_alloc 0 0 128 100 (restarted demo_wide) of
     Inl _ \<Rightarrow> demo_wide | Inr (_, d) \<Rightarrow> d)"

lemma demo_high:
  "tracks demo_high {128}" "mem_brk (hp demo_high) \<le> 4600" "mem_max_addr (hp demo_high) = 4096 + MAX_HEAP"
  "errors demo_high = 0"
proof -
  have r: "region_ready (hp demo_wide)" "\<not> libc_out demo_wide"
    using demo_driver_ready by (simp_all add: demo_wide_def)
  note st = restart [OF r]
  have e: "errors (restarted demo_wide) = 0"
    using st(4) by (simp add: silent_def demo_wide_def)
  have b: "mem_brk (hp (restarted demo_wide)) = 4128" "mem_max_addr (hp (restarted demo_wide)) = 4096 + MAX_HEAP"
    using st(5,6) by (simp_all add: demo_wide_def demo_region_def)
  have n: "need 100 = 136" by (simp add: need_def block_need_def round_up_def)
  have i: "128 \<in> ids (restarted demo_wide)" "128 \<notin> {}"
    using st(4) by (simp_all add: silent_def demo_wide_def ids_def)
  have "served 0 0 (restarted demo_wide) (need 100) {128} (valid_alloc 0 0 128 100 (restarted demo_wide))"
    by (rule valid_alloc_ok [OF st(3) i(1)]) (simp_all add: small_ok_def is_int_def e)
  then show "tracks demo_high {128}" "mem_brk (hp demo_high) \<le> 4600"
    "mem_max_addr (hp demo_high) = 4096 + MAX_HEAP" "errors demo_high = 0"
    using b e n by (auto simp: served_def demo_high_def took_def silent_def demo_max)
qed

end
