(* ===== verification/Scan.thy ===== *)
theory Scan
  imports Prelude
begin

text \<open>
  The input conversions of the C library that the driver uses: \<open>%d\<close>, \<open>%u\<close> and
  \<open>%s\<close> of \<open>scanf\<close>, literal text in a format, and \<open>fgets\<close>.  A conversion returns its
  value, if there is one, and the input that is left, also when it fails.  A
  number that does not fit its type is undefined in C and a fault here.
\<close>

section \<open>Characters\<close>

definition isspace :: "char \<Rightarrow> bool" where
  "isspace c \<longleftrightarrow> of_char c = (32 :: nat) \<or> 9 \<le> (of_char c :: nat) \<and> of_char c \<le> (13 :: nat)"

definition isdigit :: "char \<Rightarrow> bool" where
  "isdigit c \<longleftrightarrow> 48 \<le> (of_char c :: nat) \<and> of_char c \<le> (57 :: nat)"

definition digit_val :: "char \<Rightarrow> int" where
  "digit_val c = int (of_char c) - 48"

definition digits_val :: "string \<Rightarrow> int" where
  "digits_val ds = foldl (\<lambda>a c. 10 * a + digit_val c) 0 ds"

section \<open>Conversions\<close>

definition skip :: "string \<Rightarrow> string" where
  "skip = dropWhile isspace"

definition scan_digits :: "string \<Rightarrow> int option \<times> string" where
  "scan_digits s =
     (let ds = takeWhile isdigit s in
      (if ds = [] then None else Some (digits_val ds), dropWhile isdigit s))"

definition scan_int :: "string \<Rightarrow> int option \<times> string" where
  "scan_int s =
     (case skip s of
        [] \<Rightarrow> (None, [])
      | c # r \<Rightarrow>
          if c = CHR ''-'' then (case scan_digits r of (v, r') \<Rightarrow> (map_option uminus v, r'))
          else if c = CHR ''+'' then scan_digits r
          else scan_digits (c # r))"

text \<open>\<open>%s\<close>: the next word; \<open>None\<close> at the end of the input.\<close>

definition scan_word :: "string \<Rightarrow> string option \<times> string" where
  "scan_word s =
     (let t = skip s in
      (if t = [] then None else Some (takeWhile (Not \<circ> isspace) t), dropWhile (Not \<circ> isspace) t))"

text \<open>Literal text, and literal words with white space between them.\<close>

fun strip :: "string \<Rightarrow> string \<Rightarrow> string option" where
  "strip [] s = Some s"
| "strip (c # cs) [] = None"
| "strip (c # cs) (d # s) = (if c = d then strip cs s else None)"

fun lits :: "string list \<Rightarrow> string \<Rightarrow> string option" where
  "lits [] s = Some s"
| "lits (l # ls) s = (case strip l s of None \<Rightarrow> None | Some r \<Rightarrow> lits ls (skip r))"

fun ints :: "nat \<Rightarrow> string \<Rightarrow> int list" where
  "ints 0 s = []"
| "ints (Suc n) s = (case scan_int s of (None, _) \<Rightarrow> [] | (Some v, r) \<Rightarrow> v # ints n r)"

text \<open>
  \<open>sscanf ls n msg\<close>: the integers that a format with the literal words \<open>ls\<close> and
  then \<open>n\<close> times \<open>%d\<close> assigns; their number is what \<open>sscanf\<close> returns.
\<close>

definition sscanf :: "string list \<Rightarrow> nat \<Rightarrow> string \<Rightarrow> ('s, int list) prog" where
  "sscanf ls n msg =
     (let vs = (case lits ls msg of None \<Rightarrow> [] | Some r \<Rightarrow> ints n r) in
      if list_all is_int vs then ret vs else raise Signed_Overflow)"

text \<open>\<open>fgets n s\<close>: at most \<open>n\<close> characters, up to and including the first newline.\<close>

fun fgets :: "nat \<Rightarrow> string \<Rightarrow> string \<times> string" where
  "fgets 0 s = ([], s)"
| "fgets (Suc n) [] = ([], [])"
| "fgets (Suc n) (c # s) =
     (if c = CHR 0x0A then ([c], s) else (case fgets n s of (l, r) \<Rightarrow> (c # l, r)))"

lemma fgets_append: "fgets n s = (l, r) \<Longrightarrow> s = l @ r"
  by (induction n s arbitrary: l r rule: fgets.induct) (auto split: if_splits prod.splits)

lemma fgets_shorter: "0 < n \<Longrightarrow> s \<noteq> [] \<Longrightarrow> fgets n s = (l, r) \<Longrightarrow> length r < length s"
  using fgets_append [of n s l r] by (cases "(n, s)" rule: fgets.cases) (auto split: if_splits prod.splits)

section \<open>Printing\<close>

text \<open>Decimal numbers, as a trace file holds them.\<close>

definition digit_char :: "nat \<Rightarrow> char" where
  "digit_char n = char_of (48 + n)"

fun show_nat :: "nat \<Rightarrow> string" where
  "show_nat n = (if n < 10 then [digit_char n] else show_nat (n div 10) @ [digit_char (n mod 10)])"

declare show_nat.simps [simp del]

definition show_int :: "int \<Rightarrow> string" where
  "show_int n = (if n < 0 then CHR ''-'' # show_nat (nat (- n)) else show_nat (nat n))"

lemma of_char_digit: "n < 10 \<Longrightarrow> of_char (digit_char n) = (48 + n :: nat)"
  by (simp add: digit_char_def of_char_of)

lemma digit_char [simp]: "n < 10 \<Longrightarrow> isdigit (digit_char n)" "n < 10 \<Longrightarrow> digit_val (digit_char n) = int n"
proof -
  assume n: "n < 10"
  show "isdigit (digit_char n)" using of_char_digit [OF n] n by (simp add: isdigit_def)
  show "digit_val (digit_char n) = int n" using of_char_digit [OF n] by (simp add: digit_val_def)
qed

lemma show_nat_digits: "c \<in> set (show_nat n) \<Longrightarrow> isdigit c"
proof (induction n rule: show_nat.induct)
  case (1 n)
  then show ?case by (subst (asm) (2) show_nat.simps) (auto split: if_splits)
qed

lemma show_nat_nonempty [simp]: "show_nat n \<noteq> []"
  by (subst show_nat.simps) simp

lemma digits_val_snoc: "digits_val (ds @ [c]) = 10 * digits_val ds + digit_val c"
  by (simp add: digits_val_def)

lemma digits_show_nat [simp]: "digits_val (show_nat n) = int n"
proof (induction n rule: show_nat.induct)
  case (1 n)
  show ?case
  proof (cases "n < 10")
    case True
    then show ?thesis by (subst show_nat.simps) (simp add: digits_val_def)
  next
    case False
    have "10 * int (n div 10) + int (n mod 10) = int n"
      using mult_div_mod_eq [of 10 "int n"] by (simp add: zdiv_int zmod_int)
    then show ?thesis using False 1 by (subst show_nat.simps) (simp add: digits_val_snoc)
  qed
qed

lemma not_digit: "isspace c \<Longrightarrow> \<not> isdigit c" "isdigit c \<Longrightarrow> \<not> isspace c"
  by (auto simp: isspace_def isdigit_def)

text \<open>What a conversion reads next: no further digit.\<close>

definition stops :: "string \<Rightarrow> bool" where
  "stops r \<longleftrightarrow> r = [] \<or> \<not> isdigit (hd r)"

lemma scan_digits_show:
  assumes "stops r"
  shows "scan_digits (show_nat n @ r) = (Some (int n), r)"
proof -
  have "takeWhile isdigit (show_nat n @ r) = show_nat n" "dropWhile isdigit (show_nat n @ r) = r"
    using assms show_nat_digits [of _ n]
    by (cases r; simp add: stops_def takeWhile_append2 dropWhile_append2)+
  then show ?thesis by (simp add: scan_digits_def)
qed

lemma skip_spaces: "(\<And>c. c \<in> set ws \<Longrightarrow> isspace c) \<Longrightarrow> skip (ws @ s) = skip s"
  by (simp add: skip_def dropWhile_append2)

lemma skip_digit: "s \<noteq> [] \<Longrightarrow> \<not> isspace (hd s) \<Longrightarrow> skip s = s"
  by (cases s) (simp_all add: skip_def)

lemma show_nat_hd: "isdigit (hd (show_nat n))"
  using show_nat_digits [OF hd_in_set [OF show_nat_nonempty]] .

lemma sign_not_digit: "isdigit c \<Longrightarrow> c \<noteq> CHR ''-'' \<and> c \<noteq> CHR ''+''"
  by (auto simp: isdigit_def)

lemma scan_int_show:
  assumes ws: "\<And>c. c \<in> set ws \<Longrightarrow> isspace c" and r: "stops r"
  shows "scan_int (ws @ show_int n @ r) = (Some n, r)"
proof (cases "n < 0")
  case True
  have "skip (ws @ show_int n @ r) = CHR ''-'' # show_nat (nat (- n)) @ r"
    using skip_spaces [of ws "show_int n @ r", OF ws] True
    by (simp add: show_int_def skip_def isspace_def)
  then show ?thesis using True scan_digits_show [OF r, of "nat (- n)"] by (simp add: scan_int_def)
next
  case False
  obtain c cs where c: "show_nat (nat n) = c # cs" by (cases "show_nat (nat n)") auto
  have "isdigit c" using show_nat_hd [of "nat n"] c by simp
  moreover have "skip (ws @ show_int n @ r) = show_nat (nat n) @ r"
    using skip_spaces [of ws "show_int n @ r", OF ws] False c \<open>isdigit c\<close> not_digit(2)
    by (simp add: show_int_def skip_def)
  ultimately show ?thesis
    using False scan_digits_show [OF r, of "nat n"] sign_not_digit [of c] c by (simp add: scan_int_def)
qed

end
