(* ===== verification/Read_Trace.thy ===== *)
theory Read_Trace
  imports Traces Scan
begin

text \<open>
  \<open>read_trace\<close>: a trace file into the record of a trace.  What \<open>malloc\<close> and \<open>fopen\<close>
  find is a parameter: whether there is room, what an uninitialised record and
  uninitialised arrays hold, and the contents of the files.  The reference is
  \<open>show_trace\<close>, which writes a trace in the format of the files under
  \<^verbatim>\<open>src/traces\<close>; reading what it writes gives the trace back.
\<close>

record trace =
  trace_name :: string
  sugg_heapsize :: int
  num_ids :: int
  num_ops :: int
  weight :: int
  ops :: "traceop list"
  trace_blocks :: "int list"
  trace_block_sizes :: "int list"

record libc_env =
  malloc_ok :: "int \<Rightarrow> bool"
  junk_trace :: trace
  junk_size :: int
  junk_ops :: "nat \<Rightarrow> traceop list"
  junk_words :: "nat \<Rightarrow> int list"
  files :: "string \<Rightarrow> string option"

definition LINE_SIZE :: nat where
  "LINE_SIZE = 1024"

section \<open>Conversions into variables\<close>

text \<open>A conversion that fails leaves the variable as it was.\<close>

definition scan_d :: "int \<Rightarrow> string \<Rightarrow> fault + (int \<times> string)" where
  "scan_d old s =
     (case scan_int s of
        (None, r) \<Rightarrow> Inr (old, r)
      | (Some v, r) \<Rightarrow> if is_int v then Inr (v, r) else Inl Signed_Overflow)"

definition scan_u :: "string \<Rightarrow> fault + (int option \<times> string)" where
  "scan_u s =
     (case scan_int s of
        (None, r) \<Rightarrow> Inr (None, r)
      | (Some v, r) \<Rightarrow> if - (2 ^ 32) < v \<and> v < 2 ^ 32 then Inr (Some (v mod 2 ^ 32), r) else Inl Signed_Overflow)"

text \<open>\<open>fscanf(tracefile, "%u %u", &index, &size)\<close> and \<open>fscanf(tracefile, "%ud", &index)\<close>.\<close>

definition scan_index_size :: "int \<Rightarrow> int \<Rightarrow> string \<Rightarrow> fault + (int \<times> int \<times> string)" where
  "scan_index_size index sz s =
     (case scan_u s of
        Inl e \<Rightarrow> Inl e
      | Inr (None, r) \<Rightarrow> Inr (index, sz, r)
      | Inr (Some i, r) \<Rightarrow>
          (case scan_u r of
             Inl e \<Rightarrow> Inl e
           | Inr (None, r') \<Rightarrow> Inr (i, sz, r')
           | Inr (Some n, r') \<Rightarrow> Inr (i, n, r')))"

definition scan_index :: "int \<Rightarrow> string \<Rightarrow> fault + (int \<times> string)" where
  "scan_index index s =
     (case scan_u s of
        Inl e \<Rightarrow> Inl e
      | Inr (None, r) \<Rightarrow> Inr (index, r)
      | Inr (Some i, r) \<Rightarrow> Inr (i, case strip ''d'' r of Some r' \<Rightarrow> r' | None \<Rightarrow> r))"

lemma scan_digits_shorter: "length (snd (scan_digits s)) \<le> length s"
  by (simp add: scan_digits_def Let_def length_dropWhile_le)

lemma skip_shorter: "length (skip s) \<le> length s"
  by (simp add: skip_def length_dropWhile_le)

lemma scan_int_shorter: "length (snd (scan_int s)) \<le> length s"
proof (cases "skip s")
  case (Cons c r)
  then have "length r < length s" using skip_shorter [of s] by simp
  moreover have "length (snd (scan_digits r)) \<le> length r" "length (snd (scan_digits (c # r))) \<le> length (c # r)"
    by (rule scan_digits_shorter)+
  ultimately show ?thesis using Cons by (auto simp: scan_int_def split: prod.splits)
qed (simp add: scan_int_def)

lemma scan_u_shorter: "scan_u s = Inr (v, r) \<Longrightarrow> length r \<le> length s"
  using scan_int_shorter [of s] by (auto simp: scan_u_def split: prod.splits option.splits if_splits)

lemma scan_index_size_shorter: "scan_index_size i n s = Inr (j, m, r) \<Longrightarrow> length r \<le> length s"
  by (fastforce simp: scan_index_size_def split: sum.splits prod.splits option.splits dest: scan_u_shorter)

lemma strip_shorter: "strip l s = Some r \<Longrightarrow> length r \<le> length s"
  by (induction l s rule: strip.induct) (auto split: if_splits)

lemma scan_index_shorter: "scan_index i s = Inr (j, r) \<Longrightarrow> length r \<le> length s"
  by (fastforce simp: scan_index_def split: sum.splits prod.splits option.splits
      dest: scan_u_shorter strip_shorter)

lemma scan_word_shorter:
  assumes "scan_word s = (Some w, r)"
  shows "length r < length s" and "w \<noteq> []"
proof -
  have t: "skip s \<noteq> []" "w = takeWhile (Not \<circ> isspace) (skip s)" "r = dropWhile (Not \<circ> isspace) (skip s)"
    using assms by (simp_all add: scan_word_def Let_def split: if_splits)
  obtain c cs where c: "skip s = c # cs" using t(1) by (cases "skip s") auto
  have "\<not> isspace c" using c by (metis skip_def dropWhile_eq_Cons_conv)
  then show "w \<noteq> []" using t c by simp
  have "length r \<le> length cs" using t(3) c \<open>\<not> isspace c\<close> by (simp add: length_dropWhile_le)
  then show "length r < length s" using skip_shorter [of s] c by simp
qed

section \<open>The requests\<close>

text \<open>
  The loop over the request lines.  Its variables are \<open>index\<close>, \<open>size\<close>, \<open>max_index\<close> and
  the position \<open>k\<close> (\<open>op_index\<close> in the code); a write behind the end of the array is a bad address.
\<close>

definition put_op :: "int \<Rightarrow> (traceop \<Rightarrow> traceop) \<Rightarrow> traceop list \<Rightarrow> fault + traceop list" where
  "put_op k f os = (if 0 \<le> k \<and> k < int (length os) then Inr (os[nat k := f (os ! nat k)]) else Inl Bad_Address)"

function read_ops :: "int \<Rightarrow> int \<Rightarrow> int \<Rightarrow> int \<Rightarrow> traceop list \<Rightarrow> string \<Rightarrow> fault + (int \<times> int \<times> traceop list)" where
  "read_ops index sz max_index k os s =
     (case scan_word s of
        (None, _) \<Rightarrow> Inr (max_index, k, os)
      | (Some word, r) \<Rightarrow>
          if length word \<ge> LINE_SIZE then Inl Bad_Address
          else if hd word = CHR ''a'' \<or> hd word = CHR ''r'' then
            (case scan_index_size index sz r of
               Inl e \<Rightarrow> Inl e
             | Inr (i, n, r') \<Rightarrow>
                 (case put_op k (\<lambda>x. x\<lparr>op_type := (if hd word = CHR ''a'' then ALLOC else REALLOC),
                         op_index := int_of_long i, op_size := int_of_long n\<rparr>) os of
                    Inl e \<Rightarrow> Inl e
                  | Inr os' \<Rightarrow> read_ops i n (if i > max_index then i else max_index) (k + 1) os' r'))
          else if hd word = CHR ''f'' then
            (case scan_index index r of
               Inl e \<Rightarrow> Inl e
             | Inr (i, r') \<Rightarrow>
                 (case put_op k (\<lambda>x. x\<lparr>op_type := FREE, op_index := int_of_long i\<rparr>) os of
                    Inl e \<Rightarrow> Inl e
                  | Inr os' \<Rightarrow> read_ops i sz max_index (k + 1) os' r'))
          else Inl (Exit 1))"
  by pat_completeness auto
termination
  by (relation "measure (\<lambda>(_, _, _, _, _, s). length s)")
    (auto dest!: scan_word_shorter(1) [OF sym] scan_index_size_shorter scan_index_shorter)

declare read_ops.simps [simp del]

section \<open>read\_trace\<close>

definition read_trace :: "libc_env \<Rightarrow> string \<Rightarrow> string \<Rightarrow> fault + trace" where
  "read_trace e tracedir filename =
     (if \<not> malloc_ok e 1064 then Inl (Exit 1)
      else if length tracedir + length filename \<ge> LINE_SIZE then Inl Bad_Address
      else
        case files e (tracedir @ filename) of
          None \<Rightarrow> Inl (Exit 1)
        | Some s0 \<Rightarrow>
            let j = junk_trace e in
            case scan_d (sugg_heapsize j) s0 of Inl x \<Rightarrow> Inl x | Inr (sugg, s1) \<Rightarrow>
            case scan_d (num_ids j) s1 of Inl x \<Rightarrow> Inl x | Inr (ids, s2) \<Rightarrow>
            case scan_d (num_ops j) s2 of Inl x \<Rightarrow> Inl x | Inr (nops, s3) \<Rightarrow>
            case scan_d (weight j) s3 of Inl x \<Rightarrow> Inl x | Inr (w, s4) \<Rightarrow>
            if \<not> malloc_ok e (nops * 12 mod 2 ^ 64) \<or> \<not> malloc_ok e (ids * 8 mod 2 ^ 64) then Inl (Exit 1)
            else
              case read_ops 0 (junk_size e) 0 0 (junk_ops e (nat nops)) s4 of Inl x \<Rightarrow> Inl x
              | Inr (max_index, k, os) \<Rightarrow>
                  if int_of_long max_index \<noteq> ids - 1 then Inl Assert_Failed
                  else if int_of_long k \<noteq> nops then Inl Assert_Failed
                  else Inr \<lparr>trace_name = filename, sugg_heapsize = sugg, num_ids = ids, num_ops = nops,
                         weight = w, ops = os, trace_blocks = junk_words e (nat ids),
                         trace_block_sizes = junk_words e (nat ids)\<rparr>)"

section \<open>Writing a trace\<close>

definition newline :: string where
  "newline = [CHR 0x0A]"

definition show_op :: "traceop \<Rightarrow> string" where
  "show_op x =
     (case op_type x of
        ALLOC \<Rightarrow> ''a '' @ show_int (op_index x) @ '' '' @ show_int (op_size x) @ newline
      | REALLOC \<Rightarrow> ''r '' @ show_int (op_index x) @ '' '' @ show_int (op_size x) @ newline
      | FREE \<Rightarrow> ''f '' @ show_int (op_index x) @ newline)"

definition show_ops :: "traceop list \<Rightarrow> string" where
  "show_ops xs = concat (map show_op xs)"

definition show_trace :: "trace \<Rightarrow> string" where
  "show_trace t =
     show_int (sugg_heapsize t) @ newline @ show_int (num_ids t) @ newline @
     show_int (num_ops t) @ newline @ show_int (weight t) @ newline @ show_ops (ops t)"

text \<open>The traces that can be written: indices and sizes in range, the header true.\<close>

definition op_ok :: "int \<Rightarrow> traceop \<Rightarrow> bool" where
  "op_ok n x \<longleftrightarrow> 0 \<le> op_index x \<and> op_index x < n \<and> (op_type x \<noteq> FREE \<longrightarrow> 0 \<le> op_size x \<and> op_size x < 2 ^ 31)"

text \<open>The largest index that is allocated or reallocated; at least 0.\<close>

definition top_index :: "traceop list \<Rightarrow> int" where
  "top_index xs = foldl (\<lambda>m x. if op_type x = FREE then m else max m (op_index x)) 0 xs"

definition trace_wf :: "trace \<Rightarrow> bool" where
  "trace_wf t \<longleftrightarrow> is_int (sugg_heapsize t) \<and> is_int (weight t) \<and> num_ids t < 2 ^ 31 \<and>
     num_ops t = int (length (ops t)) \<and> num_ops t < 2 ^ 31 \<and> list_all (op_ok (num_ids t)) (ops t) \<and>
     num_ids t = top_index (ops t) + 1"

section \<open>Reading what was written\<close>

lemma scan_d_show: "is_int n \<Longrightarrow> scan_d old (show_int n @ newline @ r) = Inr (n, newline @ r)"
  using scan_int_show [of "[]" "newline @ r" n] by (simp add: scan_d_def stops_def newline_def isdigit_def)

lemma scan_int_newline: "scan_int (newline @ s) = scan_int s"
  by (simp add: scan_int_def skip_def newline_def isspace_def)

lemma scan_d_newline: "scan_d old (newline @ s) = scan_d old s"
  by (simp add: scan_d_def scan_int_newline)

lemma scan_u_show:
  assumes "0 \<le> n" and "n < 2 ^ 31" and "stops r"
  shows "scan_u (CHR '' '' # show_int n @ r) = Inr (Some n, r)"
  using scan_int_show [of "'' ''" r n] assms by (simp add: scan_u_def isspace_def)

lemma stops_space: "stops (CHR '' '' # r)" "stops (newline @ r)"
  by (simp_all add: stops_def isdigit_def newline_def)

text \<open>What the previous request leaves in front of the next: nothing, or a newline.\<close>

lemma scan_word_newline: "scan_word (newline @ s) = scan_word s"
  by (simp add: scan_word_def skip_def newline_def isspace_def)

lemma scan_word_letter:
  assumes "\<not> isspace c"
  shows "scan_word ([c] @ CHR '' '' # r) = (Some [c], CHR '' '' # r)"
proof -
  have "isspace CHR '' ''" by (simp add: isspace_def)
  then show ?thesis using assms by (simp add: scan_word_def skip_def Let_def)
qed

text \<open>One request.\<close>

lemma read_ops_newline: "read_ops i n m k os (newline @ s) = read_ops i n m k os s"
  unfolding read_ops.simps [of i n m k os "newline @ s"] read_ops.simps [of i n m k os s] scan_word_newline ..

text \<open>The array after a request; the size of a \<open>FREE\<close> is not written.\<close>

definition stored :: "traceop \<Rightarrow> traceop \<Rightarrow> traceop" where
  "stored old x = (if op_type x = FREE then x\<lparr>op_size := op_size old\<rparr> else x)"

lemma small_int: "0 \<le> n \<Longrightarrow> n < 2 ^ 31 \<Longrightarrow> int_of_long n = n"
  by (simp add: int_of_long_id is_int_def)

lemma strip_d_newline: "strip ''d'' (newline @ r) = None"
  by (simp add: newline_def)

lemma read_ops_op:
  assumes ok: "op_ok ids x" and ids: "ids < 2 ^ 31" and k: "0 \<le> k" "k < int (length os)" and m: "0 \<le> m"
  shows "\<exists>i' n'. read_ops i n m k os (show_op x @ r) =
    read_ops i' n' (if op_type x = FREE then m else max m (op_index x)) (k + 1)
      (os[nat k := stored (os ! nat k) x]) r"
proof -
  have i: "0 \<le> op_index x" "op_index x < 2 ^ 31" using ok ids by (simp_all add: op_ok_def)
  have letters: "\<not> isspace CHR ''a''" "\<not> isspace CHR ''r''" "\<not> isspace CHR ''f''" by (simp_all add: isspace_def)
  have put: "put_op k f os = Inr (os[nat k := f (os ! nat k)])" for f using k by (simp add: put_op_def)
  have mx: "(if op_index x > m then op_index x else m) = max m (op_index x)" by simp
  show ?thesis
  proof (cases "op_type x = FREE")
    case True
    have "scan_index i (CHR '' '' # show_int (op_index x) @ newline @ r) = Inr (op_index x, newline @ r)"
      using scan_u_show [OF i stops_space(2)] strip_d_newline by (simp add: scan_index_def)
    moreover have S: "show_op x @ r = [CHR ''f''] @ CHR '' '' # show_int (op_index x) @ newline @ r"
      using True by (simp add: show_op_def)
    ultimately have "read_ops i n m k os (show_op x @ r) =
        read_ops (op_index x) n m (k + 1)
          (os[nat k := (os ! nat k)\<lparr>op_type := FREE, op_index := op_index x\<rparr>]) (newline @ r)"
      using scan_word_letter [OF letters(3)] put small_int [OF i]
      unfolding S by (subst read_ops.simps) (simp add: LINE_SIZE_def)
    moreover have "(os ! nat k)\<lparr>op_type := FREE, op_index := op_index x\<rparr> = stored (os ! nat k) x"
      using True by (simp add: stored_def)
    ultimately show ?thesis using True by (auto simp: read_ops_newline)
  next
    case False
    let ?c = "if op_type x = ALLOC then CHR ''a'' else CHR ''r''"
    have ty: "op_type x = ALLOC \<or> op_type x = REALLOC" using False by (cases "op_type x") simp_all
    have sz: "0 \<le> op_size x" "op_size x < 2 ^ 31" using ok False by (simp_all add: op_ok_def)
    have "scan_index_size i n (CHR '' '' # show_int (op_index x) @ CHR '' '' # show_int (op_size x) @ newline @ r) =
        Inr (op_index x, op_size x, newline @ r)"
      using scan_u_show [OF i stops_space(1)] scan_u_show [OF sz stops_space(2)] by (simp add: scan_index_size_def)
    moreover have S: "show_op x @ r = [?c] @ CHR '' '' # show_int (op_index x) @ CHR '' '' # show_int (op_size x) @ newline @ r"
      using ty by (auto simp: show_op_def)
    moreover have "\<not> isspace ?c" using letters by simp
    ultimately have "read_ops i n m k os (show_op x @ r) =
        read_ops (op_index x) (op_size x) (max m (op_index x)) (k + 1)
          (os[nat k := (os ! nat k)\<lparr>op_type := op_type x, op_index := op_index x, op_size := op_size x\<rparr>]) (newline @ r)"
      using scan_word_letter [of ?c] put small_int [OF i] small_int [OF sz] ty mx
      unfolding S by (subst read_ops.simps) (auto simp: LINE_SIZE_def)
    moreover have "(os ! nat k)\<lparr>op_type := op_type x, op_index := op_index x, op_size := op_size x\<rparr> = stored (os ! nat k) x"
      using False by (simp add: stored_def)
    ultimately show ?thesis using False by (auto simp: read_ops_newline)
  qed
qed

lemma read_ops_show:
  assumes "list_all (op_ok ids) xs" and "ids < 2 ^ 31" and "0 \<le> m" and "length xs = length os2"
  shows "read_ops i n m (int (length os1)) (os1 @ os2) (show_ops xs) =
    Inr (foldl (\<lambda>m x. if op_type x = FREE then m else max m (op_index x)) m xs,
      int (length os1 + length xs), os1 @ map2 stored os2 xs)"
  using assms
proof (induction xs arbitrary: i n m os1 os2)
  case Nil
  have "scan_word [] = (None, [])" by (simp add: scan_word_def skip_def)
  then show ?case using Nil by (simp add: show_ops_def read_ops.simps)
next
  case (Cons x xs)
  obtain o' os2' where os2: "os2 = o' # os2'" "length xs = length os2'" using Cons.prems(4) by (cases os2) auto
  let ?m = "if op_type x = FREE then m else max m (op_index x)"
  obtain i' n' where step: "read_ops i n m (int (length os1)) (os1 @ os2) (show_op x @ show_ops xs) =
      read_ops i' n' ?m (int (length os1) + 1)
        ((os1 @ os2)[nat (int (length os1)) := stored ((os1 @ os2) ! nat (int (length os1))) x]) (show_ops xs)"
    using read_ops_op [of ids x "int (length os1)" "os1 @ os2" m i n "show_ops xs"] Cons.prems os2 by auto
  have "read_ops i' n' ?m (int (length (os1 @ [stored o' x]))) ((os1 @ [stored o' x]) @ os2') (show_ops xs) =
      Inr (foldl (\<lambda>m x. if op_type x = FREE then m else max m (op_index x)) ?m xs,
        int (length (os1 @ [stored o' x]) + length xs), (os1 @ [stored o' x]) @ map2 stored os2' xs)"
    by (rule Cons.IH) (use Cons.prems os2 in auto)
  moreover have "show_ops (x # xs) = show_op x @ show_ops xs" by (simp add: show_ops_def)
  ultimately show ?case using step os2 by (simp add: add.commute)
qed

lemma top_index_nonneg: "0 \<le> top_index xs"
proof -
  have "m \<le> foldl (\<lambda>m x. if op_type x = FREE then m else max m (op_index x)) m xs" for m
  proof (induction xs arbitrary: m)
    case (Cons x xs)
    have "m \<le> (if op_type x = FREE then m else max m (op_index x))" by simp
    also have "\<dots> \<le> foldl (\<lambda>m x. if op_type x = FREE then m else max m (op_index x)) \<dots> xs"
      by (rule Cons.IH)
    finally show ?case by simp
  qed simp
  then show ?thesis by (simp add: top_index_def)
qed

lemma read_trace_show:
  assumes wf: "trace_wf t" and mem: "malloc_ok e 1064" "malloc_ok e (num_ops t * 12)" "malloc_ok e (num_ids t * 8)"
    and name: "length tracedir + length (trace_name t) < LINE_SIZE"
    and content: "files e (tracedir @ trace_name t) = Some (show_trace t)"
    and junk: "length (junk_ops e (length (ops t))) = length (ops t)"
  shows "read_trace e tracedir (trace_name t) = Inr (t\<lparr>
    ops := map2 stored (junk_ops e (length (ops t))) (ops t),
    trace_blocks := junk_words e (nat (num_ids t)), trace_block_sizes := junk_words e (nat (num_ids t))\<rparr>)"
proof -
  have w: "is_int (sugg_heapsize t)" "is_int (weight t)" "num_ids t < 2 ^ 31" "num_ops t = int (length (ops t))"
      "num_ops t < 2 ^ 31" "list_all (op_ok (num_ids t)) (ops t)" "num_ids t = top_index (ops t) + 1"
    using wf [unfolded trace_wf_def] by blast+
  have top: "0 \<le> top_index (ops t)" by (rule top_index_nonneg)
  have ints: "is_int (num_ids t)" "is_int (num_ops t)" using w top by (simp_all add: is_int_def)
  have mods: "num_ops t * 12 mod 2 ^ 64 = num_ops t * 12" "num_ids t * 8 mod 2 ^ 64 = num_ids t * 8"
    using w top by simp_all
  have casts: "int_of_long (top_index (ops t)) = num_ids t - 1" "int_of_long (num_ops t) = num_ops t"
    using w top by (simp_all add: small_int)
  have rd: "read_ops 0 (junk_size e) 0 0 (junk_ops e (nat (num_ops t))) (show_ops (ops t)) =
      Inr (top_index (ops t), num_ops t, map2 stored (junk_ops e (length (ops t))) (ops t))"
    using read_ops_show [OF w(6,3), of 0 "junk_ops e (length (ops t))" 0 "junk_size e" "[]"] junk w(4)
    by (simp add: top_index_def)
  show ?thesis
    using mem name content w ints mods casts rd
    by (simp add: read_trace_def show_trace_def Let_def scan_d_show scan_d_newline read_ops_newline)
qed

section \<open>What a file that has been read looks like\<close>

text \<open>
  The first \<open>k\<close> requests: each that is not a \<open>FREE\<close> has an index, cast to an \<open>int\<close>, of at
  most the largest index so far.  The indices of the \<open>FREE\<close>s are not checked.
\<close>

definition below :: "int \<Rightarrow> int \<Rightarrow> traceop list \<Rightarrow> bool" where
  "below m k os \<longleftrightarrow>
     (\<forall>j<nat k. op_type (os ! j) \<noteq> FREE \<longrightarrow> (\<exists>u. 0 \<le> u \<and> u \<le> m \<and> op_index (os ! j) = int_of_long u))"

lemma below_step:
  assumes b: "below m k os" and k: "0 \<le> k" "k < int (length os)" and m: "m \<le> m'"
    and x: "op_type x \<noteq> FREE \<longrightarrow> (\<exists>u. 0 \<le> u \<and> u \<le> m' \<and> op_index x = int_of_long u)"
  shows "below m' (k + 1) (os[nat k := x])"
  unfolding below_def
proof (intro allI impI)
  fix j assume j: "j < nat (k + 1)" "op_type (os[nat k := x] ! j) \<noteq> FREE"
  show "\<exists>u. 0 \<le> u \<and> u \<le> m' \<and> op_index (os[nat k := x] ! j) = int_of_long u"
  proof (cases "j = nat k")
    case True
    then show ?thesis using x j(2) k by simp
  next
    case False
    then have "j < nat k" using j(1) k(1) by linarith
    moreover have "os[nat k := x] ! j = os ! j" using False by simp
    ultimately show ?thesis using b j(2) m unfolding below_def by fastforce
  qed
qed

lemma scan_u_unsigned: "scan_u s = Inr (Some v, r) \<Longrightarrow> 0 \<le> v \<and> v < 2 ^ 32"
  by (auto simp: scan_u_def split: prod.splits option.splits if_splits)

lemma scan_index_size_unsigned:
  "scan_index_size i n s = Inr (j, m, r) \<Longrightarrow> 0 \<le> i \<and> i < 2 ^ 32 \<Longrightarrow> 0 \<le> j \<and> j < 2 ^ 32"
  by (auto simp: scan_index_size_def split: sum.splits prod.splits option.splits dest: scan_u_unsigned)

lemma scan_index_unsigned:
  "scan_index i s = Inr (j, r) \<Longrightarrow> 0 \<le> i \<and> i < 2 ^ 32 \<Longrightarrow> 0 \<le> j \<and> j < 2 ^ 32"
  by (auto simp: scan_index_def split: sum.splits prod.splits option.splits dest: scan_u_unsigned)

lemma put_op_ok: "put_op k f os = Inr os' \<Longrightarrow>
    0 \<le> k \<and> k < int (length os) \<and> os' = os[nat k := f (os ! nat k)]"
  by (auto simp: put_op_def split: if_splits)

lemma read_ops_below:
  assumes "read_ops i n m k os s = Inr (m', k', os')" and "0 \<le> i \<and> i < 2 ^ 32" and "0 \<le> k" and "k \<le> int (length os)"
    and "below m k os" and "m < 2 ^ 32"
  shows "length os' = length os \<and> 0 \<le> k' \<and> k' \<le> int (length os) \<and> below m' k' os' \<and> m' < 2 ^ 32"
  using assms
proof (induction i n m k os s rule: read_ops.induct)
  case (1 i n m k os s)
  obtain w r where w: "scan_word s = (w, r)" by force
  show ?case
  proof (cases w)
    case None
    then show ?thesis using 1(3-) w by (simp add: read_ops.simps [of i n m k os s])
  next
    case (Some word)
    note sw = w [unfolded Some]
    have short: "\<not> length word \<ge> LINE_SIZE"
      using 1(3) sw by (auto simp: read_ops.simps [of i n m k os s])
    consider (ar) "hd word = CHR ''a'' \<or> hd word = CHR ''r''" | (f) "hd word = CHR ''f''"
        "\<not> (hd word = CHR ''a'' \<or> hd word = CHR ''r'')"
      using 1(3) sw short by (auto simp: read_ops.simps [of i n m k os s] split: if_splits)
    then show ?thesis
    proof cases
      case ar
      obtain j n' r' where sc: "scan_index_size i n r = Inr (j, n', r')"
        using 1(3) sw short ar by (auto simp: read_ops.simps [of i n m k os s] split: sum.splits)
      obtain os1 where put: "put_op k (\<lambda>x. x\<lparr>op_type := (if hd word = CHR ''a'' then ALLOC else REALLOC),
            op_index := int_of_long j, op_size := int_of_long n'\<rparr>) os = Inr os1"
        using 1(3) sw short ar sc by (auto simp: read_ops.simps [of i n m k os s] split: sum.splits)
      let ?m = "if j > m then j else m"
      have go: "read_ops j n' ?m (k + 1) os1 r' = Inr (m', k', os')"
        using 1(3) sw short ar sc put by (subst (asm) read_ops.simps) auto
      note p = put_op_ok [OF put]
      have j: "0 \<le> j \<and> j < 2 ^ 32" by (rule scan_index_size_unsigned [OF sc 1(4)])
      have "below ?m (k + 1) (os[nat k := (os ! nat k)\<lparr>op_type := (if hd word = CHR ''a'' then ALLOC else REALLOC),
          op_index := int_of_long j, op_size := int_of_long n'\<rparr>])"
        by (rule below_step [OF 1(7) 1(5)]) (use p j in \<open>auto intro: exI [of _ j]\<close>)
      then have b1: "below ?m (k + 1) os1" using p by simp
      have "length os' = length os1 \<and> 0 \<le> k' \<and> k' \<le> int (length os1) \<and> below m' k' os' \<and> m' < 2 ^ 32"
        using p j b1 1(5,8) by (intro 1(1) [OF sw [symmetric] refl short ar sc refl refl put go j]) auto
      then show ?thesis using p by simp
    next
      case f
      obtain j r' where sc: "scan_index i r = Inr (j, r')"
        using 1(3) sw short f by (auto simp: read_ops.simps [of i n m k os s] split: sum.splits)
      obtain os1 where put: "put_op k (\<lambda>x. x\<lparr>op_type := FREE, op_index := int_of_long j\<rparr>) os = Inr os1"
        using 1(3) sw short f sc by (auto simp: read_ops.simps [of i n m k os s] split: sum.splits)
      have go: "read_ops j n m (k + 1) os1 r' = Inr (m', k', os')"
        using 1(3) sw short f sc put by (subst (asm) read_ops.simps) auto
      note p = put_op_ok [OF put]
      have j: "0 \<le> j \<and> j < 2 ^ 32" by (rule scan_index_unsigned [OF sc 1(4)])
      have "below m (k + 1) (os[nat k := (os ! nat k)\<lparr>op_type := FREE, op_index := int_of_long j\<rparr>])"
        by (rule below_step [OF 1(7) 1(5)]) (use p in auto)
      then have b1: "below m (k + 1) os1" using p by simp
      have "length os' = length os1 \<and> 0 \<le> k' \<and> k' \<le> int (length os1) \<and> below m' k' os' \<and> m' < 2 ^ 32"
        using p j b1 1(5,8) by (intro 1(2) [OF sw [symmetric] refl short f(2,1) sc refl put go j]) auto
      then show ?thesis using p by simp
    qed
  qed
qed

lemma int_of_long_range: "is_int (int_of_long x)"
  using signed_take_bit_int_less_exp [of 31 x] signed_take_bit_int_greater_eq_minus_exp [of 31 x]
  by (simp add: int_of_long_def is_int_def)

lemma read_trace_typed:
  assumes rd: "read_trace e tracedir name = Inr t"
    and junk: "\<forall>n. length (junk_ops e n) = n" "\<forall>n. length (junk_words e n) = n"
  shows "trace_name t = name \<and> length (ops t) = nat (num_ops t) \<and> 
    length (trace_blocks t) = nat (num_ids t) \<and> length (trace_block_sizes t) = nat (num_ids t) \<and>
    (0 < num_ids t \<longrightarrow> (\<forall>x\<in>set (ops t). op_type x \<noteq> FREE \<longrightarrow> 0 \<le> op_index x \<and> op_index x < num_ids t))"
proof -
  obtain nids nops m k os s where r: "read_ops 0 (junk_size e) 0 0 (junk_ops e (nat nops)) s = Inr (m, k, os)"
      "int_of_long m = nids - 1" "int_of_long k = nops"
    and t: "trace_name t = name" "num_ids t = nids" "num_ops t = nops" "ops t = os"
      "trace_blocks t = junk_words e (nat nids)" "trace_block_sizes t = junk_words e (nat nids)"
    using rd by (auto simp: read_trace_def Let_def split: if_splits option.splits sum.splits)
  have b: "length os = nat nops" "0 \<le> k" "k \<le> int (nat nops)" "below m k os" "m < 2 ^ 32"
    using read_ops_below [OF r(1)] junk(1) by (auto simp: below_def)
  have "is_int nops" using int_of_long_range [of k] r(3) by simp
  then have k: "k = nops"
    using b(2,3) r(3) int_of_long_id [of k] by (cases "0 \<le> nops") (auto simp: is_int_def)
  have "0 \<le> op_index x \<and> op_index x < nids" if ids: "0 < nids" and x: "x \<in> set os" "op_type x \<noteq> FREE" for x
  proof -
    obtain j where "j < nat k" "os ! j = x" using x(1) b(1) k by (auto simp: in_set_conv_nth)
    then obtain u where u: "0 \<le> u" "u \<le> m" "op_index x = int_of_long u"
      using b(4) x(2) unfolding below_def by blast
    have "m < 2 ^ 31"
      using int_of_long_neg [of m] b(5) r(2) ids by (cases "2 ^ 31 \<le> m") auto
    then have "int_of_long m = m" "int_of_long u = u" using u(1,2) small_int by simp_all
    then show ?thesis using u r(2) by simp
  qed
  then show ?thesis using b(1) t junk(2) by simp
qed

end
