(* ===== verification/Timing.thy ===== *)
theory Timing
  imports Prelude Complex_Main
begin

text \<open>
  The clocks: the cycle counter of \<^verbatim>\<open>clock.c\<close> (the versions for i386, for Alpha and
  for other machines, and the part that is common to all), the timers of \<^verbatim>\<open>ftimer.c\<close>,
  and \<^verbatim>\<open>fsecs.c\<close> as \<^verbatim>\<open>config.h\<close> configures it.  The hardware counter, \<open>times\<close>, \<open>sleep\<close>, the interval
  timers and \<open>gettimeofday\<close> act on a state of their own, the field \<open>env\<close>, and are
  arguments.  A \<open>double\<close> is a real number; messages are left out.
\<close>

section \<open>The cycle counter\<close>

record 'e clock =
  env :: 'e
  cyc_hi :: "32 word"
  cyc_lo :: "32 word"
  cyc_per_tick :: real
  start_tick :: int

definition on_env :: "('e, 'a) prog \<Rightarrow> ('e clock, 'a) prog" where
  "on_env m = (\<lambda>s. case m (env s) of Inl x \<Rightarrow> Inl x | Inr (x, e) \<Rightarrow> Inr (x, s\<lparr>env := e\<rparr>))"

lemma on_env_apply [prog_eval]:
  "on_env m s = (case m (env s) of Inl x \<Rightarrow> Inl x | Inr (x, e) \<Rightarrow> Inr (x, s\<lparr>env := e\<rparr>))"
  by (simp add: on_env_def)

definition start_counter :: "('e, 32 word \<times> 32 word) prog \<Rightarrow> ('e clock, unit) prog" where
  "start_counter access_counter =
     bnd (on_env access_counter) (\<lambda>(hi, lo). modify (\<lambda>s. s\<lparr>cyc_hi := hi, cyc_lo := lo\<rparr>))"

definition get_counter :: "('e, 32 word \<times> 32 word) prog \<Rightarrow> ('e clock, real) prog" where
  "get_counter access_counter =
     bnd (on_env access_counter) (\<lambda>(ncyc_hi, ncyc_lo).
     bnd (gets cyc_hi) (\<lambda>chi. bnd (gets cyc_lo) (\<lambda>clo.
     let lo = ncyc_lo - clo;
         borrow = (if lo > ncyc_lo then 1 else 0);
         hi = ncyc_hi - chi - borrow in
     ret (real_of_int (uint hi) * (2 ^ 30) * 4 + real_of_int (uint lo)))))"

text \<open>
  The Alpha version; \<open>counter\<close> is the machine routine that reads the low half of the
  counter.
\<close>

definition alpha_start_counter :: "('e, 32 word) prog \<Rightarrow> ('e clock, unit) prog" where
  "alpha_start_counter counter =
     seqp (modify (\<lambda>s. s\<lparr>cyc_hi := 0\<rparr>))
          (bnd (on_env counter) (\<lambda>lo. modify (\<lambda>s. s\<lparr>cyc_lo := lo\<rparr>)))"

definition alpha_get_counter :: "('e, 32 word) prog \<Rightarrow> ('e clock, real) prog" where
  "alpha_get_counter counter =
     bnd (on_env counter) (\<lambda>ncyc_lo.
     bnd (gets cyc_hi) (\<lambda>chi. bnd (gets cyc_lo) (\<lambda>clo.
     let ncyc_hi = 0;
         lo = ncyc_lo - clo;
         borrow = (if lo > ncyc_lo then 1 else 0);
         hi = ncyc_hi - chi - borrow in
     ret (real_of_int (uint hi) * (2 ^ 30) * 4 + real_of_int (uint lo)))))"

text \<open>On a machine that is neither i386 nor Alpha both stop the program.\<close>

definition other_start_counter :: "('s, unit) prog" where
  "other_start_counter = raise (Exit 1)"

definition other_get_counter :: "('s, real) prog" where
  "other_get_counter = raise (Exit 1)"

section \<open>Machine-independent functions\<close>

definition ovhd :: "('e, 32 word \<times> 32 word) prog \<Rightarrow> ('e clock, real) prog" where
  "ovhd access_counter =
     seqp (start_counter access_counter)
    (bnd (get_counter access_counter) (\<lambda>_.
     seqp (start_counter access_counter)
          (get_counter access_counter)))"

definition mhz_full ::
  "('e, 32 word \<times> 32 word) prog \<Rightarrow> (int \<Rightarrow> ('e, unit) prog) \<Rightarrow> int \<Rightarrow> ('e clock, real) prog" where
  "mhz_full access_counter sleep sleeptime =
     seqp (start_counter access_counter)
    (seqp (on_env (sleep sleeptime))
    (bnd (get_counter access_counter) (\<lambda>c. ret (c / (10 ^ 6 * real_of_int sleeptime)))))"

definition mhz :: "('e, 32 word \<times> 32 word) prog \<Rightarrow> (int \<Rightarrow> ('e, unit) prog) \<Rightarrow> ('e clock, real) prog" where
  "mhz access_counter sleep = mhz_full access_counter sleep 2"

definition NEVENT :: int where
  "NEVENT = 100"

definition THRESHOLD :: real where
  "THRESHOLD = 1000"

definition RECORDTHRESH :: real where
  "RECORDTHRESH = 3000"

text \<open>
  \<open>callibrate\<close> waits for events that it cannot force, so its loop has fuel; \<open>utime\<close>
  is the user time that \<open>times\<close> reports.
\<close>

fun callibrate_loop ::
  "nat \<Rightarrow> ('e, 32 word \<times> 32 word) prog \<Rightarrow> ('e, int) prog \<Rightarrow> real \<Rightarrow> int \<Rightarrow> int \<Rightarrow> ('e clock, unit) prog" where
  "callibrate_loop 0 access_counter utime oldt oldc e = raise Out_Of_Fuel"
| "callibrate_loop (Suc m) access_counter utime oldt oldc e =
     (if e < NEVENT then
        bnd (get_counter access_counter) (\<lambda>newt.
          if newt - oldt \<ge> THRESHOLD then
            bnd (on_env utime) (\<lambda>newc.
              if newc > oldc then
                let cpt = (newt - oldt) / real_of_int (newc - oldc) in
                seqp (modify (\<lambda>s.
                       if (cyc_per_tick s = 0 \<or> cyc_per_tick s > cpt) \<and> cpt > RECORDTHRESH
                       then s\<lparr>cyc_per_tick := cpt\<rparr> else s))
                     (callibrate_loop m access_counter utime newt newc (e + 1))
              else callibrate_loop m access_counter utime newt oldc e)
          else callibrate_loop m access_counter utime oldt oldc e)
      else ret ())"

definition callibrate ::
  "nat \<Rightarrow> ('e, 32 word \<times> 32 word) prog \<Rightarrow> ('e, int) prog \<Rightarrow> ('e clock, unit) prog" where
  "callibrate fuel access_counter utime =
     bnd (on_env utime) (\<lambda>oldc.
     seqp (start_counter access_counter)
    (bnd (get_counter access_counter) (\<lambda>oldt.
     callibrate_loop fuel access_counter utime oldt oldc 0)))"

definition start_comp_counter ::
  "nat \<Rightarrow> ('e, 32 word \<times> 32 word) prog \<Rightarrow> ('e, int) prog \<Rightarrow> ('e clock, unit) prog" where
  "start_comp_counter fuel access_counter utime =
     bnd (gets cyc_per_tick) (\<lambda>c.
     seqp (if c = 0 then callibrate fuel access_counter utime else ret ())
    (bnd (on_env utime) (\<lambda>t.
     seqp (modify (\<lambda>s. s\<lparr>start_tick := t\<rparr>))
          (start_counter access_counter))))"

definition get_comp_counter ::
  "('e, 32 word \<times> 32 word) prog \<Rightarrow> ('e, int) prog \<Rightarrow> ('e clock, real) prog" where
  "get_comp_counter access_counter utime =
     bnd (get_counter access_counter) (\<lambda>time.
     bnd (on_env utime) (\<lambda>t.
     bnd (gets start_tick) (\<lambda>t0. bnd (gets cyc_per_tick) (\<lambda>c.
     let ticks = t - t0 in
     ret (time - real_of_int ticks * c)))))"

section \<open>ftimer.c\<close>

datatype itimer = ITIMER_VIRTUAL | ITIMER_REAL | ITIMER_PROF

text \<open>Initial timer values, as seconds and microseconds; \<open>sys\<close> is the rest of the process.\<close>

record 'e timers =
  sys :: 'e
  first_u :: "int \<times> int"
  first_r :: "int \<times> int"
  first_p :: "int \<times> int"

definition on_sys :: "('e, 'a) prog \<Rightarrow> ('e timers, 'a) prog" where
  "on_sys m = (\<lambda>s. case m (sys s) of Inl x \<Rightarrow> Inl x | Inr (x, e) \<Rightarrow> Inr (x, s\<lparr>sys := e\<rparr>))"

lemma on_sys_apply [prog_eval]:
  "on_sys m s = (case m (sys s) of Inl x \<Rightarrow> Inl x | Inr (x, e) \<Rightarrow> Inr (x, s\<lparr>sys := e\<rparr>))"
  by (simp add: on_sys_def)

definition MAX_ETIME :: int where
  "MAX_ETIME = 86400"

definition init_etime :: "(itimer \<Rightarrow> int \<times> int \<Rightarrow> ('e, unit) prog) \<Rightarrow> ('e timers, unit) prog" where
  "init_etime setitimer =
     seqp (modify (\<lambda>s. s\<lparr>first_u := (MAX_ETIME, 0)\<rparr>))
    (seqp (on_sys (setitimer ITIMER_VIRTUAL (MAX_ETIME, 0)))
    (seqp (modify (\<lambda>s. s\<lparr>first_r := (MAX_ETIME, 0)\<rparr>))
    (seqp (on_sys (setitimer ITIMER_REAL (MAX_ETIME, 0)))
    (seqp (modify (\<lambda>s. s\<lparr>first_p := (MAX_ETIME, 0)\<rparr>))
          (on_sys (setitimer ITIMER_PROF (MAX_ETIME, 0)))))))"

definition get_etime :: "(itimer \<Rightarrow> ('e, int \<times> int) prog) \<Rightarrow> ('e timers, real) prog" where
  "get_etime getitimer =
     bnd (on_sys (getitimer ITIMER_VIRTUAL)) (\<lambda>v_curr.
     bnd (on_sys (getitimer ITIMER_REAL)) (\<lambda>r_curr.
     bnd (on_sys (getitimer ITIMER_PROF)) (\<lambda>p_curr.
     bnd (gets first_p) (\<lambda>p.
     ret (real_of_int (fst p - fst r_curr) + real_of_int (snd p - snd r_curr) * (1 / 10 ^ 6))))))"

fun repeatedly :: "nat \<Rightarrow> ('s, unit) prog \<Rightarrow> ('s, unit) prog" where
  "repeatedly 0 f = ret ()"
| "repeatedly (Suc n) f = seqp f (repeatedly n f)"

definition ftimer_itimer ::
  "(itimer \<Rightarrow> int \<times> int \<Rightarrow> ('e, unit) prog) \<Rightarrow> (itimer \<Rightarrow> ('e, int \<times> int) prog) \<Rightarrow>
   ('e, unit) prog \<Rightarrow> int \<Rightarrow> ('e timers, real) prog" where
  "ftimer_itimer setitimer getitimer f n =
     seqp (init_etime setitimer)
    (bnd (get_etime getitimer) (\<lambda>start.
     seqp (on_sys (repeatedly (nat n) f))
    (bnd (get_etime getitimer) (\<lambda>end_time.
     let tmeas = end_time - start in
     ret (tmeas / real_of_int n)))))"

definition ftimer_gettod ::
  "('e, int \<times> int) prog \<Rightarrow> ('e, unit) prog \<Rightarrow> int \<Rightarrow> ('e, real) prog" where
  "ftimer_gettod gettimeofday f n =
     bnd gettimeofday (\<lambda>stv.
     seqp (repeatedly (nat n) f)
    (bnd gettimeofday (\<lambda>etv.
     let diff = 10 ^ 3 * real_of_int (fst etv - fst stv) + 1 / 10 ^ 3 * real_of_int (snd etv - snd stv);
         diff' = diff / real_of_int n in
     ret (1 / 10 ^ 3 * diff'))))"

text \<open>
  \<open>init_fsecs\<close> and \<open>fsecs\<close> with \<open>USE_ITIMER\<close>, as \<^verbatim>\<open>config.h\<close> has it; the clock rate \<open>Mhz\<close> is
  then not used.
\<close>

definition init_fsecs :: "(real, unit) prog" where
  "init_fsecs = modify (\<lambda>Mhz. 0)"

definition fsecs ::
  "(itimer \<Rightarrow> int \<times> int \<Rightarrow> ('e, unit) prog) \<Rightarrow> (itimer \<Rightarrow> ('e, int \<times> int) prog) \<Rightarrow>
   ('e, unit) prog \<Rightarrow> ('e timers, real) prog" where
  "fsecs setitimer getitimer f = ftimer_itimer setitimer getitimer f 10"

section \<open>What the clocks measure\<close>

text \<open>The 64-bit value of the two halves of the counter.\<close>

definition cycles :: "32 word \<Rightarrow> 32 word \<Rightarrow> int" where
  "cycles hi lo = uint hi * 2 ^ 32 + uint lo"

lemma borrow_iff: "a - b > a \<longleftrightarrow> uint (a :: 32 word) < uint b"
  using uint_lt2p [of b] by (simp add: word_less_def uint_sub_if' not_less)

lemma high_low_mod:
  assumes "0 \<le> l" and "l < (2 ^ 32 :: int)"
  shows "(h mod 2 ^ 32) * 2 ^ 32 + l = (h * 2 ^ 32 + l) mod 2 ^ 64"
proof -
  let ?t = "(h mod 2 ^ 32) * 2 ^ 32 + l"
  have "0 \<le> h mod 2 ^ 32" "h mod 2 ^ 32 \<le> 2 ^ 32 - 1" by simp_all
  then have t: "0 \<le> ?t" "?t < 2 ^ 64" using assms by simp_all
  have "h * 2 ^ 32 = (h div 2 ^ 32 * 2 ^ 32 + h mod 2 ^ 32) * 2 ^ 32" by (simp only: div_mult_mod_eq)
  then have "h * 2 ^ 32 + l = ?t + (h div 2 ^ 32) * 2 ^ 64" by (simp only: distrib_right) simp
  then have "(h * 2 ^ 32 + l) mod 2 ^ 64 = ?t mod 2 ^ 64" by (simp only: mod_mult_self1)
  then show ?thesis using mod_pos_pos_trivial [OF t] by simp
qed

lemma double_subtraction:
  fixes nhi nlo chi clo :: "32 word"
  defines "b \<equiv> (if nlo - clo > nlo then 1 else 0)"
  shows "cycles (nhi - chi - b) (nlo - clo) = (cycles nhi nlo - cycles chi clo) mod 2 ^ 64"
proof -
  let ?b = "if uint nlo < uint clo then 1 else 0 :: int"
  have b: "uint b = ?b" by (simp add: b_def borrow_iff)
  have lo: "uint (nlo - clo) = uint nlo - uint clo + ?b * 2 ^ 32" by (simp add: uint_sub_if')
  have "uint (nhi - chi - b) = (uint nhi - uint chi - ?b) mod 2 ^ 32"
    using b by (simp add: uint_word_ariths(2) mod_diff_left_eq)
  then have "cycles (nhi - chi - b) (nlo - clo) =
      ((uint nhi - uint chi - ?b) * 2 ^ 32 + uint (nlo - clo)) mod 2 ^ 64"
    using high_low_mod [of "uint (nlo - clo)"] uint_lt2p [of "nlo - clo"] by (simp add: cycles_def)
  then show ?thesis unfolding lo by (simp add: cycles_def algebra_simps)
qed

lemma get_counter_ok:
  assumes "access_counter (env s) = Inr ((nhi, nlo), e)"
  shows "get_counter access_counter s =
    Inr (real_of_int ((cycles nhi nlo - cycles (cyc_hi s) (cyc_lo s)) mod 2 ^ 64), s\<lparr>env := e\<rparr>)"
proof -
  let ?b = "if nlo - cyc_lo s > nlo then 1 else 0 :: 32 word"
  have "get_counter access_counter s =
      Inr (real_of_int (cycles (nhi - cyc_hi s - ?b) (nlo - cyc_lo s)), s\<lparr>env := e\<rparr>)"
    using assms by (simp add: get_counter_def prog_eval cycles_def Let_def)
  then show ?thesis unfolding double_subtraction .
qed

text \<open>
  The Alpha version has only the low half.  When that has wrapped around, the borrow
  from a high half of 0 adds 2^64 - 2^32 to the cycles that have passed.
\<close>

lemma alpha_get_counter_ok:
  assumes "counter (env s) = Inr (n, e)" and hi: "cyc_hi s = 0"
  shows "alpha_get_counter counter s = Inr (real_of_int
    (uint (n - cyc_lo s) + (if uint n < uint (cyc_lo s) then 2 ^ 64 - 2 ^ 32 else 0)), s\<lparr>env := e\<rparr>)"
proof -
  have one: "uint (- 1 :: 32 word) = 2 ^ 32 - 1"
    by (simp add: unsigned_minus_1_eq_mask mask_eq_exp_minus_1)
  have "n - cyc_lo s > n \<longleftrightarrow> uint n < uint (cyc_lo s)" by (rule borrow_iff)
  then show ?thesis
    using assms(1) arg_cong [OF one, of real_of_int] by (simp add: alpha_get_counter_def prog_eval Let_def hi)
qed

text \<open>The mean of \<open>n\<close> runs between two readings of the clock.\<close>

lemma ftimer_gettod_ok:
  assumes "gettimeofday e = Inr ((s0, u0), e1)" and "repeatedly (nat n) f e1 = Inr ((), e2)"
    and "gettimeofday e2 = Inr ((s1, u1), e3)"
  shows "ftimer_gettod gettimeofday f n e =
    Inr ((real_of_int ((s1 - s0) * 10 ^ 6 + (u1 - u0)) / 10 ^ 6) / real_of_int n, e3)"
  using assms by (simp add: ftimer_gettod_def prog_eval Let_def field_simps)

lemma ftimer_itimer_ok:
  assumes "\<And>w v e. \<exists>e'. setitimer w v e = Inr ((), e')"
    and "\<And>w e. \<exists>v. getitimer w e = Inr (v, e)"
    and "\<And>e. \<exists>e'. f e = Inr ((), e')"
  obtains e0 e1 r0 r1 where "getitimer ITIMER_REAL e0 = Inr (r0, e0)" and "repeatedly (nat n) f e0 = Inr ((), e1)"
    and "getitimer ITIMER_REAL e1 = Inr (r1, e1)"
    and "\<exists>s'. ftimer_itimer setitimer getitimer f n s =
      Inr ((real_of_int ((fst r0 - fst r1) * 10 ^ 6 + (snd r0 - snd r1)) / 10 ^ 6) / real_of_int n, s')"
proof -
  obtain a1 where a1: "setitimer ITIMER_VIRTUAL (MAX_ETIME, 0) (sys s) = Inr ((), a1)" using assms(1) by blast
  obtain a2 where a2: "setitimer ITIMER_REAL (MAX_ETIME, 0) a1 = Inr ((), a2)" using assms(1) by blast
  obtain e0 where e0: "setitimer ITIMER_PROF (MAX_ETIME, 0) a2 = Inr ((), e0)" using assms(1) by blast
  have runs: "\<exists>e'. repeatedly m f e = Inr ((), e')" for m e
  proof (induction m arbitrary: e)
    case (Suc m)
    obtain e' where "f e = Inr ((), e')" using assms(3) by blast
    then show ?case using Suc.IH [of e'] by (simp add: seqp_apply)
  qed (simp add: ret_apply)
  obtain e1 where e1: "repeatedly (nat n) f e0 = Inr ((), e1)" using runs by blast
  obtain v0 r0 p0 where t0: "getitimer ITIMER_VIRTUAL e0 = Inr (v0, e0)" "getitimer ITIMER_REAL e0 = Inr (r0, e0)"
      "getitimer ITIMER_PROF e0 = Inr (p0, e0)"
    using assms(2) by meson
  obtain v1 r1 p1 where t1: "getitimer ITIMER_VIRTUAL e1 = Inr (v1, e1)" "getitimer ITIMER_REAL e1 = Inr (r1, e1)"
      "getitimer ITIMER_PROF e1 = Inr (p1, e1)"
    using assms(2) by meson
  have "\<exists>s'. ftimer_itimer setitimer getitimer f n s =
      Inr ((real_of_int ((fst r0 - fst r1) * 10 ^ 6 + (snd r0 - snd r1)) / 10 ^ 6) / real_of_int n, s')"
    using a1 a2 e0 e1 t0 t1
    by (simp add: ftimer_itimer_def init_etime_def get_etime_def prog_eval Let_def)
      (simp add: diff_divide_distrib add_divide_distrib)
  then show thesis using that t0(2) e1 t1(2) by blast
qed

end
