(* ===== verification/Report.thy ===== *)
theory Report
  imports Read_Trace Timing
begin

text \<open>
  The results of \<^verbatim>\<open>mdriver.c\<close> and its \<open>main\<close>: the statistics of a trace, the
  performance index, the tables that are printed, the command line, and the run
  over all traces.  The options come from \<open>getopt\<close> as pairs of a letter and an
  argument; the replays are timed by \<open>fsecs\<close>, and the interval timers that it reads are
  parameters.  A \<open>double\<close> is a real number; a quotient that
  is not a number is \<open>None\<close>.  The tables are lists of rows with the numbers that are
  printed; headings and progress messages are left out.
\<close>

section \<open>Statistics\<close>

record stats =
  st_ops :: real
  valid :: int
  secs :: real
  st_name :: string
  error_msg :: "(int \<times> complaint) option"
  util :: real

definition AVG_LIBC_THRUPUT :: real where
  "AVG_LIBC_THRUPUT = 600000"

definition UTIL_WEIGHT :: real where
  "UTIL_WEIGHT = 8 / 10"

text \<open>
  The times and operation counts are not negative, so a quotient by 0 is infinite,
  and larger than every bound, or not a number.
\<close>

definition compute_performance_index :: "int \<Rightarrow> real \<Rightarrow> real \<Rightarrow> real \<Rightarrow> real option" where
  "compute_performance_index n total_secs total_ops total_util =
     (if n = 0 \<or> total_secs = 0 \<and> total_ops = 0 then None
      else
        let avg_util = total_util / real_of_int n;
            throughput_score =
              (if total_secs = 0 \<or> total_ops / total_secs > AVG_LIBC_THRUPUT then 1
               else total_ops / total_secs / AVG_LIBC_THRUPUT) in
        Some (100 * (avg_util * UTIL_WEIGHT + (1 - UTIL_WEIGHT) * throughput_score)))"

section \<open>Tables\<close>

datatype row =
    Row int string real real real "real option"
  | Row_Failed int string
  | Total_Row "real option" real real "real option"
  | Total_Failed

definition quotient :: "real \<Rightarrow> real \<Rightarrow> real option" where
  "quotient x y = (if y = 0 then None else Some (x / y))"

fun result_rows :: "int \<Rightarrow> stats list \<Rightarrow> row list" where
  "result_rows i [] = []"
| "result_rows i (x # xs) =
     (if valid x \<noteq> 0
      then Row i (st_name x) (util x * 100) (st_ops x) (secs x) (quotient (st_ops x / 1000) (secs x))
      else Row_Failed i (st_name x)) # result_rows (i + 1) xs"

definition valid_sum :: "(stats \<Rightarrow> real) \<Rightarrow> stats list \<Rightarrow> real" where
  "valid_sum f xs = sum_list (map f (filter (\<lambda>x. valid x \<noteq> 0) xs))"

definition printresults :: "int \<Rightarrow> stats list \<Rightarrow> row list" where
  "printresults errs xs =
     result_rows 0 xs @
     [if errs = 0
      then Total_Row (map_option (\<lambda>q. q * 100) (quotient (valid_sum util xs) (real (length xs))))
             (valid_sum st_ops xs) (valid_sum secs xs)
             (quotient (valid_sum st_ops xs / 1000) (valid_sum secs xs))
      else Total_Failed]"

text \<open>
  The report for Gradescope: index, name, consistent, utilization, message.
  \<open>can_write n\<close> says whether the \<open>n\<close>-th line can be written; the first failure ends it.
\<close>

datatype grade_row = Grade_Heading | Grade_Row int string int "real option" "(int \<times> complaint) option"

fun grade_rows :: "(nat \<Rightarrow> bool) \<Rightarrow> nat \<Rightarrow> stats list \<Rightarrow> grade_row list" where
  "grade_rows can_write n [] = []"
| "grade_rows can_write n (x # xs) =
     (if can_write (Suc n) then
        Grade_Row (int n) (st_name x) (if valid x \<noteq> 0 then 1 else 0)
          (if valid x \<noteq> 0 then Some (util x * 100) else None) (error_msg x)
        # grade_rows can_write (Suc n) xs
      else [])"

definition printresultsgradescope :: "bool \<Rightarrow> (nat \<Rightarrow> bool) \<Rightarrow> stats list \<Rightarrow> grade_row list" where
  "printresultsgradescope can_open can_write xs =
     (if \<not> can_open \<or> \<not> can_write 0 then [] else Grade_Heading # grade_rows can_write 0 xs)"

text \<open>The baseline of \<^verbatim>\<open>config.h\<close>.\<close>

definition trace_baseline_table :: "(string \<times> real) list" where
  "trace_baseline_table =
     [(''amptjp-bal.rep'', 0), (''cccp-bal.rep'', 0),
      (''cp-decl-bal.rep'', 0), (''expr-bal.rep'', 0),
      (''random-bal.rep'', 0), (''random2-bal.rep'', 0),
      (''binary-bal.rep'', 0), (''binary2-bal.rep'', 0),
      (''coalescing-bal.rep'', 9 / 10), (''coalescing2-bal.rep'', 9 / 10),
      (''realloc-bal.rep'', 45 / 100), (''realloc2-bal.rep'', 45 / 100)]"

datatype pass_row = Consistent int string real bool | Inconsistent int string

fun passed_rows :: "int \<Rightarrow> stats list \<Rightarrow> pass_row list" where
  "passed_rows i [] = []"
| "passed_rows i (x # xs) =
     map (\<lambda>(name, min_util).
            if valid x \<noteq> 0 then Consistent i (st_name x) (util x * 100) (util x \<ge> min_util)
            else Inconsistent i (st_name x))
         (filter (\<lambda>(name, min_util). st_name x = name) trace_baseline_table) @
     passed_rows (i + 1) xs"

definition printpassed :: "stats list \<Rightarrow> pass_row list" where
  "printpassed xs = passed_rows 0 xs"

section \<open>The command line\<close>

record config =
  tracefiles :: "string list option"
  num_tracefiles :: int
  tracedir :: string
  verbose :: int
  run_libc :: bool
  gradescope :: bool

datatype start = Run config | Start_Repl | Leave int

definition default_tracefiles :: "string list" where
  "default_tracefiles =
     [''amptjp-bal.rep'', ''cccp-bal.rep'', ''cp-decl-bal.rep'', ''expr-bal.rep'',
      ''random-bal.rep'', ''random2-bal.rep'', ''binary-bal.rep'', ''binary2-bal.rep'',
      ''coalescing-bal.rep'', ''coalescing2-bal.rep'', ''realloc-bal.rep'', ''realloc2-bal.rep'']"

definition initial_config :: config where
  "initial_config =
     \<lparr>tracefiles = None, num_tracefiles = 0, tracedir = ''./traces/'', verbose = 0,
      run_libc = False, gradescope = False\<rparr>"

fun read_options :: "(char \<times> string) list \<Rightarrow> config \<Rightarrow> fault + start" where
  "read_options [] c =
     Inr (Run (if tracefiles c = None
       then c\<lparr>tracefiles := Some default_tracefiles, num_tracefiles := int (length default_tracefiles)\<rparr>
       else c))"
| "read_options ((opt, optarg) # rest) c =
     (if opt = CHR ''r'' then Inr Start_Repl
      else if opt = CHR ''G'' then read_options rest (c\<lparr>gradescope := True\<rparr>)
      else if opt = CHR ''f'' then
        read_options rest (c\<lparr>num_tracefiles := 1, verbose := (if verbose c = 0 then 1 else verbose c),
          tracedir := [], tracefiles := Some [optarg]\<rparr>)
      else if opt = CHR ''t'' then
        (if num_tracefiles c = 1 then read_options rest c
         else if optarg = [] then Inl Bad_Address
         else
           let path = (if last optarg \<noteq> CHR ''/'' then optarg @ ''/'' else optarg) in
           if length path < LINE_SIZE then read_options rest (c\<lparr>tracedir := path\<rparr>)
           else Inl Bad_Address)
      else if opt = CHR ''l'' then read_options rest (c\<lparr>run_libc := True\<rparr>)
      else if opt = CHR ''v'' then read_options rest (c\<lparr>verbose := 1\<rparr>)
      else if opt = CHR ''V'' then read_options rest (c\<lparr>verbose := 2\<rparr>)
      else if opt = CHR ''h'' then Inr (Leave 0)
      else Inr (Leave 1))"

section \<open>The run over the traces\<close>

text \<open>
  The state of a run is a driver together with the interval timers of the system, below
  the variables of \<^verbatim>\<open>ftimer.c\<close>.  The timers are not part of the driver: a call of
  \<open>setitimer\<close> or \<open>getitimer\<close> moves them on, and what a reading gives need not depend on what
  the driver has done.
\<close>

definition on_fst :: "('d, 'a) prog \<Rightarrow> ('d \<times> 'o, 'a) prog" where
  "on_fst m = (\<lambda>(d, c). case m d of Inl x \<Rightarrow> Inl x | Inr (v, d') \<Rightarrow> Inr (v, (d', c)))"

definition on_snd :: "('o, 'a) prog \<Rightarrow> ('d \<times> 'o, 'a) prog" where
  "on_snd m = (\<lambda>(d, c). case m c of Inl x \<Rightarrow> Inl x | Inr (v, c') \<Rightarrow> Inr (v, (d, c')))"

definition on_driver :: "('d, 'a) prog \<Rightarrow> (('d \<times> 'o) timers, 'a) prog" where
  "on_driver m = on_sys (on_fst m)"

type_synonym 'o set_call = "itimer \<Rightarrow> int \<times> int \<Rightarrow> ('o, unit) prog"
type_synonym 'o get_call = "itimer \<Rightarrow> ('o, int \<times> int) prog"

text \<open>The calls of \<open>fsecs\<close> in \<open>main\<close>.\<close>

definition time_driver :: "'o set_call \<Rightarrow> 'o get_call \<Rightarrow> ('d, unit) prog \<Rightarrow> (('d \<times> 'o) timers, real) prog" where
  "time_driver setitimer getitimer f =
     fsecs (\<lambda>w v. on_snd (setitimer w v)) (\<lambda>w. on_snd (getitimer w)) (on_fst f)"

lemma on_driver_apply [prog_eval]:
  "on_driver m s = (case m (fst (sys s)) of Inl x \<Rightarrow> Inl x
     | Inr (v, d) \<Rightarrow> Inr (v, s\<lparr>sys := (d, snd (sys s))\<rparr>))"
  by (simp add: on_driver_def on_sys_apply on_fst_def split: prod.splits sum.splits)

text \<open>One trace on the package of \<^verbatim>\<open>mm.c\<close>:\<close>

definition run_mm_trace ::
  "libc_env \<Rightarrow> 'o set_call \<Rightarrow> 'o get_call \<Rightarrow> string \<Rightarrow> int \<Rightarrow> string \<Rightarrow>
   ((heap driver \<times> 'o) timers, stats) prog" where
  "run_mm_trace e setitimer getitimer dir i name =
     (\<lambda>s. case read_trace e dir name of
        Inl x \<Rightarrow> Inl x
      | Inr t \<Rightarrow>
          seqp (on_driver (modify (\<lambda>d. d\<lparr>blocks := trace_blocks t, block_sizes := trace_block_sizes t\<rparr>)))
         (bnd (on_driver (eval_mm_valid (ops t) i)) (\<lambda>v.
          bnd (if v \<noteq> 0 then
                 bnd (on_driver (eval_mm_util (ops t) i)) (\<lambda>u.
                 bnd (time_driver setitimer getitimer (eval_mm_speed (ops t))) (\<lambda>x. ret (u, x)))
               else ret (0, 0)) (\<lambda>(u, x).
          ret \<lparr>st_ops = real_of_int (num_ops t), valid = v, secs = x, st_name = trace_name t,
               error_msg = None, util = u\<rparr>))) s)"

fun run_mm_traces ::
  "libc_env \<Rightarrow> 'o set_call \<Rightarrow> 'o get_call \<Rightarrow> string \<Rightarrow> int \<Rightarrow> string list \<Rightarrow>
   ((heap driver \<times> 'o) timers, stats list) prog" where
  "run_mm_traces e setitimer getitimer dir i [] = ret []"
| "run_mm_traces e setitimer getitimer dir i (name # names) =
     bnd (run_mm_trace e setitimer getitimer dir i name) (\<lambda>x.
     bnd (run_mm_traces e setitimer getitimer dir (i + 1) names) (\<lambda>xs. ret (x # xs)))"

text \<open>One trace on the C library's allocator.\<close>

definition run_libc_trace ::
  "libc_env \<Rightarrow> 'o set_call \<Rightarrow> 'o get_call \<Rightarrow>
   (int \<Rightarrow> ('h, int) prog) \<Rightarrow> (int \<Rightarrow> int \<Rightarrow> ('h, int) prog) \<Rightarrow> (int \<Rightarrow> ('h, unit) prog) \<Rightarrow>
   string \<Rightarrow> int \<Rightarrow> string \<Rightarrow> (('h driver \<times> 'o) timers, stats) prog" where
  "run_libc_trace e setitimer getitimer lmalloc lrealloc lfree dir i name =
     (\<lambda>s. case read_trace e dir name of
        Inl x \<Rightarrow> Inl x
      | Inr t \<Rightarrow>
          seqp (on_driver (modify (\<lambda>d. d\<lparr>blocks := trace_blocks t, block_sizes := trace_block_sizes t\<rparr>)))
         (bnd (on_driver (eval_libc_valid lmalloc lrealloc lfree (ops t) i)) (\<lambda>v.
          bnd (if v \<noteq> 0 then time_driver setitimer getitimer (eval_libc_speed lmalloc lrealloc lfree (ops t)) else ret 0) (\<lambda>x.
          ret \<lparr>st_ops = real_of_int (num_ops t), valid = v, secs = x, st_name = [],
               error_msg = None, util = 0\<rparr>))) s)"

fun run_libc_traces ::
  "libc_env \<Rightarrow> 'o set_call \<Rightarrow> 'o get_call \<Rightarrow>
   (int \<Rightarrow> ('h, int) prog) \<Rightarrow> (int \<Rightarrow> int \<Rightarrow> ('h, int) prog) \<Rightarrow> (int \<Rightarrow> ('h, unit) prog) \<Rightarrow>
   string \<Rightarrow> int \<Rightarrow> string list \<Rightarrow> (('h driver \<times> 'o) timers, stats list) prog" where
  "run_libc_traces e setitimer getitimer lmalloc lrealloc lfree dir i [] = ret []"
| "run_libc_traces e setitimer getitimer lmalloc lrealloc lfree dir i (name # names) =
     bnd (run_libc_trace e setitimer getitimer lmalloc lrealloc lfree dir i name) (\<lambda>x.
     bnd (run_libc_traces e setitimer getitimer lmalloc lrealloc lfree dir (i + 1) names) (\<lambda>xs. ret (x # xs)))"

text \<open>
  The part of \<open>main\<close> for \<^verbatim>\<open>-l\<close>.  At this point \<open>errors\<close> is 0, and it stays 0, since a
  failing call of the C library ends the program.
\<close>

definition run_libc_package ::
  "libc_env \<Rightarrow> 'o set_call \<Rightarrow> 'o get_call \<Rightarrow>
   (int \<Rightarrow> ('h, int) prog) \<Rightarrow> (int \<Rightarrow> int \<Rightarrow> ('h, int) prog) \<Rightarrow> (int \<Rightarrow> ('h, unit) prog) \<Rightarrow>
   config \<Rightarrow> (('h driver \<times> 'o) timers, row list) prog" where
  "run_libc_package e setitimer getitimer lmalloc lrealloc lfree c =
     (if \<not> run_libc c then ret []
      else if \<not> malloc_ok e (num_tracefiles c * 2080) then unix_error
      else
        bnd (run_libc_traces e setitimer getitimer lmalloc lrealloc lfree (tracedir c) 0
               (case tracefiles c of None \<Rightarrow> [] | Some fs \<Rightarrow> fs)) (\<lambda>xs.
        bnd (on_driver (gets errors)) (\<lambda>errs.
        ret (if verbose c \<noteq> 0 then printresults errs xs else []))))"

text \<open>The messages that \<open>malloc_error\<close> has left in the statistics.\<close>

fun with_messages :: "(int \<Rightarrow> (int \<times> complaint) option) \<Rightarrow> int \<Rightarrow> stats list \<Rightarrow> stats list" where
  "with_messages f i [] = []"
| "with_messages f i (x # xs) = x\<lparr>error_msg := f i\<rparr> # with_messages f (i + 1) xs"

record report =
  mm_table :: "row list"
  pass_table :: "pass_row list"
  grade_table :: "grade_row list"
  numcorrect :: int
  perfindex :: "real option"

text \<open>
  What \<open>main\<close> prints at the end.  The index is computed only without \<open>-G\<close>; it is 0 when
  there were errors.
\<close>

definition summary :: "config \<Rightarrow> bool \<Rightarrow> (nat \<Rightarrow> bool) \<Rightarrow> int \<Rightarrow> stats list \<Rightarrow> report" where
  "summary c can_open can_write errs xs =
     \<lparr>mm_table = (if verbose c \<noteq> 0 then printresults errs xs else []),
      pass_table = (if verbose c = 0 then printpassed xs else []),
      grade_table = (if gradescope c then printresultsgradescope can_open can_write xs else []),
      numcorrect = int (length (filter (\<lambda>x. valid x \<noteq> 0) xs)),
      perfindex =
        (if gradescope c then None
         else if errs \<noteq> 0 then Some 0
         else compute_performance_index (num_tracefiles c) (sum_list (map secs xs))
           (sum_list (map st_ops xs)) (sum_list (map util xs)))\<rparr>"

text \<open>
  The part of \<open>main\<close> that tests the package of \<^verbatim>\<open>mm.c\<close>: \<open>vm\<close> is what \<open>malloc\<close> returned
  for the heap's region.
\<close>

definition run_mm ::
  "libc_env \<Rightarrow> 'o set_call \<Rightarrow> 'o get_call \<Rightarrow> int option \<Rightarrow> config \<Rightarrow>
   ((heap driver \<times> 'o) timers, stats list) prog" where
  "run_mm e setitimer getitimer vm c =
     (if \<not> malloc_ok e (num_tracefiles c * 2080) then unix_error
      else
        seqp (on_driver (modify (\<lambda>d. d\<lparr>mm_stats := Some (\<lambda>_. None)\<rparr>)))
       (seqp (on_driver (on_heap (mem_init vm)))
       (bnd (run_mm_traces e setitimer getitimer (tracedir c) 0 (case tracefiles c of None \<Rightarrow> [] | Some fs \<Rightarrow> fs)) (\<lambda>xs.
        bnd (on_driver (gets mm_stats)) (\<lambda>m.
        ret (case m of None \<Rightarrow> xs | Some f \<Rightarrow> with_messages f 0 xs))))))"

definition run_main ::
  "libc_env \<Rightarrow> 'o set_call \<Rightarrow> 'o get_call \<Rightarrow> int option \<Rightarrow> bool \<Rightarrow>
   (nat \<Rightarrow> bool) \<Rightarrow> config \<Rightarrow> ((heap driver \<times> 'o) timers, report) prog" where
  "run_main e setitimer getitimer vm can_open can_write c =
     bnd (run_mm e setitimer getitimer vm c) (\<lambda>xs.
     bnd (on_driver (gets errors)) (\<lambda>errs. ret (summary c can_open can_write errs xs)))"

end
