(* ===== verification/Run_Ok.thy ===== *)
theory Run_Ok
  imports Report Eval_Speed Timing
begin

text \<open>
  The driver's run over its traces: reading, checking, measuring and timing
  composed.  On trace files that hold well-formed traces every trace is consistent,
  nothing is reported, and the performance index lies between 0 and 100.
\<close>

section \<open>The performance index\<close>

lemma performance_bounds:
  assumes n: "0 < n" and s: "0 \<le> total_secs" and o: "0 \<le> total_ops" "total_secs = 0 \<longrightarrow> total_ops \<noteq> 0"
    and u: "0 \<le> total_util" "total_util \<le> real_of_int n"
  shows "\<exists>x. compute_performance_index n total_secs total_ops total_util = Some x \<and> 0 \<le> x \<and> x \<le> 100"
proof -
  let ?a = "total_util / real_of_int n"
  let ?t = "if total_secs = 0 \<or> total_ops / total_secs > AVG_LIBC_THRUPUT then 1
    else total_ops / total_secs / AVG_LIBC_THRUPUT"
  let ?x = "100 * (?a * UTIL_WEIGHT + (1 - UTIL_WEIGHT) * ?t)"
  have a: "0 \<le> ?a" "?a \<le> 1" using n u by (simp_all add: divide_le_eq)
  have t: "0 \<le> ?t" "?t \<le> 1" using s o by (auto simp: AVG_LIBC_THRUPUT_def not_less divide_le_eq mult.commute)
  have w: "UTIL_WEIGHT = 4 / 5" by (simp add: UTIL_WEIGHT_def)
  have eq: "?x = 80 * ?a + 20 * ?t" unfolding w by (simp add: algebra_simps)
  have "0 \<le> ?x \<and> ?x \<le> 100" unfolding eq using a t by linarith
  moreover have "compute_performance_index n total_secs total_ops total_util = Some ?x"
    using n o(2) by (simp add: compute_performance_index_def Let_def)
  ultimately show ?thesis by blast
qed

section \<open>What the array of requests keeps of the trace\<close>

text \<open>The size of a \<open>FREE\<close> is whatever the array held before; the replays do not read it.\<close>

lemma same_after_storing:
  assumes "length os = length rs"
  shows "trace_ok U L (map2 stored os rs) = trace_ok U L rs"
    and "low_bytes (map2 stored os rs) = low_bytes rs"
    and "demand (map2 stored os rs) = demand rs"
  using assms
proof (induction os rs arbitrary: L rule: list_induct2)
  case (Cons y ys x xs)
  { case 1 then show ?case using Cons.IH by (cases "op_type x") (simp_all add: stored_def Let_def) }
  { case 2 then show ?case using Cons.IH by (simp add: stored_def) }
  { case 3 then show ?case using Cons.IH by (simp add: demand_Cons stored_def op_need_def) }
qed simp_all

section \<open>One trace\<close>

text \<open>The driver between two traces.\<close>

definition idle :: "heap driver \<Rightarrow> bool" where
  "idle d \<longleftrightarrow> 0 < mem_start_brk (hp d) \<and> mem_start_brk (hp d) mod 8 = 0 \<and> mem_max_addr (hp d) < 2 ^ 62 \<and>
     mem_max_addr (hp d) = mem_start_brk (hp d) + MAX_HEAP \<and> \<not> libc_out d \<and> errors d = 0"

lemma idle_ready: "idle d \<Longrightarrow> region_ready (hp d) \<and> int_region (hp d) \<and> is_int (errors d + 1) \<and> \<not> libc_out d"
  by (simp add: idle_def region_ready_def int_region_def is_int_def MAX_HEAP_def)

lemma idle_after:
  assumes "idle d" and "took c (restarted d) d'" and "silent d d'" and "\<not> libc_out d'"
  shows "idle d'"
proof -
  note r = restart [OF idle_ready [OF assms(1), THEN conjunct1]]
  have "\<not> libc_out d" using assms(1) by (simp add: idle_def)
  then show ?thesis
    using assms r(6,7) by (simp add: idle_def took_def silent_def mem_heap_lo_def)
qed

lemma valid_run:
  assumes d: "idle d" and ok: "trace_ok (ids d) {} os" "low_bytes os" and room: "32 + demand os \<le> MAX_HEAP"
  obtains d' where "eval_mm_valid os tn d = Inr (1, d')" and "idle d'" and "silent d d'"
proof -
  have e: "region_ready (hp d)" "\<not> libc_out d" "is_int (errors d + 1)" using idle_ready [OF d] by simp_all
  note r = restart [OF e(1,2)]
  have "\<not> mem_max_addr (hp (restarted d)) < mem_brk (hp (restarted d)) + demand os"
    using room r(5,6) d by (simp add: idle_def)
  then obtain d' where d': "eval_mm_valid os tn d = Inr (1, d')" "tracks d' (live_after {} os)"
      "took (demand os) (restarted d) d'" "silent (restarted d) d'"
    using eval_mm_valid_ok [OF e(1,2) ok e(3), of tn] unfolding ended_def by blast
  have s: "silent d d'" by (rule silent_trans [OF r(4) d'(4)])
  have "\<not> libc_out d'" using d'(2) by (simp add: tracks_def)
  then show thesis using that d'(1) idle_after [OF d d'(3) s] s by blast
qed

lemma util_run:
  assumes d: "idle d" and ok: "trace_ok (ids d) {} os" and room: "32 + demand os \<le> MAX_HEAP"
  obtains u d' where "eval_mm_util os tn d = Inr (u, d')" and "idle d'" and "silent d d'"
    and "u = real_of_int (peak_payload os) / real_of_int (mem_heapsize (hp d'))" and "0 \<le> u" and "u \<le> 1"
proof -
  have e: "region_ready (hp d)" "\<not> libc_out d" "int_region (hp d)" using idle_ready [OF d] by simp_all
  have "\<not> mem_max_addr (hp d) < mem_start_brk (hp d) + 32 + demand os" using room d by (simp add: idle_def)
  then obtain d' where d': "eval_mm_util os tn d =
        Inr (real_of_int (peak_payload os) / real_of_int (mem_heapsize (hp d')), d')"
      "tracks d' (live_after {} os)" "took (demand os) (restarted d) d'" "silent d d'"
      "0 \<le> peak_payload os" "peak_payload os \<le> mem_heapsize (hp d')" "0 < mem_heapsize (hp d')"
    using eval_mm_util_ok [OF e ok, of tn] by blast
  have "\<not> libc_out d'" using d'(2) by (simp add: tracks_def)
  then have "idle d'" by (rule idle_after [OF d d'(3,4)])
  then show thesis using that [OF d'(1) _ d'(4)] d'(5-7) by (simp add: divide_le_eq)
qed

lemma speed_run:
  assumes d: "idle d" and ok: "trace_ok (ids d) {} os" and room: "32 + demand os \<le> MAX_HEAP"
  obtains d' where "eval_mm_speed os d = Inr ((), d')" and "idle d'" and "silent d d'"
proof -
  have "\<not> mem_max_addr (hp d) < mem_start_brk (hp d) + 32 + demand os" using room d by (simp add: idle_def)
  then obtain d' where d': "eval_mm_speed os d = Inr ((), d')" "took (demand os) (restarted d) d'"
      "d' = d\<lparr>hp := hp d', blocks := blocks d'\<rparr>" "length (blocks d') = length (blocks d)"
    using eval_mm_speed_ok [OF idle_ready [OF d, THEN conjunct1] ok] by blast
  obtain h bs where hb: "d' = d\<lparr>hp := h, blocks := bs\<rparr>" "length bs = length (blocks d)" using d'(3,4) by blast
  then have s: "silent d d'" "\<not> libc_out d'" using d by (simp_all add: silent_def ids_def idle_def)
  then show thesis using that [OF d'(1)] idle_after [OF d d'(2) s] by blast
qed

section \<open>Timing by fsecs\<close>

text \<open>
  What the driver needs of the interval timers: the calls succeed, and no call of
  \<open>getitimer\<close> makes \<open>ITIMER_REAL\<close> go up; \<open>left\<close> are the microseconds that it shows.
\<close>

definition counts_down :: "'o set_call \<Rightarrow> 'o get_call \<Rightarrow> ('o \<Rightarrow> int) \<Rightarrow> bool" where
  "counts_down setitimer getitimer left \<longleftrightarrow>
     (\<forall>w v c. \<exists>c'. setitimer w v c = Inr ((), c')) \<and>
     (\<forall>w c. \<exists>v c'. getitimer w c = Inr (v, c') \<and> left c' \<le> left c \<and>
        (w = ITIMER_REAL \<longrightarrow> fst v * 10 ^ 6 + snd v = left c'))"

lemma repeatedly_on_fst:
  "repeatedly n (on_fst f) (d, c) =
     (case repeatedly n f d of Inl x \<Rightarrow> Inl x | Inr (u, d') \<Rightarrow> Inr (u, (d', c)))"
proof (induction n arbitrary: d)
  case (Suc n)
  have "on_fst f (d, c) = (case f d of Inl x \<Rightarrow> Inl x | Inr (v, d') \<Rightarrow> Inr (v, (d', c)))"
    by (simp add: on_fst_def)
  then show ?case using Suc.IH by (auto simp: seqp_apply split: sum.splits)
qed (simp add: ret_apply)

lemma get_etime_counts:
  assumes timer: "counts_down setitimer getitimer left" and s: "sys s = (d, c)"
  shows "\<exists>c1 c2. get_etime (\<lambda>w. on_snd (getitimer w)) s =
      Inr (real_of_int (fst (first_p s) * 10 ^ 6 + snd (first_p s) - left c1) / 10 ^ 6, s\<lparr>sys := (d, c2)\<rparr>) \<and>
    left c1 \<le> left c \<and> left c2 \<le> left c1"
proof -
  obtain v c0 where v: "getitimer ITIMER_VIRTUAL c = Inr (v, c0)" "left c0 \<le> left c"
    using timer unfolding counts_down_def by meson
  obtain r c1 where r: "getitimer ITIMER_REAL c0 = Inr (r, c1)" "left c1 \<le> left c0" "fst r * 10 ^ 6 + snd r = left c1"
    using timer unfolding counts_down_def by metis
  obtain p c2 where p: "getitimer ITIMER_PROF c1 = Inr (p, c2)" "left c2 \<le> left c1"
    using timer unfolding counts_down_def by meson
  have "real_of_int (left c1) = real_of_int (fst r) * 10 ^ 6 + real_of_int (snd r)" using r(3) by simp
  then have "get_etime (\<lambda>w. on_snd (getitimer w)) s =
      Inr (real_of_int (fst (first_p s) * 10 ^ 6 + snd (first_p s) - left c1) / 10 ^ 6, s\<lparr>sys := (d, c2)\<rparr>)"
    using v(1) r(1) p(1) s by (simp add: get_etime_def prog_eval on_snd_def field_simps)
  then show ?thesis using v(2) r(2) p(2) by (intro exI [of _ c1] exI [of _ c2]) simp
qed

text \<open>\<open>fsecs\<close> runs the replay ten times and reports a time that is not negative, or stops where the replay does.\<close>

lemma time_driver_runs:
  assumes timer: "counts_down setitimer getitimer left"
  shows "case repeatedly 10 f (fst (sys s)) of
      Inl x \<Rightarrow> time_driver setitimer getitimer f s = Inl x
    | Inr (_, d) \<Rightarrow> \<exists>x s'. time_driver setitimer getitimer f s = Inr (x, s') \<and> 0 \<le> x \<and> fst (sys s') = d"
proof -
  obtain d0 c0 where s: "sys s = (d0, c0)" by force
  obtain c1 where c1: "setitimer ITIMER_VIRTUAL (MAX_ETIME, 0) c0 = Inr ((), c1)"
    using timer unfolding counts_down_def by meson
  obtain c2 where c2: "setitimer ITIMER_REAL (MAX_ETIME, 0) c1 = Inr ((), c2)"
    using timer unfolding counts_down_def by meson
  obtain c3 where c3: "setitimer ITIMER_PROF (MAX_ETIME, 0) c2 = Inr ((), c3)"
    using timer unfolding counts_down_def by meson
  let ?s = "\<lparr>sys = (d0, c3), first_u = (MAX_ETIME, 0), first_r = (MAX_ETIME, 0), first_p = (MAX_ETIME, 0)\<rparr>"
  let ?G = "\<lambda>w. on_snd (getitimer w)"
  have init: "init_etime (\<lambda>w v. on_snd (setitimer w v)) s = Inr ((), ?s)"
    using c1 c2 c3 s by (simp add: init_etime_def prog_eval on_snd_def)
  obtain a c4 where a: "get_etime ?G ?s = Inr (real_of_int (MAX_ETIME * 10 ^ 6 - left a) / 10 ^ 6, ?s\<lparr>sys := (d0, c4)\<rparr>)"
      "left c4 \<le> left a"
    using get_etime_counts [OF timer, of ?s d0 c3] by auto
  show ?thesis
  proof (cases "repeatedly 10 f d0")
    case (Inl x)
    then show ?thesis
      using s init a(1) repeatedly_on_fst [of 10 f d0 c4]
      by (simp add: time_driver_def fsecs_def ftimer_itimer_def prog_eval Let_def)
  next
    case (Inr z)
    then obtain d where d: "repeatedly 10 f d0 = Inr ((), d)" by (cases z) auto
    obtain b c5 where b: "get_etime ?G (?s\<lparr>sys := (d, c4)\<rparr>) =
        Inr (real_of_int (MAX_ETIME * 10 ^ 6 - left b) / 10 ^ 6, ?s\<lparr>sys := (d, c5)\<rparr>)" "left b \<le> left c4"
      using get_etime_counts [OF timer, of "?s\<lparr>sys := (d, c4)\<rparr>" d c4] by auto
    let ?x = "(real_of_int (MAX_ETIME * 10 ^ 6 - left b) / 10 ^ 6 - real_of_int (MAX_ETIME * 10 ^ 6 - left a) / 10 ^ 6) / 10"
    have "time_driver setitimer getitimer f s = Inr (?x, ?s\<lparr>sys := (d, c5)\<rparr>)"
      using s init a(1) d b(1) repeatedly_on_fst [of 10 f d0 c4]
      by (simp add: time_driver_def fsecs_def ftimer_itimer_def prog_eval Let_def)
    moreover have "0 \<le> ?x" using a(2) b(2) by (simp add: divide_right_mono)
    ultimately have "\<exists>x s'. time_driver setitimer getitimer f s = Inr (x, s') \<and> 0 \<le> x \<and> fst (sys s') = d"
      by (intro exI [of _ ?x] exI [of _ "?s\<lparr>sys := (d, c5)\<rparr>"]) simp
    then show ?thesis using s d by simp
  qed
qed

lemma timed_run:
  assumes timer: "counts_down setitimer getitimer left" and d: "idle (fst (sys s))"
    and ok: "trace_ok (ids (fst (sys s))) {} os" and room: "32 + demand os \<le> MAX_HEAP"
  obtains x s' where "time_driver setitimer getitimer (eval_mm_speed os) s = Inr (x, s')" and "0 \<le> x"
    and "idle (fst (sys s'))" and "silent (fst (sys s)) (fst (sys s'))"
proof -
  have many: "\<exists>d'. repeatedly n (eval_mm_speed os) d = Inr ((), d') \<and> idle d' \<and> silent d d'"
    if "idle d" "trace_ok (ids d) {} os" for n d
    using that
  proof (induction n arbitrary: d)
    case 0
    then show ?case by (simp add: ret_apply silent_def)
  next
    case (Suc n)
    obtain d1 where d1: "eval_mm_speed os d = Inr ((), d1)" "idle d1" "silent d d1"
      using speed_run [OF Suc.prems room] .
    then have "trace_ok (ids d1) {} os" using Suc.prems(2) by (simp add: silent_def)
    then show ?case using Suc.IH [OF d1(2)] d1 silent_trans [OF d1(3)] by (auto simp: seqp_apply)
  qed
  obtain d' where "repeatedly 10 (eval_mm_speed os) (fst (sys s)) = Inr ((), d')" "idle d'" "silent (fst (sys s)) d'"
    using many [OF d ok] by blast
  then show thesis using that time_driver_runs [OF timer, of "eval_mm_speed os" s] by auto
qed

text \<open>A trace that the driver can read and that fits into the region.\<close>

definition good_trace :: "libc_env \<Rightarrow> string \<Rightarrow> trace \<Rightarrow> bool" where
  "good_trace e dir t \<longleftrightarrow> trace_wf t \<and>
     malloc_ok e 1064 \<and> malloc_ok e (num_ops t * 12) \<and> malloc_ok e (num_ids t * 8) \<and>
     length dir + length (trace_name t) < LINE_SIZE \<and> files e (dir @ trace_name t) = Some (show_trace t) \<and>
     length (junk_ops e (length (ops t))) = length (ops t) \<and> length (junk_words e (nat (num_ids t))) = nat (num_ids t) \<and>
     trace_ok {0..<num_ids t} {} (ops t) \<and> low_bytes (ops t) \<and> 32 + demand (ops t) \<le> MAX_HEAP"

definition scored :: "trace \<Rightarrow> stats \<Rightarrow> bool" where
  "scored t x \<longleftrightarrow> valid x = 1 \<and> st_name x = trace_name t \<and> st_ops x = real (length (ops t)) \<and>
     error_msg x = None \<and> 0 \<le> secs x \<and> 0 \<le> util x \<and> util x \<le> 1"

lemma run_mm_trace_ok:
  assumes t: "counts_down setitimer getitimer left" and g: "good_trace e dir t" and d: "idle (fst (sys s))"
  obtains x s' where "run_mm_trace e setitimer getitimer dir i (trace_name t) s = Inr (x, s')" and "scored t x"
    and "idle (fst (sys s'))" and "reports (fst (sys s')) = reports (fst (sys s))"
    and "mm_stats (fst (sys s')) = mm_stats (fst (sys s))"
proof -
  let ?js = "junk_ops e (length (ops t))" and ?ws = "junk_words e (nat (num_ids t))"
  let ?os = "map2 stored ?js (ops t)"
  note g = g [unfolded good_trace_def]
  have len: "length ?js = length (ops t)" "length ?ws = nat (num_ids t)" using g by blast+
  note same = same_after_storing [OF len(1)]
  have content: "read_trace e dir (trace_name t) =
      Inr (t\<lparr>ops := ?os, trace_blocks := ?ws, trace_block_sizes := ?ws\<rparr>)"
    using g by (intro read_trace_show) blast+
  let ?d = "(fst (sys s))\<lparr>blocks := ?ws, block_sizes := ?ws\<rparr>"
  have d0: "idle ?d" using d by (simp add: idle_def)
  have ids: "ids ?d = {0..<num_ids t}" using len(2) by (auto simp: ids_def)
  have ok: "trace_ok (ids ?d) {} ?os" "low_bytes ?os" "32 + demand ?os \<le> MAX_HEAP"
    using g by (simp_all add: same ids)
  obtain d1 where d1: "eval_mm_valid ?os i ?d = Inr (1, d1)" "idle d1" "silent ?d d1"
    using valid_run [OF d0 ok] .
  have ok1: "trace_ok (ids d1) {} ?os" using ok(1) d1(3) by (simp add: silent_def)
  obtain u d2 where d2: "eval_mm_util ?os i d1 = Inr (u, d2)" "idle d2" "silent d1 d2" "0 \<le> u" "u \<le> 1"
    using util_run [OF d1(2) ok1 ok(3)] by metis
  have ok2: "trace_ok (ids d2) {} ?os" using ok1 d2(3) by (simp add: silent_def)
  let ?s = "s\<lparr>sys := (d2, snd (sys s))\<rparr>"
  obtain y s' where d3: "time_driver setitimer getitimer (eval_mm_speed ?os) ?s = Inr (y, s')" "0 \<le> y"
      "idle (fst (sys s'))" "silent d2 (fst (sys s'))"
    using timed_run [OF t, of ?s ?os] d2(2) ok2 ok(3) by auto
  let ?x = "\<lparr>st_ops = real_of_int (num_ops t), valid = 1, secs = y, st_name = trace_name t,
    error_msg = None, util = u\<rparr>"
  have "run_mm_trace e setitimer getitimer dir i (trace_name t) s = Inr (?x, s')"
    using content d1(1) d2(1) d3(1) by (simp add: run_mm_trace_def prog_eval)
  moreover have "scored t ?x" using d2(4,5) d3(2) g by (simp add: scored_def trace_wf_def)
  moreover have "reports (fst (sys s')) = reports (fst (sys s))" "mm_stats (fst (sys s')) = mm_stats (fst (sys s))"
    using d1(3) d2(3) d3(4) by (simp_all add: silent_def)
  ultimately show thesis using that d3(3) by blast
qed

section \<open>All traces\<close>

lemma run_mm_traces_ok:
  assumes "counts_down setitimer getitimer left" and "list_all (good_trace e dir) ts" and "idle (fst (sys s))"
  obtains xs s' where "run_mm_traces e setitimer getitimer dir i (map trace_name ts) s = Inr (xs, s')"
    and "list_all2 scored ts xs" and "idle (fst (sys s'))" and "reports (fst (sys s')) = reports (fst (sys s))"
    and "mm_stats (fst (sys s')) = mm_stats (fst (sys s))"
proof -
  have "\<exists>xs s'. run_mm_traces e setitimer getitimer dir i (map trace_name ts) s = Inr (xs, s') \<and> list_all2 scored ts xs \<and>
      idle (fst (sys s')) \<and> reports (fst (sys s')) = reports (fst (sys s)) \<and>
      mm_stats (fst (sys s')) = mm_stats (fst (sys s))"
    using assms(2,3)
  proof (induction ts arbitrary: i s)
    case Nil
    then show ?case by (simp add: ret_apply)
  next
    case (Cons t ts)
    obtain x s1 where s1: "run_mm_trace e setitimer getitimer dir i (trace_name t) s = Inr (x, s1)" "scored t x"
        "idle (fst (sys s1))" "reports (fst (sys s1)) = reports (fst (sys s))"
        "mm_stats (fst (sys s1)) = mm_stats (fst (sys s))"
      using run_mm_trace_ok [OF assms(1) _ Cons.prems(2), of e dir t i] Cons.prems(1) by auto
    with s1 show ?case using Cons.IH [OF _ s1(3), of "i + 1"] Cons.prems(1) by (auto simp: prog_eval)
  qed
  then show thesis using that by blast
qed

lemma with_messages_none: "list_all2 scored ts xs \<Longrightarrow> with_messages (\<lambda>_. None) i xs = xs"
  by (induction ts xs arbitrary: i rule: list_all2_induct) (simp_all add: scored_def)

lemma run_mm_ok:
  assumes t: "counts_down setitimer getitimer left" and c: "tracefiles c = Some (map trace_name ts)"
    and g: "list_all (good_trace e (tracedir c)) ts" and mem: "malloc_ok e (num_tracefiles c * 2080)"
    and p: "0 < p" "p mod 8 = 0" "p + MAX_HEAP < 2 ^ 62" and d: "\<not> libc_out (fst (sys s))" "errors (fst (sys s)) = 0"
  obtains xs s' where "run_mm e setitimer getitimer (Some p) c s = Inr (xs, s')" and "list_all2 scored ts xs"
    and "errors (fst (sys s')) = 0" and "reports (fst (sys s')) = reports (fst (sys s))"
proof -
  let ?h = "(hp (fst (sys s)))\<lparr>mem_start_brk := p, mem_max_addr := p + MAX_HEAP, mem_brk := p\<rparr>"
  let ?s = "s\<lparr>sys := ((fst (sys s))\<lparr>mm_stats := Some (\<lambda>_. None), hp := ?h\<rparr>, snd (sys s))\<rparr>"
  have "idle (fst (sys ?s))" using p d by (simp add: idle_def)
  from run_mm_traces_ok [OF t g this, of 0]
  obtain xs s' where x: "run_mm_traces e setitimer getitimer (tracedir c) 0 (map trace_name ts) ?s = Inr (xs, s')"
      "list_all2 scored ts xs" "idle (fst (sys s'))" "reports (fst (sys s')) = reports (fst (sys s))"
      "mm_stats (fst (sys s')) = Some (\<lambda>_. None)"
    by auto
  have "run_mm e setitimer getitimer (Some p) c s = Inr (xs, s')"
    using mem c x(1,5) with_messages_none [OF x(2), of 0] by (simp add: run_mm_def mem_init_def prog_eval)
  then show thesis using that x(2-4) by (simp add: idle_def)
qed

lemma scored_sums:
  assumes "list_all2 scored ts xs"
  shows "0 \<le> sum_list (map secs xs)" and "0 \<le> sum_list (map util xs)"
    and "sum_list (map util xs) \<le> real (length ts)"
    and "sum_list (map st_ops xs) = real (length (concat (map ops ts)))"
    and "length (filter (\<lambda>x. valid x \<noteq> 0) xs) = length ts"
  using assms by (induction ts xs rule: list_all2_induct) (simp_all add: scored_def)

lemma run_main_ok:
  assumes "counts_down setitimer getitimer left" and c: "tracefiles c = Some (map trace_name ts)" "num_tracefiles c = int (length ts)"
    and "list_all (good_trace e (tracedir c)) ts" and "malloc_ok e (num_tracefiles c * 2080)"
    and "0 < p" "p mod 8 = 0" "p + MAX_HEAP < 2 ^ 62" and "\<not> libc_out (fst (sys s))" "errors (fst (sys s)) = 0"
    and ops: "concat (map ops ts) \<noteq> []"
  shows "\<exists>rep s'. run_main e setitimer getitimer (Some p) open_ok write_ok c s = Inr (rep, s') \<and>
    reports (fst (sys s')) = reports (fst (sys s)) \<and>
    numcorrect rep = int (length ts) \<and>
    (\<not> gradescope c \<longrightarrow> (\<exists>x. perfindex rep = Some x \<and> 0 \<le> x \<and> x \<le> 100))"
proof -
  obtain xs s' where x: "run_mm e setitimer getitimer (Some p) c s = Inr (xs, s')" "list_all2 scored ts xs"
      "errors (fst (sys s')) = 0" "reports (fst (sys s')) = reports (fst (sys s))"
    using run_mm_ok [OF assms(1) c(1) assms(4-10)] .
  note sums = scored_sums [OF x(2)]
  have "0 < int (length ts)" using ops by (cases ts) simp_all
  then have "\<exists>q. compute_performance_index (int (length ts)) (sum_list (map secs xs))
      (sum_list (map st_ops xs)) (sum_list (map util xs)) = Some q \<and> 0 \<le> q \<and> q \<le> 100"
    using sums ops by (intro performance_bounds) simp_all
  then show ?thesis
    using x c(2) sums(5) by (simp add: run_main_def prog_eval summary_def)
qed

end
