(* ===== verification/Repl.thy ===== *)
theory Repl
  imports Traces Scan
begin

text \<open>
  The malloc REPL of \<^verbatim>\<open>mdriver.c\<close>: its state, its commands, the table that maps a
  word to a command, and the loop over the lines of the input.  What is printed
  is kept as values of \<open>printed\<close>, newest first, with the numbers that the formats
  print.  The unused fields \<open>prologue_size\<close>, \<open>epilogue_size\<close> and \<open>heap_start\<close> of the
  state are left out.
\<close>

section \<open>State\<close>

record repl_block =
  is_valid :: bool
  bptr :: int
  bsize :: int
  bindex :: int

datatype printed =
    Heap_Size int
  | Prologue_At int int
  | Allocated_Block "int option" int int
  | Free_Block int int int int
  | Tags_Differ "int option" int int int
  | Too_Small "int option" int int
  | Next_Outside
  | Epilogue_At int int
  | Bad_Index int
  | Usage string
  | In_Use
  | Not_In_Use
  | Not_Allocated int
  | Block_Status int int int
  | Help
  | Welcome
  | Prompt
  | Newline
  | Syntax_Error
  | No_Command

text \<open>
  \<open>drv\<close> holds the allocator, the range list of the REPL and the error count; the
  arrays of a trace that it also has are not used here.
\<close>

record repl =
  drv :: "heap driver"
  rblocks :: "repl_block list"
  tracenum :: int
  num_ops :: int
  num_blocks :: int
  out :: "printed list"

definition MAX_REPL_SIZE :: int where
  "MAX_REPL_SIZE = 1024"

definition MAXLINE :: nat where
  "MAXLINE = 1024"

definition on_drv :: "(heap driver, 'a) prog \<Rightarrow> (repl, 'a) prog" where
  "on_drv m = (\<lambda>r. case m (drv r) of Inl e \<Rightarrow> Inl e | Inr (x, d) \<Rightarrow> Inr (x, r\<lparr>drv := d\<rparr>))"

lemma on_drv_apply [prog_eval]:
  "on_drv m r = (case m (drv r) of Inl e \<Rightarrow> Inl e | Inr (x, d) \<Rightarrow> Inr (x, r\<lparr>drv := d\<rparr>))"
  by (simp add: on_drv_def)

abbreviation on_hp :: "(heap, 'a) prog \<Rightarrow> (repl, 'a) prog" where
  "on_hp m \<equiv> on_drv (on_heap m)"

definition say :: "printed \<Rightarrow> (repl, unit) prog" where
  "say e = modify (\<lambda>r. r\<lparr>out := e # out r\<rparr>)"

lemma say_apply [prog_eval]: "say e r = Inr ((), r\<lparr>out := e # out r\<rparr>)"
  by (simp add: say_def prog_eval)

definition get_rblock :: "int \<Rightarrow> (repl, repl_block) prog" where
  "get_rblock i = (\<lambda>r. if 0 \<le> i \<and> i < int (length (rblocks r))
     then Inr (rblocks r ! nat i, r) else Inl Bad_Address)"

definition upd_rblock :: "int \<Rightarrow> (repl_block \<Rightarrow> repl_block) \<Rightarrow> (repl, unit) prog" where
  "upd_rblock i f = (\<lambda>r. if 0 \<le> i \<and> i < int (length (rblocks r))
     then Inr ((), r\<lparr>rblocks := (rblocks r)[nat i := f (rblocks r ! nat i)]\<rparr>) else Inl Bad_Address)"

text \<open>\<open>make_repl_state\<close>, in a process whose other globals are those of \<open>d\<close>.\<close>

definition blank_block :: "nat \<Rightarrow> repl_block" where
  "blank_block i = \<lparr>is_valid = False, bptr = NULL, bsize = 0, bindex = int i\<rparr>"

definition make_repl_state :: "int \<Rightarrow> heap driver \<Rightarrow> fault + repl" where
  "make_repl_state n d =
     (if libc_out d then Inl (Exit 1)
      else Inr \<lparr>drv = d\<lparr>ranges := []\<rparr>, rblocks = map blank_block [0..<nat n],
                tracenum = 0, num_ops = 0, num_blocks = n, out = []\<rparr>)"

section \<open>Printing\<close>

fun find_repl_block :: "int \<Rightarrow> repl_block list \<Rightarrow> repl_block option \<Rightarrow> repl_block option" where
  "find_repl_block p [] tentative = tentative"
| "find_repl_block p (b # bs) tentative =
     (if bptr b - 8 = p then (if is_valid b then Some b else find_repl_block p bs (Some b))
      else find_repl_block p bs tentative)"

definition find_repl_block_from_block :: "int \<Rightarrow> repl_block list \<Rightarrow> int \<Rightarrow> repl_block option" where
  "find_repl_block_from_block p bs repl_size = find_repl_block p (take (nat repl_size) bs) None"

definition index_of :: "int \<Rightarrow> repl_block list \<Rightarrow> int \<Rightarrow> int option" where
  "index_of p bs repl_size =
     (case find_repl_block_from_block p bs repl_size of
        None \<Rightarrow> None
      | Some b \<Rightarrow> if bindex b \<noteq> - 1 then Some (bindex b) else None)"

text \<open>
  The loop over the blocks, with fuel.  \<open>epilogue + MINBLOCKSIZE\<close> is pointer
  arithmetic on blocks, whose declared size is that of the header.
\<close>

fun print_blocks :: "nat \<Rightarrow> int \<Rightarrow> int \<Rightarrow> int \<Rightarrow> (repl, unit) prog" where
  "print_blocks 0 repl_size epi b = raise Out_Of_Fuel"
| "print_blocks (Suc n) repl_size epi b =
     (if b = epi then ret ()
      else
        bnd (gets rblocks) (\<lambda>bs.
        let idx = index_of b bs repl_size in
        bnd (on_hp (block_allocated b)) (\<lambda>al.
        bnd (on_hp (block_size b)) (\<lambda>sz.
        seqp (if al \<noteq> 0 then say (Allocated_Block idx b (int_of_long sz))
              else bnd (on_hp (block_flink b)) (\<lambda>fl. bnd (on_hp (block_blink b)) (\<lambda>bk.
                     say (Free_Block b (int_of_long sz) fl bk))))
       (bnd (on_hp (block_end_size b)) (\<lambda>sz2.
        seqp (if sz \<noteq> sz2 then say (Tags_Differ idx b (int_of_long sz) (int_of_long sz2)) else ret ())
       (seqp (if sz < MINBLOCKSIZE then say (Too_Small idx b (int_of_long sz)) else ret ())
       (bnd (on_hp (block_next b)) (\<lambda>nxt.
        seqp (if nxt > epi + 8 * MINBLOCKSIZE then say Next_Outside else ret ())
             (print_blocks n repl_size epi nxt))))))))))"

definition mm_print_heap_repl :: "int \<Rightarrow> (repl, unit) prog" where
  "mm_print_heap_repl repl_size =
     bnd (gets (hp \<circ> drv)) (\<lambda>s.
     let heap_start = mem_heap_lo s in
     seqp (say (Heap_Size (int_of_long (mem_heapsize s))))
    (bnd (on_hp (block_size heap_start)) (\<lambda>psz.
     seqp (say (Prologue_At heap_start (int_of_long psz)))
    (bnd (on_hp (block_next heap_start)) (\<lambda>b.
     let epi = mem_heap_hi s - TAGS_SIZE + 1 in
     seqp (print_blocks (heap_words s) repl_size epi b)
    (bnd (on_hp (block_size epi)) (\<lambda>esz.
     say (Epilogue_At epi (int_of_long esz)))))))))"

section \<open>Commands\<close>

text \<open>The arguments of a command, in its short form or in its long form.\<close>

definition sscanf_either :: "string list \<Rightarrow> string list \<Rightarrow> nat \<Rightarrow> string \<Rightarrow> ('s, int list) prog" where
  "sscanf_either short long k msg =
     bnd (sscanf short k msg) (\<lambda>vs. if length vs = k then ret vs else sscanf long k msg)"

definition help_cmd :: "string \<Rightarrow> (repl, unit) prog" where
  "help_cmd msg = say Help"

definition print_cmd :: "string \<Rightarrow> (repl, unit) prog" where
  "print_cmd msg =
     bnd (sscanf_either [''p'', ''-b''] [''print'', ''-b''] 1 msg) (\<lambda>vs.
       case vs of
         [index] \<Rightarrow>
           bnd (gets num_blocks) (\<lambda>n.
             if index < 0 \<or> index \<ge> n then say (Bad_Index n)
             else
               bnd (get_rblock index) (\<lambda>blk.
                 if \<not> is_valid blk then say (Not_Allocated index)
                 else
                   let b = bptr blk - 8 in
                   bnd (on_hp (block_allocated b)) (\<lambda>al.
                     if al \<noteq> 0 then
                       bnd (on_hp (block_size b)) (\<lambda>sz. say (Block_Status index b (int_of_long sz)))
                     else ret ())))
       | _ \<Rightarrow> mm_print_heap_repl MAX_REPL_SIZE)"

definition reset_cmd :: "string \<Rightarrow> (repl, unit) prog" where
  "reset_cmd msg =
     seqp (on_hp mem_reset_brk)
    (seqp (on_drv clear_ranges)
    (bnd (on_hp mm_init) (\<lambda>res.
       if res < 0 then
         bnd (gets tracenum) (\<lambda>t. seqp (on_drv (malloc_error t 0 (Text ''mm_init failed.''))) (raise (Exit 1)))
       else
         bnd (gets tracenum) (\<lambda>t. bnd (int_add t 1) (\<lambda>t'.
         seqp (modify (\<lambda>r. r\<lparr>tracenum := t'\<rparr>))
              (modify (\<lambda>r. r\<lparr>num_ops := 0\<rparr>)))))))"

definition quit_cmd :: "string \<Rightarrow> (repl, unit) prog" where
  "quit_cmd msg =
     seqp (on_hp mem_reset_brk) (seqp (on_drv clear_ranges) (raise (Exit 0)))"

definition next_op :: "(repl, unit) prog" where
  "next_op = bnd (gets num_ops) (\<lambda>n. bnd (int_add n 1) (\<lambda>n'. modify (\<lambda>r. r\<lparr>num_ops := n'\<rparr>)))"

text \<open>A report of the REPL, for its current trace and operation number.\<close>

definition repl_error :: "string \<Rightarrow> (repl, unit) prog" where
  "repl_error msg =
     bnd (gets tracenum) (\<lambda>t. bnd (gets num_ops) (\<lambda>n. on_drv (malloc_error t n (Text msg))))"

definition malloc_cmd :: "string \<Rightarrow> (repl, unit) prog" where
  "malloc_cmd msg =
     bnd (sscanf_either [''m''] [''malloc''] 2 msg) (\<lambda>vs.
       case vs of
         [index, sz] \<Rightarrow>
           bnd (gets num_blocks) (\<lambda>n.
             if index < 0 \<or> index \<ge> n then say (Bad_Index n)
             else
               bnd (get_rblock index) (\<lambda>blk.
                 if is_valid blk then say In_Use
                 else
                   seqp next_op
                  (bnd (on_hp (mm_malloc sz)) (\<lambda>p.
                     if p = NULL \<and> sz \<noteq> 0 then repl_error ''mm_malloc failed.''
                     else if sz = 0 then ret ()
                     else
                       bnd (gets tracenum) (\<lambda>t. bnd (gets num_ops) (\<lambda>k.
                       bnd (on_drv (add_range p sz t k)) (\<lambda>ok.
                         if ok = 0 then ret ()
                         else
                           seqp (on_hp (memset p (index AND 0xFF) sz))
                                (upd_rblock index (\<lambda>b. b\<lparr>is_valid := True, bptr := p, bsize := sz\<rparr>)))))))))
       | _ \<Rightarrow> say (Usage ''malloc''))"

definition free_cmd :: "string \<Rightarrow> (repl, unit) prog" where
  "free_cmd msg =
     bnd (sscanf_either [''f''] [''free''] 1 msg) (\<lambda>vs.
       case vs of
         [index] \<Rightarrow>
           bnd (gets num_blocks) (\<lambda>n.
             if index < 0 \<or> index \<ge> n then say (Bad_Index n)
             else
               bnd (get_rblock index) (\<lambda>blk.
                 if \<not> is_valid blk then say Not_In_Use
                 else
                   seqp next_op
                  (seqp (on_drv (remove_range (bptr blk)))
                  (seqp (on_hp (mm_free (bptr blk)))
                        (upd_rblock index (\<lambda>b. b\<lparr>is_valid := False\<rparr>))))))
       | _ \<Rightarrow> say (Usage ''f''))"

definition remalloc_cmd :: "string \<Rightarrow> (repl, unit) prog" where
  "remalloc_cmd msg =
     bnd (sscanf_either [''r''] [''realloc''] 2 msg) (\<lambda>vs.
       case vs of
         [index, sz] \<Rightarrow>
           bnd (gets num_blocks) (\<lambda>n.
             if index < 0 \<or> index \<ge> n then say (Bad_Index n)
             else
               bnd (get_rblock index) (\<lambda>blk.
               bnd (on_hp (mm_realloc (bptr blk) sz)) (\<lambda>newp.
                 if newp = NULL \<and> sz \<noteq> 0 then repl_error ''mm_realloc failed.''
                 else if sz = 0 then ret ()
                 else
                   seqp (on_drv (remove_range (bptr blk)))
                  (bnd (gets tracenum) (\<lambda>t. bnd (gets num_ops) (\<lambda>k.
                   bnd (on_drv (add_range newp sz t k)) (\<lambda>ok.
                     if ok = 0 then ret ()
                     else
                       let oldsize0 = int_of_long (bsize blk);
                           oldsize = (if sz < oldsize0 then sz else oldsize0) in
                       bnd (on_hp (same_bytes newp (index AND 0xFF) (nat oldsize))) (\<lambda>same.
                         if \<not> same then
                           repl_error ''mm_realloc did not preserve the data from old block''
                         else
                           seqp (on_hp (memset newp (index AND 0xFF) sz))
                                (upd_rblock index (\<lambda>b. b\<lparr>bptr := newp, bsize := sz\<rparr>))))))))))
       | _ \<Rightarrow> say (Usage ''r''))"

section \<open>The command table and the loop\<close>

definition cmd_table :: "(string \<times> (string \<Rightarrow> (repl, unit) prog)) list" where
  "cmd_table =
     [(''help'', help_cmd), (''h'', help_cmd), (''m'', malloc_cmd),
      (''malloc'', malloc_cmd), (''r'', remalloc_cmd), (''realloc'', remalloc_cmd),
      (''f'', free_cmd), (''free'', free_cmd), (''p'', print_cmd),
      (''print'', print_cmd), (''quit'', quit_cmd), (''q'', quit_cmd),
      (''reset'', reset_cmd), (''r'', reset_cmd)]"

text \<open>One round of the loop, after the line has been read; a C string ends at the first NUL.\<close>

definition run_line :: "string \<Rightarrow> (repl, unit) prog" where
  "run_line input =
     (let line = takeWhile (\<lambda>c. c \<noteq> CHR 0x00) input in
      case fst (scan_word line) of
        None \<Rightarrow> say Syntax_Error
      | Some cmd \<Rightarrow>
          (case map_of cmd_table cmd of
             None \<Rightarrow> say No_Command
           | Some handler \<Rightarrow> handler line))"

function repl_loop :: "string \<Rightarrow> (repl, unit) prog" where
  "repl_loop input =
     seqp (say Prompt)
       (if input = [] then say Newline
        else case fgets (MAXLINE - 1) input of
               (line, rest) \<Rightarrow> seqp (run_line line) (repl_loop rest))"
  by pat_completeness auto
termination
  by (relation "measure length") (auto simp: MAXLINE_def intro: fgets_shorter [of 1023, OF _ _ sym])

declare repl_loop.simps [simp del]

text \<open>
  \<open>run_driver vm input d\<close>: the whole REPL, where \<open>vm\<close> is what \<open>malloc\<close> returned for the
  heap's region.  The final \<open>clear_ranges\<close> and \<open>free\<close> leave no state behind.
\<close>

definition run_driver :: "int option \<Rightarrow> string \<Rightarrow> heap driver \<Rightarrow> fault + (unit \<times> repl)" where
  "run_driver vm input d =
     (case make_repl_state MAX_REPL_SIZE d of
        Inl e \<Rightarrow> Inl e
      | Inr r \<Rightarrow>
          seqp (on_hp (mem_init vm))
         (seqp (reset_cmd [])
         (seqp (say Welcome)
         (seqp (repl_loop input)
               (on_drv clear_ranges)))) r)"

end
