(* ===== verification/Repl_Print.thy ===== *)
theory Repl_Print
  imports Repl Heap_View
begin

text \<open>
  \<open>mm_print_heap_repl\<close> on a well-formed heap: it ends, changes nothing, and prints
  the prologue, every block of the layout in address order with its state and
  size, and the epilogue, without any of its three complaints.
\<close>

lemma on_hp_read: "m (hp (drv r)) = Inr (x, hp (drv r)) \<Longrightarrow> on_hp m r = Inr (x, r)"
  by (simp add: prog_eval)

text \<open>What is printed for a block at \<open>x\<close>; the links of a free block are on the free list.\<close>

definition line_ok :: "(int \<Rightarrow> int option) \<Rightarrow> int set \<Rightarrow> int \<times> chunk \<Rightarrow> printed \<Rightarrow> bool" where
  "line_ok idx links = (\<lambda>(x, sz, al) e.
     if al then e = Allocated_Block (idx x) x (int_of_long sz)
     else \<exists>f b. e = Free_Block x (int_of_long sz) f b \<and> f \<in> links \<and> b \<in> links)"

lemma free_neighbours_read:
  assumes rep: "rep s A" and x: "x \<in> frees (base s) (chunks A)"
  obtains f b where "block_flink x s = Inr (f, s)" and "block_blink x s = Inr (b, s)"
    and "f \<in> set (order A)" and "b \<in> set (order A)"
proof -
  let ?fl = "order A"
  have fl: "free_links s ?fl" and lay: "lay s (chunks A)" and ab: "abase A = base s"
    and set_fl: "set ?fl = frees (base s) (chunks A)"
    using rep by (simp_all add: rep_def)
  note nodes = lay_free_nodes [OF lay equalityD1 [OF set_fl]]
  obtain i where i: "i < length ?fl" "?fl ! i = x" using x set_fl by (metis in_set_conv_nth)
  then have n: "0 < length ?fl" by linarith
  define j where "j = (if i = 0 then length ?fl - 1 else i - 1)"
  have j: "j < length ?fl" "Suc j mod length ?fl = i" using i(1) n by (auto simp: j_def)
  have "?fl ! (Suc i mod length ?fl) \<in> set ?fl" "?fl ! j \<in> set ?fl" using n j(1) by simp_all
  then show thesis
    using that ring_neighbours [OF fl nodes i(1)] ring_neighbours [OF fl nodes j(1)] i(2) j(2) by simp
qed

lemma print_blocks_ok:
  assumes "rep (hp (drv r)) A" and "chunks A = us @ vs" and "b = base (hp (drv r)) + extent us"
    and "epi = base (hp (drv r)) + extent (chunks A)" and "length vs < n"
  shows "\<exists>evs. print_blocks n k epi b r = Inr ((), r\<lparr>out := rev evs @ out r\<rparr>) \<and>
    list_all2 (line_ok (\<lambda>x. index_of x (rblocks r) k) (set (order A))) (place b vs) evs"
  using assms
proof (induction vs arbitrary: us b n r)
  case Nil
  then obtain m where "n = Suc m" by (cases n) auto
  then show ?case using Nil by (auto simp: ret_apply)
next
  case (Cons v vs)
  obtain sz al where v: "v = (sz, al)" by force
  obtain m where n: "n = Suc m" using Cons.prems(5) by (cases n) auto
  let ?s = "hp (drv r)"
  have lay: "lay ?s (us @ (sz, al) # vs)" using Cons.prems(1,2) v by (simp add: rep_def)
  obtain psz pal nsz nal where nb: "prev_of us = (psz, pal)" "next_of vs = (nsz, nal)" by force
  note at = lay_at(1-3) [OF lay Cons.prems(3) nb] and blk = lay_block [OF lay, folded Cons.prems(3)]
  note rd = on_hp_read [of "block_size b", OF at(1)] on_hp_read [of "block_allocated b", OF at(2)]
    on_hp_read [of "block_next b", OF at(3)]
    on_hp_read [of "block_end_size b", OF block_end_size_ok(1) [OF blk(1,2,3)]]
  have vs: "0 \<le> extent vs" using sizes_ok_extent [of vs] lay_sizes [OF lay] by simp
  have e: "epi = b + sz + extent vs" using Cons.prems(2-4) v by simp
  have cond: "b \<noteq> epi" "\<not> sz < MINBLOCKSIZE" "\<not> b + sz > epi + 8 * MINBLOCKSIZE"
    using e vs blk(4) by (simp_all add: mm_consts)
  obtain ev where ev: "line_ok (\<lambda>x. index_of x (rblocks r) k) (set (order A)) (b, sz, al) ev"
    and say: "(if al then say (Allocated_Block (index_of b (rblocks r) k) b (int_of_long sz))
      else bnd (on_hp (block_flink b)) (\<lambda>fl. bnd (on_hp (block_blink b)) (\<lambda>bk.
        say (Free_Block b (int_of_long sz) fl bk)))) r = Inr ((), r\<lparr>out := ev # out r\<rparr>)"
  proof (cases al)
    case True
    then show thesis using that [of "Allocated_Block (index_of b (rblocks r) k) b (int_of_long sz)"]
      by (simp add: line_ok_def say_apply)
  next
    case False
    then have "b \<in> frees (base ?s) (chunks A)"
      using Cons.prems(2,3) v by (auto simp: frees_def place_split)
    from free_neighbours_read [OF Cons.prems(1) this]
    obtain f g where "block_flink b ?s = Inr (f, ?s)" "block_blink b ?s = Inr (g, ?s)"
      "f \<in> set (order A)" "g \<in> set (order A)" .
    then show thesis using False that [of "Free_Block b (int_of_long sz) f g"]
      on_hp_read [of "block_flink b" r f] on_hp_read [of "block_blink b" r g]
      by (simp add: line_ok_def bnd_apply say_apply)
  qed
  let ?r = "r\<lparr>out := ev # out r\<rparr>"
  have rd2: "on_hp (block_end_size b) ?r = Inr (sz, ?r)" "on_hp (block_next b) ?r = Inr (b + sz, ?r)"
    using block_end_size_ok(1) [OF blk(1,2,3)] at(3) by (simp_all add: on_hp_read)
  have step: "print_blocks n k epi b r = print_blocks m k epi (b + sz) ?r"
    using cond rd(1,2) rd2 say
    by (cases al) (simp_all add: n bnd_apply seqp_apply gets_apply ret_apply Let_def)
  have "\<exists>evs. print_blocks m k epi (b + sz) ?r = Inr ((), ?r\<lparr>out := rev evs @ out ?r\<rparr>) \<and>
      list_all2 (line_ok (\<lambda>x. index_of x (rblocks ?r) k) (set (order A))) (place (b + sz) vs) evs"
    by (rule Cons.IH [of _ "us @ [(sz, al)]"]) (use Cons.prems v n in simp_all)
  then obtain evs where "print_blocks m k epi (b + sz) ?r = Inr ((), r\<lparr>out := rev (ev # evs) @ out r\<rparr>)"
      "list_all2 (line_ok (\<lambda>x. index_of x (rblocks r) k) (set (order A))) (place b (v # vs)) (ev # evs)"
    using ev v by auto
  then show ?case unfolding step by blast
qed

lemma mm_print_heap_repl_ok:
  assumes inv: "heap_inv (hp (drv r))"
  defines "s \<equiv> hp (drv r)"
  shows "\<exists>evs. mm_print_heap_repl k r = Inr ((), r\<lparr>out :=
      Epilogue_At (epilogue s) 16 # rev evs @ Prologue_At (prologue s) 16 #
      Heap_Size (int_of_long (mem_heapsize s)) # out r\<rparr>) \<and>
    list_all2 (line_ok (\<lambda>x. index_of x (rblocks r) k) (set (order (abs_heap s))))
      (place (base s) (chunks (abs_heap s))) evs"
proof -
  let ?A = "abs_heap s"
  note rep = heap_invD [OF inv, folded s_def]
  have lay: "lay s ([] @ chunks ?A)" "lay s (chunks ?A @ [])" using rep by (simp_all add: rep_def)
  note b = lay_base [OF lay(2)] and pv = lay_prev [OF lay(1) prev_of_simps(1)]
    and nx = lay_next [OF lay(2) next_of_simps(1)]
  have heads: "block_size (prologue s) s = Inr (16, s)" "block_next (prologue s) s = Inr (base s, s)"
      "block_size (epilogue s) s = Inr (16, s)"
    using pv nx b tag_parity [of 16 True] by (simp_all add: block_eval)
  have "int (length (chunks ?A)) < (mem_brk s - mem_start_brk s) div 8"
    using extent_length [OF lay_sizes [OF lay(2)]] b(4,6) by simp
  then have fuel: "length (chunks ?A) < heap_words s" by (simp add: heap_words_def mm_consts)
  let ?r = "r\<lparr>out := Prologue_At (prologue s) 16 # Heap_Size (int_of_long (mem_heapsize s)) # out r\<rparr>"
  obtain evs where evs: "print_blocks (heap_words s) k (epilogue s) (base s) ?r =
        Inr ((), ?r\<lparr>out := rev evs @ out ?r\<rparr>)"
      "list_all2 (line_ok (\<lambda>x. index_of x (rblocks r) k) (set (order ?A))) (place (base s) (chunks ?A)) evs"
    using print_blocks_ok [of ?r ?A "[]" "chunks ?A" "base s" "epilogue s" "heap_words s" k] rep fuel b(5)
    by (auto simp: s_def)
  have lo: "mem_heap_lo s = prologue s" "mem_heap_hi s - TAGS_SIZE + 1 = epilogue s"
    using b by (simp_all add: mem_heap_lo_def mem_heap_hi_def mm_consts)
  have sixteen: "int_of_long 16 = 16" by (simp add: int_of_long_id is_int_def)
  have "mm_print_heap_repl k r = Inr ((), r\<lparr>out :=
      Epilogue_At (epilogue s) 16 # rev evs @ Prologue_At (prologue s) 16 #
      Heap_Size (int_of_long (mem_heapsize s)) # out r\<rparr>)"
    using heads evs(1) on_hp_read [of "block_size (prologue s)"] on_hp_read [of "block_next (prologue s)"]
      on_hp_read [of "block_size (epilogue s)"]
    by (simp add: mm_print_heap_repl_def bnd_apply seqp_apply gets_apply say_apply Let_def lo sixteen
        s_def [symmetric])
  then show ?thesis using evs(2) by blast
qed

end
