(* ===== verification/Repl_Ok.thy ===== *)
theory Repl_Ok
  imports Repl_Print Eval_Valid Sessions
begin

text \<open>
  The invariant of the REPL: its valid blocks are exactly the live payloads of the
  heap, its range list holds their extents, and they are filled with the low
  bytes of their indices.  Every line keeps it that is \<open>sensible\<close>: it does not reset
  the heap while blocks are in use; it allocates a free index only with size 0 or
  a size from 1 to \<open>2 ^ 31 - 65\<close>; it reallocates only blocks that are in use, to a
  size in that range, with an index whose low byte is below 128; its numbers fit
  an \<open>int\<close>.  The commands check none of these conditions: a negative size for
  \<open>malloc\<close> ends in the assertion of \<open>add_range\<close>, for instance.  A line that
  \<open>quits\<close> ends the program.
\<close>

section \<open>The invariant\<close>

text \<open>The REPL's blocks as the arrays of a trace.\<close>

definition view :: "repl \<Rightarrow> heap driver" where
  "view r = (drv r)\<lparr>blocks := map bptr (rblocks r), block_sizes := map bsize (rblocks r)\<rparr>"

definition valid_ids :: "repl \<Rightarrow> int set" where
  "valid_ids r = {i. 0 \<le> i \<and> i < int (length (rblocks r)) \<and> is_valid (rblocks r ! nat i)}"

definition repl_ok :: "repl \<Rightarrow> bool" where
  "repl_ok r \<longleftrightarrow> tracks (view r) (valid_ids r) \<and> region_ready (hp (drv r)) \<and>
     num_blocks r = int (length (rblocks r))"

text \<open>The counters can still be incremented.\<close>

definition counters_ok :: "repl \<Rightarrow> bool" where
  "counters_ok r \<longleftrightarrow> is_int (errors (drv r) + 1) \<and> is_int (num_ops r + 1) \<and> is_int (tracenum r + 1)"

lemma view_fields [simp]:
  "hp (view r) = hp (drv r)" "ranges (view r) = ranges (drv r)" "libc_out (view r) = libc_out (drv r)"
  "errors (view r) = errors (drv r)" "blocks (view r) = map bptr (rblocks r)"
  "block_sizes (view r) = map bsize (rblocks r)"
  by (simp_all add: view_def)

lemma ids_view: "ids (view r) = {0..<int (length (rblocks r))}"
  by (auto simp: ids_def)

lemma view_at: "0 \<le> i \<Longrightarrow> i < int (length (rblocks r)) \<Longrightarrow>
    bl (view r) i = bptr (rblocks r ! nat i) \<and> bsz (view r) i = bsize (rblocks r ! nat i)"
  by simp

text \<open>The invariant depends on the state only through the heap, the ranges and the blocks.\<close>

lemma tracks_same:
  assumes "tracks d L" and "hp d' = hp d" and "ranges d' = ranges d" and "blocks d' = blocks d"
    and "block_sizes d' = block_sizes d" and "libc_out d' = libc_out d"
  shows "tracks d' L"
  using assms by (simp add: tracks_def points_def sized_def ranged_def filled_def ids_def)

lemma repl_ok_same:
  assumes "repl_ok r" and "hp (drv r') = hp (drv r)" and "ranges (drv r') = ranges (drv r)"
    and "libc_out (drv r') = libc_out (drv r)" and "rblocks r' = rblocks r" and "num_blocks r' = num_blocks r"
  shows "repl_ok r'"
proof -
  have "valid_ids r' = valid_ids r" using assms(5) by (simp add: valid_ids_def)
  moreover have "tracks (view r') (valid_ids r)"
    by (rule tracks_same [of "view r"]) (use assms in \<open>simp_all add: repl_ok_def\<close>)
  ultimately show ?thesis using assms by (simp add: repl_ok_def)
qed

lemma region_ready_took: "region_ready (hp d) \<Longrightarrow> took c d d' \<Longrightarrow> region_ready (hp d')"
  by (simp add: region_ready_def took_def mem_heap_lo_def)

text \<open>\<open>add_range\<close> does not look at the arrays of a trace.\<close>

lemma add_range_one:
  assumes "sz \<noteq> 0"
  shows "(\<exists>d'. add_range lo sz tn i d = Inr (1, d')) \<longleftrightarrow> 0 < sz \<and> lo mod 8 = 0 \<and>
    mem_heap_lo (hp d) \<le> lo \<and> lo \<le> mem_heap_hi (hp d) \<and> mem_heap_lo (hp d) \<le> lo + sz - 1 \<and>
    lo + sz - 1 \<le> mem_heap_hi (hp d) \<and> List.find (hits lo (lo + sz - 1)) (ranges d) = None \<and> \<not> libc_out d"
  using assms
  by (auto simp: add_range_def prog_eval Let_def mm_consts unix_error_def reported_def
      split: if_splits option.splits)

lemma add_range_view:
  assumes "add_range lo sz tn i d = Inr (1, d\<lparr>ranges := x\<rparr>)" and "0 < sz"
    and "hp d2 = hp d" and "ranges d2 = ranges d" and "libc_out d2 = libc_out d"
  shows "add_range lo sz tn' i' d2 = Inr (1, d2\<lparr>ranges := (lo, lo + sz - 1) # ranges d2\<rparr>)"
proof -
  have sz: "sz \<noteq> 0" using assms(2) by simp
  have "\<exists>d'. add_range lo sz tn' i' d2 = Inr (1, d')"
    using add_range_one [OF sz, of lo tn i d] add_range_one [OF sz, of lo tn' i' d2] assms by auto
  then show ?thesis using add_range_result(2) [OF _ sz, of lo tn' i' d2 1] by auto
qed

text \<open>The state in which a block has been recorded.\<close>

definition took_block :: "int \<Rightarrow> int \<Rightarrow> int \<Rightarrow> heap \<Rightarrow> (int \<times> int) list \<Rightarrow> repl \<Rightarrow> repl" where
  "took_block i q sz h rs r =
     r\<lparr>drv := (drv r)\<lparr>hp := h, ranges := (q, q + sz - 1) # rs\<rparr>,
       rblocks := (rblocks r)[nat i := (rblocks r ! nat i)\<lparr>is_valid := True, bptr := q, bsize := sz\<rparr>]\<rparr>"

lemma took_block_ok:
  assumes tr: "tracks (recorded i q sz h rs (view r)) (insert i (valid_ids r))"
    and took: "took c (view r) (recorded i q sz h rs (view r))"
    and ready: "region_ready (hp (drv r))" and i: "0 \<le> i" "i < int (length (rblocks r))"
    and n: "num_blocks r = int (length (rblocks r))"
  shows "repl_ok (took_block i q sz h rs r)"
proof -
  let ?r = "took_block i q sz h rs r"
  have view: "view ?r = recorded i q sz h rs (view r)"
    by (simp add: view_def took_block_def recorded_def map_update)
  have "valid_ids ?r = insert i (valid_ids r)"
    using i by (auto simp: valid_ids_def took_block_def nth_list_update)
  moreover have "region_ready (hp (drv ?r))"
    using region_ready_took [OF _ took] ready by (simp add: view [symmetric])
  ultimately show ?thesis using tr n by (simp add: repl_ok_def view) (simp add: took_block_def)
qed

section \<open>Commands\<close>

text \<open>Arguments do not depend on the state.\<close>

definition args :: "string list \<Rightarrow> string list \<Rightarrow> nat \<Rightarrow> string \<Rightarrow> int list option" where
  "args short long k msg = (case sscanf_either short long k msg () of Inl _ \<Rightarrow> None | Inr (vs, _) \<Rightarrow> Some vs)"

lemma sscanf_either_args [prog_eval]:
  "sscanf_either short long k msg r =
     (case args short long k msg of None \<Rightarrow> Inl Signed_Overflow | Some vs \<Rightarrow> Inr (vs, r))"
  by (simp add: args_def sscanf_either_def sscanf_def prog_eval Let_def)

lemma next_op_ok [prog_eval]:
  "next_op r = (if is_int (num_ops r + 1) then Inr ((), r\<lparr>num_ops := num_ops r + 1\<rparr>) else Inl Signed_Overflow)"
  by (simp add: next_op_def prog_eval)

lemma repl_error_ok [prog_eval]:
  "repl_error msg r = (if is_int (errors (drv r) + 1)
     then Inr ((), r\<lparr>drv := reported (tracenum r) (num_ops r) (Text msg) (drv r)\<rparr>) else Inl Signed_Overflow)"
  by (simp add: repl_error_def prog_eval)

text \<open>A request that memory was too small for leaves the heap and the blocks as they were.\<close>

lemma repl_ok_failed:
  assumes ok: "repl_ok r" and tr: "tracks ((view r)\<lparr>hp := h\<rparr>) (valid_ids r)"
    and took: "took c (view r) ((view r)\<lparr>hp := h\<rparr>)" and rb: "rblocks r' = rblocks r"
    and nb: "num_blocks r' = num_blocks r"
    and d: "hp (drv r') = h" "ranges (drv r') = ranges (drv r)" "libc_out (drv r') = libc_out (drv r)"
  shows "repl_ok r'"
proof -
  have "valid_ids r' = valid_ids r" using rb by (simp add: valid_ids_def)
  moreover have "tracks (view r') (valid_ids r)"
    by (rule tracks_same [OF tr]) (use d rb in simp_all)
  moreover have "region_ready h" using region_ready_took [OF _ took] ok by (simp add: repl_ok_def)
  ultimately show ?thesis using ok nb rb d(1) by (simp add: repl_ok_def)
qed

lemma malloc_cmd_ok:
  assumes ok: "repl_ok r" and c: "counters_ok r"
    and a: "args [''m''] [''malloc''] 2 msg = Some vs"
    and s: "\<And>i n. vs = [i, n] \<Longrightarrow> 0 \<le> i \<Longrightarrow> i < num_blocks r \<Longrightarrow> i \<notin> valid_ids r \<Longrightarrow> n = 0 \<or> small_ok n"
  shows "\<exists>r'. malloc_cmd msg r = Inr ((), r') \<and> repl_ok r'"
proof (cases "\<exists>i n. vs = [i, n]")
  case False
  then have "malloc_cmd msg r = say (Usage ''malloc'') r"
    using a by (auto simp: malloc_cmd_def prog_eval split: list.splits)
  then show ?thesis using repl_ok_same [OF ok] by (simp add: say_apply)
next
  case True
  then obtain i n where vs: "vs = [i, n]" by blast
  have tr: "tracks (view r) (valid_ids r)" and ready: "region_ready (hp (drv r))"
    and nb: "num_blocks r = int (length (rblocks r))"
    using ok by (simp_all add: repl_ok_def)
  let ?r1 = "r\<lparr>num_ops := num_ops r + 1\<rparr>"
  have ok1: "repl_ok ?r1" by (rule repl_ok_same [OF ok]) simp_all
  have v1: "view ?r1 = view r" "valid_ids ?r1 = valid_ids r" by (simp_all add: view_def valid_ids_def)
  consider (outside) "i < 0 \<or> i \<ge> num_blocks r"
    | (busy) "0 \<le> i" "i < num_blocks r" "is_valid (rblocks r ! nat i)"
    | (zero) "0 \<le> i" "i < num_blocks r" "\<not> is_valid (rblocks r ! nat i)" "n = 0"
    | (go) "0 \<le> i" "i < num_blocks r" "\<not> is_valid (rblocks r ! nat i)" "small_ok n"
    using s [OF vs] unfolding valid_ids_def by fastforce
  then show ?thesis
  proof cases
    case outside
    then have "malloc_cmd msg r = say (Bad_Index (num_blocks r)) r"
      using a vs by (simp add: malloc_cmd_def prog_eval)
    then show ?thesis using repl_ok_same [OF ok] by (simp add: say_apply)
  next
    case busy
    then have "malloc_cmd msg r = say In_Use r"
      using a vs nb by (simp add: malloc_cmd_def prog_eval get_rblock_def)
    then show ?thesis using repl_ok_same [OF ok] by (simp add: say_apply)
  next
    case zero
    have "mm_malloc 0 (hp (drv r)) = Inr (NULL, hp (drv r))"
      using mm_malloc_zero tr by (simp add: tracks_def points_def)
    then have "malloc_cmd msg r = Inr ((), ?r1)"
      using a vs nb zero c by (simp add: malloc_cmd_def prog_eval get_rblock_def counters_ok_def)
    then show ?thesis using ok1 by blast
  next
    case go
    have i: "i \<in> ids (view r)" "i \<notin> valid_ids r" using go nb by (simp_all add: ids_view valid_ids_def)
    have n0: "n \<noteq> 0" "0 < n" using go(4) by (simp_all add: small_ok_def)
    show ?thesis
    proof (cases rule: alloc_cases [OF tr i go(4), where tn = "tracenum r" and n = "num_ops r", case_names fail got])
      case (fail h)
      let ?r = "?r1\<lparr>drv := reported (tracenum r) (num_ops r + 1) (Text ''mm_malloc failed.'') ((drv r)\<lparr>hp := h\<rparr>)\<rparr>"
      have "malloc_cmd msg r = Inr ((), ?r)"
        using a vs nb go fail(1) n0 c
        by (simp add: malloc_cmd_def prog_eval get_rblock_def counters_ok_def NULL_def)
      moreover have "repl_ok ?r"
        by (rule repl_ok_failed [OF ok fail(3,4)]) (simp_all add: reported_def)
      ultimately show ?thesis by blast
    next
      case (got q h h2)
      have "add_range q n (tracenum r) (num_ops r + 1) ((drv r)\<lparr>hp := h\<rparr>) =
          Inr (1, (drv r)\<lparr>hp := h, ranges := (q, q + n - 1) # ranges (drv r)\<rparr>)"
        using add_range_view [OF got(3) n0(2), of "(drv r)\<lparr>hp := h\<rparr>" "tracenum r" "num_ops r + 1"] by simp
      then have "malloc_cmd msg r = Inr ((), took_block i q n h2 (ranges (drv r)) ?r1)"
        using a vs nb go got(1,2,4) n0 c
        by (simp add: malloc_cmd_def prog_eval get_rblock_def upd_rblock_def counters_ok_def NULL_def took_block_def)
      moreover have "repl_ok (took_block i q n h2 (ranges (drv r)) ?r1)"
        by (rule took_block_ok) (use got(5,6) v1 ready go(1,2) nb in simp_all)
      ultimately show ?thesis by blast
    qed
  qed
qed

text \<open>A valid index names a live block.\<close>

lemma repl_valid:
  assumes ok: "repl_ok r" and i: "0 \<le> i" "i < num_blocks r" "is_valid (rblocks r ! nat i)"
  shows "i \<in> valid_ids r" and "bl (view r) i = bptr (rblocks r ! nat i)" and "bsz (view r) i = bsize (rblocks r ! nat i)"
    and "get_rblock i r = Inr (rblocks r ! nat i, r)" and "i < int (length (rblocks r))"
  using assms by (auto simp: repl_ok_def valid_ids_def get_rblock_def)

lemma update_same: "k < length xs \<Longrightarrow> f (g (xs ! k)) = f (xs ! k) \<Longrightarrow> (map f xs)[k := f (g (xs ! k))] = map f xs"
  by (metis list_update_id nth_map)

lemma free_cmd_ok:
  assumes ok: "repl_ok r" and c: "counters_ok r" and a: "args [''f''] [''free''] 1 msg = Some vs"
  shows "\<exists>r'. free_cmd msg r = Inr ((), r') \<and> repl_ok r'"
proof (cases "\<exists>i. vs = [i]")
  case False
  then have "free_cmd msg r = say (Usage ''f'') r"
    using a by (auto simp: free_cmd_def prog_eval split: list.splits)
  then show ?thesis using repl_ok_same [OF ok] by (simp add: say_apply)
next
  case True
  then obtain i where vs: "vs = [i]" by blast
  have tr: "tracks (view r) (valid_ids r)" and ready: "region_ready (hp (drv r))"
    and nb: "num_blocks r = int (length (rblocks r))"
    using ok by (simp_all add: repl_ok_def)
  consider (outside) "i < 0 \<or> i \<ge> num_blocks r"
    | (unused) "0 \<le> i" "i < num_blocks r" "\<not> is_valid (rblocks r ! nat i)"
    | (go) "0 \<le> i" "i < num_blocks r" "is_valid (rblocks r ! nat i)"
    by fastforce
  then show ?thesis
  proof cases
    case outside
    then have "free_cmd msg r = say (Bad_Index (num_blocks r)) r"
      using a vs by (simp add: free_cmd_def prog_eval)
    then show ?thesis using repl_ok_same [OF ok] by (simp add: say_apply)
  next
    case unused
    then have "free_cmd msg r = say Not_In_Use r"
      using a vs nb by (simp add: free_cmd_def prog_eval get_rblock_def)
    then show ?thesis using repl_ok_same [OF ok] by (simp add: say_apply)
  next
    case go
    note v = repl_valid [OF ok go]
    let ?b = "rblocks r ! nat i"
    obtain h where h: "mm_free (bl (view r) i) (hp (view r)) = Inr ((), h)"
        "tracks ((view r)\<lparr>hp := h, ranges := without_lo (bl (view r) i) (ranges (view r))\<rparr>) (valid_ids r - {i})"
        "took 0 (view r) ((view r)\<lparr>hp := h, ranges := without_lo (bl (view r) i) (ranges (view r))\<rparr>)"
      using free_step [OF tr v(1)] .
    let ?d = "(drv r)\<lparr>hp := h, ranges := without_lo (bptr ?b) (ranges (drv r))\<rparr>"
    let ?r = "r\<lparr>num_ops := num_ops r + 1, drv := ?d, rblocks := (rblocks r)[nat i := ?b\<lparr>is_valid := False\<rparr>]\<rparr>"
    have run: "free_cmd msg r = Inr ((), ?r)"
      using a vs go(3) c v(5) go(1,2) h(1) v(2)
      by (simp add: free_cmd_def prog_eval get_rblock_def upd_rblock_def counters_ok_def remove_range_def)
    have k: "nat i < length (rblocks r)" using go(1) v(5) by linarith
    have arr: "map bptr (rblocks ?r) = map bptr (rblocks r)" "map bsize (rblocks ?r) = map bsize (rblocks r)"
      using update_same [OF k, of bptr "\<lambda>b. b\<lparr>is_valid := False\<rparr>"]
        update_same [OF k, of bsize "\<lambda>b. b\<lparr>is_valid := False\<rparr>"] by (simp_all add: map_update)
    have ids: "valid_ids ?r = valid_ids r - {i}"
      using go(1) v(5) by (auto simp: valid_ids_def nth_list_update nat_eq_iff split: if_splits)
    have "tracks (view ?r) (valid_ids r - {i})"
      by (rule tracks_same [OF h(2)]) (use arr v(2) in \<open>simp_all add: view_def\<close>)
    moreover have "region_ready h" using region_ready_took [OF _ h(3)] ready by simp
    ultimately have "repl_ok ?r" using nb by (simp add: repl_ok_def ids)
    then show ?thesis using run by blast
  qed
qed

lemma remalloc_cmd_ok:
  assumes ok: "repl_ok r" and c: "counters_ok r" and a: "args [''r''] [''realloc''] 2 msg = Some vs"
    and s: "\<And>i n. vs = [i, n] \<Longrightarrow> 0 \<le> i \<Longrightarrow> i < num_blocks r \<Longrightarrow>
      is_valid (rblocks r ! nat i) \<and> small_ok n \<and> i AND 0xFF < 128"
  shows "\<exists>r'. remalloc_cmd msg r = Inr ((), r') \<and> repl_ok r'"
proof (cases "\<exists>i n. vs = [i, n]")
  case False
  then have "remalloc_cmd msg r = say (Usage ''r'') r"
    using a by (auto simp: remalloc_cmd_def prog_eval split: list.splits)
  then show ?thesis using repl_ok_same [OF ok] by (simp add: say_apply)
next
  case True
  then obtain i n where vs: "vs = [i, n]" by blast
  have tr: "tracks (view r) (valid_ids r)" and ready: "region_ready (hp (drv r))"
    and nb: "num_blocks r = int (length (rblocks r))"
    using ok by (simp_all add: repl_ok_def)
  show ?thesis
  proof (cases "0 \<le> i \<and> i < num_blocks r")
    case False
    then have "remalloc_cmd msg r = say (Bad_Index (num_blocks r)) r"
      using a vs by (auto simp: remalloc_cmd_def prog_eval)
    then show ?thesis using repl_ok_same [OF ok] by (simp add: say_apply)
  next
    case True
    then have i: "0 \<le> i" "i < num_blocks r" "is_valid (rblocks r ! nat i)" and n: "small_ok n"
      and low: "i AND 0xFF < 128"
      using s [OF vs] by simp_all
    note v = repl_valid [OF ok i]
    let ?b = "rblocks r ! nat i"
    have n0: "n \<noteq> 0" "0 < n" using n by (simp_all add: small_ok_def)
    show ?thesis
    proof (cases rule: realloc_cases [OF tr v(1) n, where tn = "tracenum r" and n = "num_ops r", case_names fail got])
      case (fail h)
      let ?r = "r\<lparr>drv := reported (tracenum r) (num_ops r) (Text ''mm_realloc failed.'') ((drv r)\<lparr>hp := h\<rparr>)\<rparr>"
      have "remalloc_cmd msg r = Inr ((), ?r)"
        using a vs i v(2,5) fail(1) n0 c
        by (simp add: remalloc_cmd_def prog_eval get_rblock_def counters_ok_def NULL_def)
      moreover have "repl_ok ?r"
        by (rule repl_ok_failed [OF ok fail(3,4)]) (simp_all add: reported_def)
      ultimately show ?thesis by blast
    next
      case (got q h h2)
      let ?rs = "without_lo (bptr ?b) (ranges (drv r))" and ?n = "min n (bsize ?b)"
      note live = tracks_live [OF tr v(1)]
      have k: "nat i < length (rblocks r)" using i(1) v(5) by linarith
      have sz: "0 < bsize ?b" "bsize ?b < 2 ^ 31" using live(3,4) v(3) by simp_all
      have add: "add_range q n (tracenum r) (num_ops r) ((drv r)\<lparr>hp := h, ranges := ?rs\<rparr>) =
          Inr (1, (drv r)\<lparr>hp := h, ranges := (q, q + n - 1) # ?rs\<rparr>)"
      proof -
        let ?d = "(view r)\<lparr>hp := h, ranges := ?rs\<rparr>"
        have "add_range q n (tracenum r) (num_ops r) ?d = Inr (1, ?d\<lparr>ranges := (q, q + n - 1) # ?rs\<rparr>)"
          using got(3) k by simp
        from add_range_view [OF this n0(2), of "(drv r)\<lparr>hp := h, ranges := ?rs\<rparr>" "tracenum r" "num_ops r"]
        show ?thesis by simp
      qed
      have same: "same_bytes q (i AND 0xFF) (nat ?n) h = Inr (True, h)"
        using low_byte(1) low got(4,5) n0(2) sz v(3) by (intro same_bytes_ok) simp_all
      have old: "int_of_long (bsize ?b) = bsize ?b"
        using sz by (simp add: int_of_long_id is_int_def)
      have rb: "?b\<lparr>is_valid := True\<rparr> = ?b"
        using i(3) by (cases ?b) simp
      have "remalloc_cmd msg r = Inr ((), took_block i q n h2 ?rs r)"
        using a vs i v(2,5) got(1,2,6) add same old n0
        by (cases "n < bsize ?b")
          (simp_all add: remalloc_cmd_def prog_eval get_rblock_def upd_rblock_def NULL_def took_block_def
            remove_range_def Let_def rb)
      moreover have "insert i (valid_ids r) = valid_ids r" using v(1) by blast
      then have "repl_ok (took_block i q n h2 ?rs r)"
        by (intro took_block_ok [where c = "need n"]) (use got(7,8) v(2,5) ready i(1) nb in simp_all)
      ultimately show ?thesis by blast
    qed
  qed
qed

lemma live_block_read:
  assumes inv: "heap_inv s" and p: "payloads s p = Some k"
  shows "block_allocated (p - 8) s = Inr (1, s)" and "block_size (p - 8) s = Inr (k + 16, s)"
proof -
  have "(p - 8, k + 16, True) \<in> set (place (base s) (chunks (abs_heap s)))"
    using payloads_held [OF inv p] heap_invD [OF inv] by (simp add: held_def rep_def)
  moreover have "lay s (chunks (abs_heap s))" using heap_invD [OF inv] by (simp add: rep_def)
  ultimately show "block_allocated (p - 8) s = Inr (1, s)" "block_size (p - 8) s = Inr (k + 16, s)"
    using lay_tags_read by fastforce+
qed

lemma print_cmd_ok:
  assumes ok: "repl_ok r" and a: "args [''p'', ''-b''] [''print'', ''-b''] 1 msg = Some vs"
  shows "\<exists>o'. print_cmd msg r = Inr ((), r\<lparr>out := o'\<rparr>)"
proof (cases "\<exists>i. vs = [i]")
  case False
  then have "print_cmd msg r = mm_print_heap_repl MAX_REPL_SIZE r"
    using a by (auto simp: print_cmd_def prog_eval split: list.splits)
  moreover have "heap_inv (hp (drv r))" using ok by (simp add: repl_ok_def tracks_def points_def)
  ultimately show ?thesis using mm_print_heap_repl_ok [of r MAX_REPL_SIZE] by auto
next
  case True
  then obtain i where vs: "vs = [i]" by blast
  have nb: "num_blocks r = int (length (rblocks r))" using ok by (simp add: repl_ok_def)
  consider (outside) "i < 0 \<or> i \<ge> num_blocks r"
    | (unused) "0 \<le> i" "i < num_blocks r" "\<not> is_valid (rblocks r ! nat i)"
    | (go) "0 \<le> i" "i < num_blocks r" "is_valid (rblocks r ! nat i)"
    by fastforce
  then show ?thesis
  proof cases
    case outside
    then have "print_cmd msg r = say (Bad_Index (num_blocks r)) r"
      using a vs by (simp add: print_cmd_def prog_eval)
    then show ?thesis by (auto simp: say_apply)
  next
    case unused
    then have "print_cmd msg r = say (Not_Allocated i) r"
      using a vs nb by (simp add: print_cmd_def prog_eval get_rblock_def)
    then show ?thesis by (auto simp: say_apply)
  next
    case go
    note v = repl_valid [OF ok go]
    have tr: "tracks (view r) (valid_ids r)" using ok by (simp add: repl_ok_def)
    note live = tracks_live [OF tr v(1)]
    obtain k where "payloads (hp (drv r)) (bptr (rblocks r ! nat i)) = Some k"
      using live(5) go(1) v(5) by auto
    note rd = live_block_read [OF _ this] on_hp_read [of "block_allocated (bptr (rblocks r ! nat i) - 8)" r 1]
      on_hp_read [of "block_size (bptr (rblocks r ! nat i) - 8)" r "k + 16"]
    have "heap_inv (hp (drv r))" using live(1) by simp
    then have "print_cmd msg r = say (Block_Status i (bptr (rblocks r ! nat i) - 8) (int_of_long (k + 16))) r"
      using a vs go rd v(4) by (simp add: print_cmd_def bnd_apply gets_apply sscanf_either_args Let_def)
    then show ?thesis by (auto simp: say_apply)
  qed
qed

text \<open>\<open>reset\<close> starts a new heap; it does not touch the blocks of the REPL.\<close>

lemma reset_cmd_runs:
  assumes ready: "region_ready (hp (drv r))" and out: "\<not> libc_out (drv r)" and c: "is_int (tracenum r + 1)"
  shows "reset_cmd msg r = Inr ((), r\<lparr>drv := restarted (drv r), tracenum := tracenum r + 1, num_ops := 0\<rparr>)"
proof -
  have "mm_init (hp (drv r)\<lparr>mem_brk := mem_start_brk (hp (drv r))\<rparr>) = Inr (0, hp (restarted (drv r)))"
    using restart(2) [OF ready out] .
  then show ?thesis
    using c by (simp add: reset_cmd_def prog_eval clear_ranges_def mem_reset_brk_def restarted_def)
qed

lemma reset_cmd_ok:
  assumes ok: "repl_ok r" and c: "counters_ok r" and unused: "valid_ids r = {}"
  shows "\<exists>r'. reset_cmd msg r = Inr ((), r') \<and> repl_ok r'"
proof -
  have ready: "region_ready (hp (drv r))" "\<not> libc_out (drv r)" "num_blocks r = int (length (rblocks r))"
    using ok by (simp_all add: repl_ok_def tracks_def)
  note st = restart [OF ready(1,2)]
  let ?r = "r\<lparr>drv := restarted (drv r), tracenum := tracenum r + 1, num_ops := 0\<rparr>"
  have "heap_inv (hp (restarted (drv r)))" "payloads (hp (restarted (drv r))) = Map.empty" "\<not> libc_out (drv r)"
      "ranges (restarted (drv r)) = []"
    using st(3) ready(2) by (auto simp: tracks_def points_def ranged_def)
  then have "tracks (view ?r) {}"
    by (simp add: tracks_def points_def sized_def ranged_def filled_def) (simp add: restarted_def)
  moreover have "valid_ids ?r = {}" using unused by (simp add: valid_ids_def)
  moreover have "region_ready (hp (restarted (drv r)))"
    using ready(1) st(6,7) by (simp add: region_ready_def mem_heap_lo_def)
  ultimately have "repl_ok ?r" using ready(3) by (simp add: repl_ok_def)
  then show ?thesis using reset_cmd_runs [OF ready(1,2)] c by (simp add: counters_ok_def)
qed

section \<open>Lines\<close>

definition c_line :: "string \<Rightarrow> string" where
  "c_line input = takeWhile (\<lambda>c. c \<noteq> CHR 0x00) input"

fun malloc_args_ok :: "repl \<Rightarrow> int list \<Rightarrow> bool" where
  "malloc_args_ok r [i, n] \<longleftrightarrow>
     (0 \<le> i \<and> i < num_blocks r \<and> i \<notin> valid_ids r \<longrightarrow> n = 0 \<or> small_ok n)"
| "malloc_args_ok r _ \<longleftrightarrow> True"

fun realloc_args_ok :: "repl \<Rightarrow> int list \<Rightarrow> bool" where
  "realloc_args_ok r [i, n] \<longleftrightarrow>
     (0 \<le> i \<and> i < num_blocks r \<longrightarrow> i \<in> valid_ids r \<and> small_ok n \<and> i AND 0xFF < 128)"
| "realloc_args_ok r _ \<longleftrightarrow> True"

definition quits :: "string \<Rightarrow> bool" where
  "quits input \<longleftrightarrow> fst (scan_word (c_line input)) \<in> {Some ''quit'', Some ''q''}"

definition sensible :: "repl \<Rightarrow> string \<Rightarrow> bool" where
  "sensible r input =
     (let line = c_line input in
      case fst (scan_word line) of
        None \<Rightarrow> True
      | Some cmd \<Rightarrow>
          if cmd = ''m'' \<or> cmd = ''malloc'' then
            (case args [''m''] [''malloc''] 2 line of None \<Rightarrow> False | Some vs \<Rightarrow> malloc_args_ok r vs)
          else if cmd = ''r'' \<or> cmd = ''realloc'' then
            (case args [''r''] [''realloc''] 2 line of None \<Rightarrow> False | Some vs \<Rightarrow> realloc_args_ok r vs)
          else if cmd = ''f'' \<or> cmd = ''free'' then args [''f''] [''free''] 1 line \<noteq> None
          else if cmd = ''p'' \<or> cmd = ''print'' then args [''p'', ''-b''] [''print'', ''-b''] 1 line \<noteq> None
          else if cmd = ''reset'' then valid_ids r = {}
          else cmd \<noteq> ''quit'' \<and> cmd \<noteq> ''q'')"

lemma run_line_quits:
  assumes "repl_ok r" and "quits input"
  shows "run_line input r = Inl (Exit 0)"
proof -
  have "\<not> libc_out (drv r)" using assms(1) by (simp add: repl_ok_def tracks_def)
  then have "quit_cmd msg r = Inl (Exit 0)" for msg
    by (simp add: quit_cmd_def mem_reset_brk_def clear_ranges_def prog_eval)
  moreover have "map_of cmd_table ''quit'' = Some quit_cmd" "map_of cmd_table ''q'' = Some quit_cmd"
    by (simp_all add: cmd_table_def)
  ultimately show ?thesis
    using assms(2) by (auto simp: run_line_def quits_def c_line_def)
qed

lemma sensible_goes_on: "sensible r input \<Longrightarrow> \<not> quits input"
  by (auto simp: sensible_def quits_def Let_def)

lemma run_line_ok:
  assumes ok: "repl_ok r" and c: "counters_ok r" and s: "sensible r input"
  shows "\<exists>r'. run_line input r = Inr ((), r') \<and> repl_ok r'"
proof (cases "fst (scan_word (c_line input))")
  case None
  then have "run_line input r = say Syntax_Error r" by (simp add: run_line_def c_line_def Let_def)
  then show ?thesis using repl_ok_same [OF ok] by (simp add: say_apply)
next
  case (Some cmd)
  let ?l = "c_line input"
  have run: "run_line input r = (case map_of cmd_table cmd of None \<Rightarrow> say No_Command r | Some h \<Rightarrow> h ?l r)"
    using Some by (simp add: run_line_def c_line_def Let_def split: option.splits)
  have said: "\<exists>r'. say e r = Inr ((), r') \<and> repl_ok r'" for e
    using repl_ok_same [OF ok] by (simp add: say_apply)
  have names: "map_of cmd_table cmd = None \<longleftrightarrow> cmd \<noteq> ''help'' \<and> cmd \<noteq> ''h'' \<and> cmd \<noteq> ''m'' \<and> cmd \<noteq> ''malloc'' \<and>
      cmd \<noteq> ''r'' \<and> cmd \<noteq> ''realloc'' \<and> cmd \<noteq> ''f'' \<and> cmd \<noteq> ''free'' \<and> cmd \<noteq> ''p'' \<and> cmd \<noteq> ''print'' \<and>
      cmd \<noteq> ''quit'' \<and> cmd \<noteq> ''q'' \<and> cmd \<noteq> ''reset''"
    unfolding map_of_eq_None_iff by (simp add: cmd_table_def cong: conj_cong)
  note s' = s [unfolded sensible_def Let_def Some option.case]
  consider (m) "cmd = ''m'' \<or> cmd = ''malloc''" | (re) "cmd = ''r'' \<or> cmd = ''realloc''"
    | (fr) "cmd = ''f'' \<or> cmd = ''free''" | (pr) "cmd = ''p'' \<or> cmd = ''print''" | (rs) "cmd = ''reset''"
    | (h) "cmd = ''h'' \<or> cmd = ''help''" | (no) "map_of cmd_table cmd = None" | (q) "cmd = ''quit'' \<or> cmd = ''q''"
    using names by meson
  then show ?thesis
  proof cases
    case m
    then obtain vs where vs: "args [''m''] [''malloc''] 2 ?l = Some vs" "malloc_args_ok r vs"
      using s' by (auto split: option.splits)
    have "\<exists>r'. malloc_cmd ?l r = Inr ((), r') \<and> repl_ok r'"
      by (rule malloc_cmd_ok [OF ok c vs(1)]) (use vs(2) in auto)
    moreover have "map_of cmd_table cmd = Some malloc_cmd" using m by (elim disjE) (simp_all add: cmd_table_def)
    ultimately show ?thesis unfolding run by simp
  next
    case re
    then obtain vs where vs: "args [''r''] [''realloc''] 2 ?l = Some vs" "realloc_args_ok r vs"
      using s' by (auto split: option.splits)
    have "\<exists>r'. remalloc_cmd ?l r = Inr ((), r') \<and> repl_ok r'"
      by (rule remalloc_cmd_ok [OF ok c vs(1)]) (use vs(2) in \<open>auto simp: valid_ids_def\<close>)
    moreover have "map_of cmd_table cmd = Some remalloc_cmd" using re by (elim disjE) (simp_all add: cmd_table_def)
    ultimately show ?thesis unfolding run by simp
  next
    case fr
    then obtain vs where "args [''f''] [''free''] 1 ?l = Some vs" using s' by (auto split: option.splits)
    from free_cmd_ok [OF ok c this] have "\<exists>r'. free_cmd ?l r = Inr ((), r') \<and> repl_ok r'" .
    moreover have "map_of cmd_table cmd = Some free_cmd" using fr by (elim disjE) (simp_all add: cmd_table_def)
    ultimately show ?thesis unfolding run by simp
  next
    case pr
    then obtain vs where "args [''p'', ''-b''] [''print'', ''-b''] 1 ?l = Some vs" using s' by (auto split: option.splits)
    from print_cmd_ok [OF ok this] obtain x where "print_cmd ?l r = Inr ((), r\<lparr>out := x\<rparr>)" by blast
    moreover have "repl_ok (r\<lparr>out := x\<rparr>)" by (rule repl_ok_same [OF ok]) simp_all
    moreover have "map_of cmd_table cmd = Some print_cmd" using pr by (elim disjE) (simp_all add: cmd_table_def)
    ultimately show ?thesis unfolding run by simp
  next
    case rs
    then have "valid_ids r = {}" using s' by simp
    from reset_cmd_ok [OF ok c this] show ?thesis using rs unfolding run by (simp add: cmd_table_def)
  next
    case h
    then have "map_of cmd_table cmd = Some help_cmd" by (elim disjE) (simp_all add: cmd_table_def)
    then show ?thesis using said unfolding run by (simp add: help_cmd_def)
  next
    case no
    then show ?thesis using said unfolding run by simp
  next
    case q
    then show ?thesis using s' by auto
  qed
qed

end
