(* ===== verification/Repl_Loop.thy ===== *)
theory Repl_Loop
  imports Repl_Ok
begin

text \<open>
  The loop of the REPL: it runs the lines of its input one after the other and
  ends at the end of the input, or at the first line that quits.  A session of
  sensible lines keeps the invariant.  The last lemmas show what the commands do that break it.
\<close>

section \<open>Lines of the input\<close>

function lines_of :: "string \<Rightarrow> string list" where
  "lines_of s = (if s = [] then [] else case fgets (MAXLINE - 1) s of (l, r) \<Rightarrow> l # lines_of r)"
  by pat_completeness auto
termination
  by (relation "measure length") (auto simp: MAXLINE_def intro: fgets_shorter [of 1023, OF _ _ sym])

declare lines_of.simps [simp del]

fun run_lines :: "string list \<Rightarrow> (repl, unit) prog" where
  "run_lines [] = seqp (say Prompt) (say Newline)"
| "run_lines (l # ls) = seqp (say Prompt) (seqp (run_line l) (run_lines ls))"

lemma concat_lines_of: "concat (lines_of s) = s"
proof (induction s rule: lines_of.induct)
  case (1 s)
  show ?case
  proof (cases "s = []")
    case False
    obtain l r where f: "fgets (MAXLINE - 1) s = (l, r)" by force
    then show ?thesis using 1 [OF False f [symmetric]] False fgets_append [OF f, symmetric] by (simp add: lines_of.simps [of s])
  qed (simp add: lines_of.simps)
qed

lemma repl_loop_lines: "repl_loop s = run_lines (lines_of s)"
proof (induction s rule: lines_of.induct)
  case (1 s)
  show ?case
  proof (cases "s = []")
    case False
    obtain l r where f: "fgets (MAXLINE - 1) s = (l, r)" by force
    then show ?thesis
      using 1 [OF False f [symmetric]] False by (simp add: lines_of.simps [of s] repl_loop.simps [of s])
  qed (simp add: lines_of.simps repl_loop.simps)
qed

text \<open>
  A session all of whose lines, up to the first that quits, are sensible when they
  are read.
\<close>

fun sensible_run :: "repl \<Rightarrow> string list \<Rightarrow> bool" where
  "sensible_run r [] \<longleftrightarrow> True"
| "sensible_run r (l # ls) \<longleftrightarrow> quits l \<or> counters_ok r \<and> sensible r l \<and>
     (case run_line l (r\<lparr>out := Prompt # out r\<rparr>) of
        Inl _ \<Rightarrow> True
      | Inr (_, r') \<Rightarrow> sensible_run r' ls)"

lemma run_lines_ok:
  assumes "repl_ok r" and "sensible_run r ls"
  shows "if list_ex quits ls then run_lines ls r = Inl (Exit 0)
    else \<exists>r'. run_lines ls r = Inr ((), r') \<and> repl_ok r'"
  using assms
proof (induction ls arbitrary: r)
  case Nil
  have "repl_ok (r\<lparr>out := Newline # Prompt # out r\<rparr>)" by (rule repl_ok_same [OF Nil(1)]) simp_all
  then show ?case by (simp add: prog_eval)
next
  case (Cons l ls)
  let ?r = "r\<lparr>out := Prompt # out r\<rparr>"
  have ok: "repl_ok ?r" by (rule repl_ok_same [OF Cons.prems(1)]) simp_all
  show ?case
  proof (cases "quits l")
    case True
    then show ?thesis using run_line_quits [OF ok True] by (simp add: seqp_apply say_apply)
  next
    case False
    then have run: "counters_ok ?r" "sensible r l"
      using Cons.prems(2) by (simp_all add: counters_ok_def)
    have ids: "valid_ids ?r = valid_ids r" by (simp add: valid_ids_def)
    have "malloc_args_ok ?r vs = malloc_args_ok r vs" for vs
      by (cases "(r, vs)" rule: malloc_args_ok.cases) (simp_all add: ids)
    moreover have "realloc_args_ok ?r vs = realloc_args_ok r vs" for vs
      by (cases "(r, vs)" rule: realloc_args_ok.cases) (simp_all add: ids)
    ultimately have "sensible ?r l"
      using run(2) by (simp add: sensible_def ids cong: option.case_cong if_cong)
    then obtain r' where r': "run_line l ?r = Inr ((), r')" "repl_ok r'"
      using run_line_ok [OF ok run(1)] by blast
    then show ?thesis using Cons.IH [OF r'(2)] Cons.prems(2) False by (simp add: seqp_apply say_apply)
  qed
qed

lemma repl_session_ok:
  assumes "repl_ok r" and "sensible_run r (lines_of input)"
  shows "if list_ex quits (lines_of input) then repl_loop input r = Inl (Exit 0)
    else \<exists>r'. repl_loop input r = Inr ((), r') \<and> repl_ok r'"
  unfolding repl_loop_lines by (rule run_lines_ok [OF assms])

section \<open>The start of the REPL\<close>

lemma run_driver_start:
  assumes d: "\<not> libc_out d" "errors d + 1 < 2 ^ 31" "- (2 ^ 31) \<le> errors d + 1"
    and vm: "0 < p" "p mod 8 = 0" "p + MAX_HEAP < 2 ^ 62"
  obtains r where "repl_ok r" and "counters_ok r" and "valid_ids r = {}" and "out r = [Welcome]"
    and "run_driver (Some p) input d = seqp (repl_loop input) (on_drv clear_ranges) r"
proof -
  let ?r0 = "\<lparr>drv = d\<lparr>ranges := []\<rparr>, rblocks = map blank_block [0..<nat 1024],
      tracenum = 0, num_ops = 0, num_blocks = 1024, out = []\<rparr>"
  let ?h = "hp d\<lparr>mem_start_brk := p, mem_max_addr := p + MAX_HEAP, mem_brk := p\<rparr>"
  let ?r1 = "?r0\<lparr>drv := d\<lparr>ranges := [], hp := ?h\<rparr>\<rparr>"
  have init: "on_hp (mem_init (Some p)) ?r0 = Inr ((), ?r1)"
    by (simp add: mem_init_def prog_eval)
  have ready: "region_ready (hp (drv ?r1))" "\<not> libc_out (drv ?r1)"
    using vm d(1) by (simp_all add: region_ready_def MAX_HEAP_def push_bit_eq_mult)
  let ?r2 = "?r1\<lparr>drv := restarted (drv ?r1), tracenum := 1, num_ops := 0\<rparr>"
  let ?r3 = "?r2\<lparr>out := [Welcome]\<rparr>"
  have reset: "reset_cmd [] ?r1 = Inr ((), ?r2)"
    using reset_cmd_runs [OF ready, of "[]"] by (simp add: is_int_def)
  have none: "valid_ids ?r3 = {}" by (auto simp: valid_ids_def blank_block_def)
  note st = restart [OF ready]
  have "heap_inv (hp (restarted (drv ?r1)))" "payloads (hp (restarted (drv ?r1))) = Map.empty"
      "ranges (restarted (drv ?r1)) = []" "\<not> libc_out (restarted (drv ?r1))"
    using st(3) by (auto simp: tracks_def points_def ranged_def)
  then have "tracks (view ?r3) {}"
    by (simp add: tracks_def points_def sized_def ranged_def filled_def)
  moreover have "region_ready (hp (restarted (drv ?r1)))"
    using ready(1) st(6,7) by (simp add: region_ready_def mem_heap_lo_def)
  ultimately have "repl_ok ?r3" using none by (simp add: repl_ok_def)
  moreover have "errors (restarted (drv ?r1)) = errors d" using st(4) by (simp add: silent_def)
  then have "counters_ok ?r3" using d by (simp add: counters_ok_def is_int_def)
  moreover have "run_driver (Some p) input d = seqp (repl_loop input) (on_drv clear_ranges) ?r3"
    using d(1) init reset by (simp add: run_driver_def make_repl_state_def MAX_REPL_SIZE_def seqp_apply say_apply)
  ultimately show thesis using that none by simp
qed

section \<open>Commands that break the invariant\<close>

text \<open>After \<open>reset\<close> the blocks of the old heap are still marked as in use.\<close>

lemma reset_keeps_marks:
  assumes "repl_ok r" and "counters_ok r"
  obtains r' where "reset_cmd msg r = Inr ((), r')" and "rblocks r' = rblocks r"
    and "payloads (hp (drv r')) = Map.empty" and "valid_ids r' = valid_ids r"
proof -
  have ready: "region_ready (hp (drv r))" "\<not> libc_out (drv r)" "is_int (tracenum r + 1)"
    using assms by (simp_all add: repl_ok_def tracks_def counters_ok_def)
  have "payloads (hp (restarted (drv r))) = Map.empty"
    using restart(3) [OF ready(1,2)] by (auto simp: tracks_def points_def)
  then show thesis
    using that [OF reset_cmd_runs [OF ready]] by (simp add: valid_ids_def)
qed

text \<open>The second entry for \<open>r\<close> in the table is never found.\<close>

lemma r_is_realloc: "map_of cmd_table ''r'' = Some remalloc_cmd"
  by (simp add: cmd_table_def)

text \<open>A reallocation to size 0 frees the block but leaves it marked as in use, and its range recorded.\<close>

lemma realloc_zero_keeps_mark:
  assumes ok: "repl_ok r" and a: "args [''r''] [''realloc''] 2 msg = Some [i, 0]"
    and i: "0 \<le> i" "i < num_blocks r" "is_valid (rblocks r ! nat i)"
  obtains r' where "remalloc_cmd msg r = Inr ((), r')" and "rblocks r' = rblocks r"
    and "ranges (drv r') = ranges (drv r)" and "payloads (hp (drv r')) (bptr (rblocks r ! nat i)) = None"
proof -
  note v = repl_valid [OF ok i]
  let ?p = "bptr (rblocks r ! nat i)"
  have tr: "tracks (view r) (valid_ids r)" using ok by (simp add: repl_ok_def)
  note live = tracks_live [OF tr v(1)]
  obtain k where k: "payloads (hp (drv r)) ?p = Some k" using live(5) i(1) v(5) by auto
  have inv: "heap_inv (hp (drv r))" using live(1) by simp
  have "?p \<noteq> 0" using mm.region [OF inv k] by simp
  obtain h where h: "mm_free ?p (hp (drv r)) = Inr ((), h)" "payloads h = (payloads (hp (drv r)))(?p := None)"
    using mm.free [OF inv k] by blast
  have "mm_realloc ?p 0 (hp (drv r)) = Inr (NULL, h)"
    using h(1) \<open>?p \<noteq> 0\<close> by (simp add: mm_realloc_def prog_eval NULL_def)
  then have "remalloc_cmd msg r = Inr ((), r\<lparr>drv := (drv r)\<lparr>hp := h\<rparr>\<rparr>)"
    using a i v(4) by (simp add: remalloc_cmd_def prog_eval)
  then show thesis using that h(2) by simp
qed

end
