(* ===== verification/Whole_Run.thy ===== *)
theory Whole_Run
  imports Run_Ok Eval_Libc Repl_Loop
begin

text \<open>
  The whole of \<open>main\<close> in \<^verbatim>\<open>mdriver.c\<close>: the command line, the REPL, the run over the C
  library's allocator that \<^verbatim>\<open>-l\<close> asks for, and the run over the package of \<^verbatim>\<open>mm.c\<close>.
  On good trace files it ends with a score, or exits because the C library's
  allocator has failed.
\<close>

section \<open>main\<close>

text \<open>
  The driver's data on the side of the C library and on the side of \<^verbatim>\<open>mm.c\<close>, the
  interval timers with the variables of \<^verbatim>\<open>ftimer.c\<close>, and the clock rate of \<^verbatim>\<open>fsecs.c\<close>.
  Each run has its driver, and both share the timers.
\<close>

record ('h, 'o) process =
  libc_side :: "'h driver"
  mm_side :: "heap driver"
  timer_side :: "'o timers"
  Mhz :: real

definition with_driver :: "'d \<Rightarrow> 'o timers \<Rightarrow> ('d \<times> 'o) timers" where
  "with_driver d t = \<lparr>sys = (d, sys t), first_u = first_u t, first_r = first_r t, first_p = first_p t\<rparr>"

definition without_driver :: "('d \<times> 'o) timers \<Rightarrow> 'o timers" where
  "without_driver s = \<lparr>sys = snd (sys s), first_u = first_u s, first_r = first_r s, first_p = first_p s\<rparr>"

datatype outcome = Repl_Closed "printed list" | Results "row list" report

definition on_libc_side :: "(('h driver \<times> 'o) timers, 'a) prog \<Rightarrow> (('h, 'o) process, 'a) prog" where
  "on_libc_side m = (\<lambda>p. case m (with_driver (libc_side p) (timer_side p)) of Inl e \<Rightarrow> Inl e
     | Inr (x, s) \<Rightarrow> Inr (x, p\<lparr>libc_side := fst (sys s), timer_side := without_driver s\<rparr>))"

definition on_mm_side :: "((heap driver \<times> 'o) timers, 'a) prog \<Rightarrow> (('h, 'o) process, 'a) prog" where
  "on_mm_side m = (\<lambda>p. case m (with_driver (mm_side p) (timer_side p)) of Inl e \<Rightarrow> Inl e
     | Inr (x, s) \<Rightarrow> Inr (x, p\<lparr>mm_side := fst (sys s), timer_side := without_driver s\<rparr>))"

definition on_Mhz :: "(real, 'a) prog \<Rightarrow> (('h, 'o) process, 'a) prog" where
  "on_Mhz m = (\<lambda>p. case m (Mhz p) of Inl e \<Rightarrow> Inl e | Inr (x, r) \<Rightarrow> Inr (x, p\<lparr>Mhz := r\<rparr>))"

definition program ::
  "libc_env \<Rightarrow> 'o set_call \<Rightarrow> 'o get_call \<Rightarrow>
   (int \<Rightarrow> ('h, int) prog) \<Rightarrow> (int \<Rightarrow> int \<Rightarrow> ('h, int) prog) \<Rightarrow> (int \<Rightarrow> ('h, unit) prog) \<Rightarrow>
   int option \<Rightarrow> bool \<Rightarrow> (nat \<Rightarrow> bool) \<Rightarrow>
   string \<Rightarrow> (char \<times> string) list \<Rightarrow> (('h, 'o) process, outcome) prog" where
  "program e setitimer getitimer lmalloc lrealloc lfree vm can_open can_write input options =
     (\<lambda>p. case read_options options initial_config of
        Inl x \<Rightarrow> Inl x
      | Inr (Leave n) \<Rightarrow> Inl (Exit n)
      | Inr Start_Repl \<Rightarrow>
          (case run_driver vm input (mm_side p) of
             Inl x \<Rightarrow> Inl x
           | Inr (_, r) \<Rightarrow> Inr (Repl_Closed (out r), p\<lparr>mm_side := drv r\<rparr>))
      | Inr (Run c) \<Rightarrow>
          seqp (on_Mhz init_fsecs)
         (bnd (on_libc_side (run_libc_package e setitimer getitimer lmalloc lrealloc lfree c)) (\<lambda>table.
          bnd (on_mm_side (run_main e setitimer getitimer vm can_open can_write c)) (\<lambda>rep.
          ret (Results table rep)))) p)"

section \<open>The run over the C library's allocator\<close>

text \<open>The checked replay exits where the timed one does, and both count no error.\<close>

lemma libc_op_errors: "libc_speed_op m r f x d = Inr ((), d') \<Longrightarrow> errors d' = errors d"
  by (cases "op_type x")
    (auto simp: libc_speed_op_def prog_eval Let_def unix_error_def set_block_def get_block_def
      split: sum.splits prod.splits if_splits)

lemma libc_speed_errors: "eval_libc_speed m r f rs d = Inr ((), d') \<Longrightarrow> errors d' = errors d"
proof (induction rs arbitrary: d)
  case (Cons x rs)
  then obtain d1 where "libc_speed_op m r f x d = Inr ((), d1)" "eval_libc_speed m r f rs d1 = Inr ((), d')"
    by (auto simp: prog_eval split: sum.splits)
  then show ?case using Cons.IH libc_op_errors by metis
qed (simp add: ret_apply)

lemma libc_op_exit:
  assumes "libc_speed_op m r f x d = Inl (Exit 1)" and "errors d = 0"
  shows "libc_valid_op m r f tn i x d = Inl (Exit 1)"
  using assms
  by (cases "op_type x")
    (auto simp: libc_valid_op_def libc_speed_op_def malloc_error_def prog_eval Let_def unix_error_def is_int_def get_block_def
      split: sum.splits prod.splits if_splits)

lemma libc_ops_exit:
  assumes "eval_libc_speed m r f rs d = Inl (Exit 1)" and "errors d = 0"
  shows "libc_valid_ops m r f tn i rs d = Inl (Exit 1)"
  using assms
proof (induction rs arbitrary: i d)
  case (Cons x rs)
  show ?case
  proof (cases "libc_speed_op m r f x d")
    case (Inl y)
    then have "libc_speed_op m r f x d = Inl (Exit 1)" using Cons.prems(1) by (simp add: prog_eval)
    from libc_op_exit [OF this Cons.prems(2)] show ?thesis by (simp add: prog_eval)
  next
    case (Inr z)
    obtain d1 where d1: "libc_speed_op m r f x d = Inr ((), d1)" using Inr by (cases z) auto
    have "errors d1 = 0" using libc_op_errors [OF d1] Cons.prems(2) by simp
    moreover have "libc_valid_op m r f tn i x d = Inr ((), d1)" using d1 by (simp add: libc_valid_op_iff)
    ultimately show ?thesis using Cons.IH [of d1] Cons.prems(1) d1 by (simp add: prog_eval)
  qed
qed (simp add: ret_apply)

section \<open>Between two traces\<close>

text \<open>
  What holds of the C library and of the driver: \<open>L\<close> is the library's invariant.
\<close>

definition slots :: "'h driver \<Rightarrow> int set" where
  "slots d = {0..<int (length (blocks d))}"

definition at_rest :: "('h \<Rightarrow> bool) \<Rightarrow> 'h driver \<Rightarrow> bool" where
  "at_rest L d \<longleftrightarrow> L (hp d) \<and> errors d = 0"

lemma libc_replay:
  assumes lib: "c_library L owned good m f r" and good: "\<forall>sz. small_ok sz \<longrightarrow> good sz"
    and d: "at_rest L d" and ok: "trace_ok (slots d) {} rs"
  shows "(\<exists>d'. eval_libc_speed m r f rs d = Inr ((), d') \<and> at_rest L d' \<and> slots d' = slots d) \<or>
    eval_libc_speed m r f rs d = Inl (Exit 1)"
proof -
  have "c_library.keeps L owned (slots d) d {}"
    using d by (simp add: c_library.keeps_def [OF lib] at_rest_def slots_def)
  from c_library.libc_trace_ok [OF lib this ok good] show ?thesis
    using libc_speed_errors d by (fastforce simp: c_library.keeps_def [OF lib] at_rest_def slots_def)
qed

lemma libc_timed:
  assumes lib: "c_library L owned good m f r" and good: "\<forall>sz. small_ok sz \<longrightarrow> good sz"
    and t: "counts_down setitimer getitimer left" and d: "at_rest L (fst (sys s))"
    and ok: "trace_ok (slots (fst (sys s))) {} rs"
  shows "(\<exists>x s'. time_driver setitimer getitimer (eval_libc_speed m r f rs) s = Inr (x, s') \<and> at_rest L (fst (sys s'))) \<or>
    time_driver setitimer getitimer (eval_libc_speed m r f rs) s = Inl (Exit 1)"
proof -
  have many: "(\<exists>d'. repeatedly n (eval_libc_speed m r f rs) d = Inr ((), d') \<and> at_rest L d') \<or>
      repeatedly n (eval_libc_speed m r f rs) d = Inl (Exit 1)" if "at_rest L d" "trace_ok (slots d) {} rs" for n d
    using that
  proof (induction n arbitrary: d)
    case (Suc n)
    from libc_replay [OF lib good Suc.prems] Suc.IH Suc.prems(2) show ?case
      by (fastforce simp: seqp_apply)
  qed (simp add: ret_apply)
  show ?thesis
    using many [OF d ok, of 10] time_driver_runs [OF t, of "eval_libc_speed m r f rs" s] by fastforce
qed

section \<open>The traces\<close>

lemma libc_trace_run:
  assumes lib: "c_library L owned good m f r" and good: "\<forall>sz. small_ok sz \<longrightarrow> good sz"
    and t: "counts_down setitimer getitimer left" and g: "good_trace e dir t" and d: "at_rest L (fst (sys s))"
  shows "(\<exists>x s'. run_libc_trace e setitimer getitimer m r f dir i (trace_name t) s = Inr (x, s') \<and> valid x = 1 \<and>
      at_rest L (fst (sys s'))) \<or>
    run_libc_trace e setitimer getitimer m r f dir i (trace_name t) s = Inl (Exit 1)"
proof -
  let ?ws = "junk_words e (nat (num_ids t))"
  let ?rs = "map2 stored (junk_ops e (length (ops t))) (ops t)"
  let ?d = "(fst (sys s))\<lparr>blocks := ?ws, block_sizes := ?ws\<rparr>"
  have content: "read_trace e dir (trace_name t) =
      Inr (t\<lparr>ops := ?rs, trace_blocks := ?ws, trace_block_sizes := ?ws\<rparr>)"
    using g unfolding good_trace_def by (intro read_trace_show) blast+
  have d0: "at_rest L ?d" using d by (simp add: at_rest_def)
  have "length ?ws = nat (num_ids t)" using g unfolding good_trace_def by blast
  then have "slots ?d = {0..<num_ids t}" by (auto simp: slots_def)
  then have ok: "trace_ok (slots ?d) {} ?rs"
    using g same_after_storing(1) [of "junk_ops e (length (ops t))" "ops t"] by (simp add: good_trace_def)
  from libc_replay [OF lib good d0 ok] show ?thesis
  proof (elim disjE exE conjE)
    fix d1 assume d1: "eval_libc_speed m r f ?rs ?d = Inr ((), d1)" "at_rest L d1" "slots d1 = slots ?d"
    then have "eval_libc_valid m r f ?rs i ?d = Inr (1, d1)" by (simp add: eval_libc_valid_iff)
    then show ?thesis
      using libc_timed [OF lib good t, of "s\<lparr>sys := (d1, snd (sys s))\<rparr>" ?rs] d1(2,3) ok content
      by (auto simp: run_libc_trace_def prog_eval)
  next
    assume "eval_libc_speed m r f ?rs ?d = Inl (Exit 1)"
    then have "eval_libc_valid m r f ?rs i ?d = Inl (Exit 1)"
      using libc_ops_exit [of m r f ?rs ?d i 0] d0 by (simp add: eval_libc_valid_def prog_eval at_rest_def)
    then show ?thesis using content by (simp add: run_libc_trace_def prog_eval)
  qed
qed

lemma libc_traces_run:
  assumes lib: "c_library L owned good m f r" and good: "\<forall>sz. small_ok sz \<longrightarrow> good sz"
    and t: "counts_down setitimer getitimer left" and "list_all (good_trace e dir) ts" and "at_rest L (fst (sys s))"
  shows "(\<exists>xs s'. run_libc_traces e setitimer getitimer m r f dir i (map trace_name ts) s = Inr (xs, s') \<and>
      length xs = length ts \<and> list_all (\<lambda>x. valid x = 1) xs \<and> at_rest L (fst (sys s'))) \<or>
    run_libc_traces e setitimer getitimer m r f dir i (map trace_name ts) s = Inl (Exit 1)"
  using assms(4,5)
proof (induction ts arbitrary: i s)
  case (Cons t ts)
  have g: "good_trace e dir t" "list_all (good_trace e dir) ts" using Cons.prems(1) by simp_all
  from libc_trace_run [OF lib good assms(3) g(1) Cons.prems(2), of i] show ?case
  proof (elim disjE exE conjE)
    fix x s1 assume x: "run_libc_trace e setitimer getitimer m r f dir i (trace_name t) s = Inr (x, s1)" "valid x = 1"
      "at_rest L (fst (sys s1))"
    from Cons.IH [OF g(2) x(3), of "i + 1"] x(1,2) show ?thesis by (auto simp: prog_eval)
  qed (simp add: prog_eval)
qed (simp add: ret_apply)

lemma libc_package_off:
  assumes "\<not> run_libc c"
  shows "(\<exists>xs s'. run_libc_package e setitimer getitimer m r f c s =
        Inr (if run_libc c \<and> verbose c \<noteq> 0 then printresults 0 xs else [], s') \<and>
      length xs = n \<and> list_all (\<lambda>x. valid x = 1) xs) \<or>
    run_libc c \<and> run_libc_package e setitimer getitimer m r f c s = Inl (Exit 1)"
proof -
  have "\<exists>xs :: stats list. length xs = n \<and> list_all (\<lambda>x. valid x = 1) xs"
    by (intro exI [of _ "replicate n \<lparr>st_ops = 0, valid = 1, secs = 0, st_name = [], error_msg = None, util = 0\<rparr>"])
      (simp add: list_all_iff)
  then show ?thesis using assms by (auto simp: run_libc_package_def ret_apply)
qed

lemma libc_package_run:
  assumes "c_library L owned good m f r" and "\<forall>sz. small_ok sz \<longrightarrow> good sz" and "counts_down setitimer getitimer left"
    and "list_all (good_trace e (tracedir c)) ts" and "at_rest L (fst (sys s))"
    and c: "tracefiles c = Some (map trace_name ts)" "malloc_ok e (num_tracefiles c * 2080)"
  shows "(\<exists>xs s'. run_libc_package e setitimer getitimer m r f c s =
        Inr (if run_libc c \<and> verbose c \<noteq> 0 then printresults 0 xs else [], s') \<and>
      length xs = length ts \<and> list_all (\<lambda>x. valid x = 1) xs) \<or>
    run_libc c \<and> run_libc_package e setitimer getitimer m r f c s = Inl (Exit 1)"
proof (cases "run_libc c")
  case True
  from libc_traces_run [OF assms(1-5), of 0] show ?thesis
  proof (elim disjE exE conjE)
    fix xs s' assume xs: "run_libc_traces e setitimer getitimer m r f (tracedir c) 0 (map trace_name ts) s = Inr (xs, s')"
      "length xs = length ts" "list_all (\<lambda>x. valid x = 1) xs" "at_rest L (fst (sys s'))"
    then have "run_libc_package e setitimer getitimer m r f c s = Inr (if verbose c \<noteq> 0 then printresults 0 xs else [], s')"
      using True c by (simp add: run_libc_package_def prog_eval at_rest_def)
    then show ?thesis using xs(2,3) True by auto
  next
    assume "run_libc_traces e setitimer getitimer m r f (tracedir c) 0 (map trace_name ts) s = Inl (Exit 1)"
    then show ?thesis using True c by (simp add: run_libc_package_def prog_eval)
  qed
qed (rule libc_package_off)

section \<open>The program\<close>

text \<open>What the run with \<^verbatim>\<open>-l\<close> relies on: the contract of the C library.\<close>

definition libc_side_ok ::
  "('h \<Rightarrow> bool) \<Rightarrow> ('h \<Rightarrow> payloads) \<Rightarrow> (int \<Rightarrow> bool) \<Rightarrow> (int \<Rightarrow> ('h, int) prog) \<Rightarrow> (int \<Rightarrow> ('h, unit) prog) \<Rightarrow>
   (int \<Rightarrow> int \<Rightarrow> ('h, int) prog) \<Rightarrow> 'h driver \<Rightarrow> bool" where
  "libc_side_ok L owned good m f r d \<longleftrightarrow>
     c_library L owned good m f r \<and> (\<forall>sz. small_ok sz \<longrightarrow> good sz) \<and> L (hp d) \<and> errors d = 0"

lemma program_runs:
  assumes options: "read_options options initial_config = Inr (Run c)" and "counts_down setitimer getitimer left"
    and c: "tracefiles c = Some (map trace_name ts)" "num_tracefiles c = int (length ts)"
    and g: "list_all (good_trace e (tracedir c)) ts" and mem: "malloc_ok e (num_tracefiles c * 2080)"
    and "0 < lo" "lo mod 8 = 0" "lo + MAX_HEAP < 2 ^ 62" and "\<not> libc_out (mm_side p)" "errors (mm_side p) = 0"
    and "concat (map ops ts) \<noteq> []"
    and lib: "run_libc c \<longrightarrow> libc_side_ok L owned good m f r (libc_side p)"
  shows "(\<exists>table rep p'. program e setitimer getitimer m r f (Some lo) can_open can_write input options p =
        Inr (Results table rep, p') \<and>
      (\<exists>xs. table = (if run_libc c \<and> verbose c \<noteq> 0 then printresults 0 xs else []) \<and>
        length xs = length ts \<and> list_all (\<lambda>x. valid x = 1) xs) \<and>
      reports (mm_side p') = reports (mm_side p) \<and> numcorrect rep = int (length ts) \<and>
      (\<not> gradescope c \<longrightarrow> (\<exists>x. perfindex rep = Some x \<and> 0 \<le> x \<and> x \<le> 100))) \<or>
    run_libc c \<and> program e setitimer getitimer m r f (Some lo) can_open can_write input options p = Inl (Exit 1)"
proof -
  let ?l = "with_driver (libc_side p) (timer_side p)"
  have libc: "(\<exists>xs s'. run_libc_package e setitimer getitimer m r f c ?l =
        Inr (if run_libc c \<and> verbose c \<noteq> 0 then printresults 0 xs else [], s') \<and>
      length xs = length ts \<and> list_all (\<lambda>x. valid x = 1) xs) \<or>
    run_libc c \<and> run_libc_package e setitimer getitimer m r f c ?l = Inl (Exit 1)"
  proof (cases "run_libc c")
    case True
    then have l: "c_library L owned good m f r" "\<forall>sz. small_ok sz \<longrightarrow> good sz" "at_rest L (fst (sys ?l))"
      using lib by (simp_all add: libc_side_ok_def at_rest_def with_driver_def)
    show ?thesis by (rule libc_package_run [OF l(1,2) assms(2) g l(3) c(1) mem])
  next
    case False
    then show ?thesis by (rule libc_package_off)
  qed
  note run = program_def on_libc_side_def on_mm_side_def on_Mhz_def init_fsecs_def prog_eval
  from libc show ?thesis
  proof (elim disjE exE conjE)
    fix xs l
    define table where "table = (if run_libc c \<and> verbose c \<noteq> 0 then printresults 0 xs else [])"
    assume l: "run_libc_package e setitimer getitimer m r f c ?l =
        Inr (if run_libc c \<and> verbose c \<noteq> 0 then printresults 0 xs else [], l)"
      "length xs = length ts" "list_all (\<lambda>x. valid x = 1) xs"
    let ?m = "with_driver (mm_side p) (without_driver l)"
    have pair: "fst (sys ?m) = mm_side p" by (simp add: with_driver_def)
    then have m: "\<not> libc_out (fst (sys ?m))" "errors (fst (sys ?m)) = 0" using assms(10,11) by simp_all
    obtain rep s' where rep: "run_main e setitimer getitimer (Some lo) can_open can_write c ?m = Inr (rep, s')"
        "reports (fst (sys s')) = reports (mm_side p)" "numcorrect rep = int (length ts)"
        "\<not> gradescope c \<longrightarrow> (\<exists>x. perfindex rep = Some x \<and> 0 \<le> x \<and> x \<le> 100)"
      using run_main_ok [OF assms(2) c g mem assms(7-9) m assms(12), of can_open can_write] unfolding pair by blast
    let ?p = "p\<lparr>Mhz := 0, libc_side := fst (sys l), mm_side := fst (sys s'), timer_side := without_driver s'\<rparr>"
    have "program e setitimer getitimer m r f (Some lo) can_open can_write input options p = Inr (Results table rep, ?p)"
      using options rep(1) l(1) by (simp add: run flip: table_def)
    moreover have "reports (mm_side ?p) = reports (mm_side p)" using rep(2) by simp
    ultimately show ?thesis using rep(3,4) l(2,3) table_def by blast
  next
    assume "run_libc c" "run_libc_package e setitimer getitimer m r f c ?l = Inl (Exit 1)"
    then show ?thesis using options by (simp add: run)
  qed
qed

section \<open>The REPL from the command line\<close>

text \<open>
  With the option \<^verbatim>\<open>-r\<close> the program opens the REPL on a fresh heap and closes it at the
  end of the input, when the lines are sensible from the state the REPL starts in
  and none of them quits.
\<close>

lemma program_opens_repl:
  assumes "read_options options initial_config = Inr Start_Repl"
    and d: "\<not> libc_out (mm_side p)" "errors (mm_side p) + 1 < 2 ^ 31" "- (2 ^ 31) \<le> errors (mm_side p) + 1"
    and vm: "0 < lo" "lo mod 8 = 0" "lo + MAX_HEAP < 2 ^ 62"
    and lines: "\<forall>r. repl_ok r \<and> counters_ok r \<and> valid_ids r = {} \<longrightarrow> sensible_run r (lines_of input)"
    and stays: "\<not> list_ex quits (lines_of input)"
  shows "\<exists>r p'. program e setitimer getitimer m rl fr (Some lo) can_open can_write input options p =
      Inr (Repl_Closed (out r), p') \<and> repl_ok r \<and> p' = p\<lparr>mm_side := (drv r)\<lparr>ranges := []\<rparr>\<rparr>"
proof -
  obtain r0 where r0: "repl_ok r0" "counters_ok r0" "valid_ids r0 = {}"
      "run_driver (Some lo) input (mm_side p) = seqp (repl_loop input) (on_drv clear_ranges) r0"
    by (rule run_driver_start [OF d vm, of input])
  then obtain r where r: "repl_loop input r0 = Inr ((), r)" "repl_ok r"
    using repl_session_ok [of r0 input] lines stays by auto
  have "run_driver (Some lo) input (mm_side p) = Inr ((), r\<lparr>drv := (drv r)\<lparr>ranges := []\<rparr>\<rparr>)"
    using r0(4) r(1) by (simp add: seqp_apply on_drv_apply clear_ranges_def modify_apply)
  then have "program e setitimer getitimer m rl fr (Some lo) can_open can_write input options p =
      Inr (Repl_Closed (out r), p\<lparr>mm_side := (drv r)\<lparr>ranges := []\<rparr>\<rparr>)"
    using assms(1) by (simp add: program_def)
  then show ?thesis using r(2) by blast
qed

end
