(* ===== verification/Fcyc.thy ===== *)
theory Fcyc
  imports Prelude Complex_Main "HOL-Library.Multiset"
begin

text \<open>
  The K-best measurement scheme of \<^verbatim>\<open>fcyc.c\<close>.  A \<open>double\<close> is a real number.  The
  function that is measured and the counters of \<^verbatim>\<open>clock.c\<close> act on a state of their
  own, the field \<open>world\<close>; they are the arguments of \<open>fcyc\<close>.

  The lemmas say that the sampler holds the \<open>kbest\<close> smallest samples in ascending
  order, and that \<open>fcyc\<close> ends after at most \<open>maxsamples\<close> runs with the smallest
  sample, when the cache is not cleared or \<open>clear_ok\<close> says that clearing it ends
  without an overflow.
\<close>

section \<open>State\<close>

text \<open>
  \<open>vals\<close> is the array \<open>values\<close>, \<open>None\<close> when it is \<open>NULL\<close>; \<open>cache_buf\<close> is the buffer of
  \<open>clear\<close>, by index; \<open>libc_room\<close> is what \<open>calloc\<close> and \<open>malloc\<close> find: \<open>None\<close> when no memory
  is left, else the contents of a new buffer.
\<close>

record 'w sampler =
  world :: 'w
  kbest :: int
  maxsamples :: int
  epsilon :: real
  compensate :: int
  clear_cache :: int
  cache_bytes :: int
  cache_block :: int
  cache_buf :: "(int \<Rightarrow> int) option"
  vals :: "real list option"
  samplecount :: int
  sink :: int
  libc_room :: "(int \<Rightarrow> int) option"

definition on_world :: "('w, 'a) prog \<Rightarrow> ('w sampler, 'a) prog" where
  "on_world m = (\<lambda>s. case m (world s) of Inl e \<Rightarrow> Inl e | Inr (x, w) \<Rightarrow> Inr (x, s\<lparr>world := w\<rparr>))"

lemma on_world_apply [prog_eval]:
  "on_world m s = (case m (world s) of Inl e \<Rightarrow> Inl e | Inr (x, w) \<Rightarrow> Inr (x, s\<lparr>world := w\<rparr>))"
  by (simp add: on_world_def)

definition get_val :: "int \<Rightarrow> ('w sampler, real) prog" where
  "get_val i = (\<lambda>s. case vals s of
       None \<Rightarrow> Inl Bad_Address
     | Some vs \<Rightarrow> if 0 \<le> i \<and> i < int (length vs) then Inr (vs ! nat i, s) else Inl Bad_Address)"

definition set_val :: "int \<Rightarrow> real \<Rightarrow> ('w sampler, unit) prog" where
  "set_val i x = (\<lambda>s. case vals s of
       None \<Rightarrow> Inl Bad_Address
     | Some vs \<Rightarrow> if 0 \<le> i \<and> i < int (length vs) then Inr ((), s\<lparr>vals := Some (vs[nat i := x])\<rparr>)
         else Inl Bad_Address)"

section \<open>The sampler\<close>

definition init_sampler :: "('w sampler, unit) prog" where
  "init_sampler =
     seqp (modify (\<lambda>s. s\<lparr>vals := (case libc_room s of
         None \<Rightarrow> None | Some _ \<Rightarrow> Some (replicate (nat (kbest s)) 0))\<rparr>))
    (modify (\<lambda>s. s\<lparr>samplecount := 0\<rparr>))"

text \<open>The insertion sort, from position \<open>pos\<close> downwards.\<close>

fun insert_down :: "nat \<Rightarrow> ('w sampler, unit) prog" where
  "insert_down 0 = ret ()"
| "insert_down (Suc p) =
     bnd (get_val (int p)) (\<lambda>a. bnd (get_val (int p + 1)) (\<lambda>b.
       if a > b then
         seqp (set_val (int p) b) (seqp (set_val (int p + 1) a) (insert_down p))
       else ret ()))"

definition add_sample :: "real \<Rightarrow> ('w sampler, unit) prog" where
  "add_sample val =
     bnd (gets samplecount) (\<lambda>n. bnd (gets kbest) (\<lambda>k.
     bnd (if n < k then seqp (set_val n val) (ret n)
          else
            bnd (get_val (k - 1)) (\<lambda>worst.
              if val < worst then seqp (set_val (k - 1) val) (ret (k - 1)) else ret 0)) (\<lambda>pos.
     bnd (int_add n 1) (\<lambda>n'.
     seqp (modify (\<lambda>s. s\<lparr>samplecount := n'\<rparr>))
          (insert_down (nat pos))))))"

definition has_converged :: "('w sampler, bool) prog" where
  "has_converged =
     bnd (gets samplecount) (\<lambda>n. bnd (gets kbest) (\<lambda>k.
       if n \<ge> k then
         bnd (gets epsilon) (\<lambda>e.
         bnd (get_val 0) (\<lambda>best.
         bnd (get_val (k - 1)) (\<lambda>worst. ret ((1 + e) * best \<ge> worst))))
       else ret False))"

section \<open>Clearing the cache\<close>

text \<open>
  The loop of \<open>clear\<close> over the buffer with \<open>n\<close> ints, from index \<open>j\<close> in steps of
  \<open>incr\<close>, with fuel; a step of 0 never ends.
\<close>

fun clear_loop :: "nat \<Rightarrow> (int \<Rightarrow> int) \<Rightarrow> int \<Rightarrow> int \<Rightarrow> int \<Rightarrow> int \<Rightarrow> ('s, int) prog" where
  "clear_loop 0 buf n incr j x = raise Out_Of_Fuel"
| "clear_loop (Suc m) buf n incr j x =
     (if j < n then
        (if 0 \<le> j then bnd (int_add x (buf j)) (\<lambda>x'. clear_loop m buf n incr (j + incr) x')
         else raise Bad_Address)
      else ret x)"

definition clear :: "('w sampler, unit) prog" where
  "clear =
     bnd (gets sink) (\<lambda>x.
     bnd (gets (\<lambda>s. int_of_long ((cache_block s mod 2 ^ 64) div 4))) (\<lambda>incr.
     bnd (gets cache_buf) (\<lambda>buf.
     bnd (case buf of
            Some b \<Rightarrow> ret b
          | None \<Rightarrow>
              bnd (gets libc_room) (\<lambda>room.
                case room of
                  None \<Rightarrow> raise (Exit 1)
                | Some b \<Rightarrow> seqp (modify (\<lambda>s. s\<lparr>cache_buf := Some b\<rparr>)) (ret b))) (\<lambda>b.
     bnd (gets (\<lambda>s. (cache_bytes s mod 2 ^ 64) div 4)) (\<lambda>n.
     bnd (clear_loop (nat n + 1) b n incr 0 x) (\<lambda>x'.
     modify (\<lambda>s. s\<lparr>sink := x'\<rparr>)))))))"

section \<open>fcyc\<close>

text \<open>One run, with the plain or the compensating pair of counters.\<close>

definition measure_run ::
  "('w, unit) prog \<Rightarrow> ('w, unit) prog \<Rightarrow> ('w, real) prog \<Rightarrow> ('w sampler, unit) prog" where
  "measure_run f start_counter get_counter =
     bnd (gets clear_cache) (\<lambda>c.
     seqp (if c \<noteq> 0 then clear else ret ())
    (seqp (on_world start_counter)
    (seqp (on_world f)
    (bnd (on_world get_counter) add_sample))))"

fun fcyc_loop :: "nat \<Rightarrow> ('w sampler, unit) prog \<Rightarrow> ('w sampler, unit) prog" where
  "fcyc_loop 0 run = raise Out_Of_Fuel"
| "fcyc_loop (Suc m) run =
     seqp run
    (bnd has_converged (\<lambda>c. bnd (gets samplecount) (\<lambda>n. bnd (gets maxsamples) (\<lambda>most.
       if \<not> c \<and> n < most then fcyc_loop m run else ret ()))))"

definition fcyc ::
  "('w, unit) prog \<Rightarrow> ('w, unit) prog \<Rightarrow> ('w, unit) prog \<Rightarrow> ('w, real) prog \<Rightarrow> ('w, real) prog \<Rightarrow>
   ('w sampler, real) prog" where
  "fcyc f start_counter start_comp_counter get_counter get_comp_counter =
     seqp init_sampler
    (bnd (gets compensate) (\<lambda>c.
     bnd (gets maxsamples) (\<lambda>most.
     seqp (fcyc_loop (nat most + 1)
            (if c \<noteq> 0 then measure_run f start_comp_counter get_comp_counter
             else measure_run f start_counter get_counter))
    (bnd (get_val 0) (\<lambda>result.
     seqp (modify (\<lambda>s. s\<lparr>vals := None\<rparr>))
          (ret result))))))"

section \<open>Parameters\<close>

definition set_fcyc_clear_cache :: "int \<Rightarrow> ('w sampler, unit) prog" where
  "set_fcyc_clear_cache c = modify (\<lambda>s. s\<lparr>clear_cache := c\<rparr>)"

definition set_fcyc_cache_size :: "int \<Rightarrow> ('w sampler, unit) prog" where
  "set_fcyc_cache_size bytes =
     bnd (gets cache_bytes) (\<lambda>old.
       if bytes \<noteq> old then
         seqp (modify (\<lambda>s. s\<lparr>cache_bytes := bytes\<rparr>)) (modify (\<lambda>s. s\<lparr>cache_buf := None\<rparr>))
       else ret ())"

definition set_fcyc_cache_block :: "int \<Rightarrow> ('w sampler, unit) prog" where
  "set_fcyc_cache_block bytes = modify (\<lambda>s. s\<lparr>cache_block := bytes\<rparr>)"

definition set_fcyc_compensate :: "int \<Rightarrow> ('w sampler, unit) prog" where
  "set_fcyc_compensate c = modify (\<lambda>s. s\<lparr>compensate := c\<rparr>)"

definition set_fcyc_k :: "int \<Rightarrow> ('w sampler, unit) prog" where
  "set_fcyc_k k = modify (\<lambda>s. s\<lparr>kbest := k\<rparr>)"

definition set_fcyc_maxsamples :: "int \<Rightarrow> ('w sampler, unit) prog" where
  "set_fcyc_maxsamples n = modify (\<lambda>s. s\<lparr>maxsamples := n\<rparr>)"

definition set_fcyc_epsilon :: "real \<Rightarrow> ('w sampler, unit) prog" where
  "set_fcyc_epsilon e = modify (\<lambda>s. s\<lparr>epsilon := e\<rparr>)"

text \<open>The initial values of the static variables, around a given world.\<close>

definition default_sampler :: "'w \<Rightarrow> (int \<Rightarrow> int) option \<Rightarrow> 'w sampler" where
  "default_sampler w room =
     \<lparr>world = w, kbest = 3, maxsamples = 20, epsilon = 0.01, compensate = 0, clear_cache = 0,
      cache_bytes = push_bit 19 1, cache_block = 32, cache_buf = None, vals = None, samplecount = 0,
      sink = 0, libc_room = room\<rparr>"

section \<open>The smallest samples\<close>

text \<open>Where a value goes in a sorted list, behind the values that are not larger.\<close>

definition ins :: "real \<Rightarrow> real list \<Rightarrow> real list" where
  "ins v xs = takeWhile (\<lambda>x. x \<le> v) xs @ v # dropWhile (\<lambda>x. x \<le> v) xs"

lemma sort_snoc: "sort (cs @ [v]) = ins v (sort cs)"
proof (rule properties_for_sort)
  show "mset (ins v (sort cs)) = mset (cs @ [v])"
    by (simp add: ins_def) (metis mset_append mset_sort takeWhile_dropWhile_id)
  have d: "v \<le> x" if "x \<in> set (dropWhile (\<lambda>x. x \<le> v) xs)" "sorted xs" for x and xs :: "real list"
    using that by (induction xs) (auto split: if_splits)
  have "sorted (takeWhile (\<lambda>x. x \<le> v) (sort cs) @ dropWhile (\<lambda>x. x \<le> v) (sort cs))" by simp
  then show "sorted (ins v (sort cs))"
    using d [of _ "sort cs"] by (auto simp: ins_def sorted_append dest: set_takeWhileD simp del: takeWhile_dropWhile_id)
qed

lemma length_takeWhile_nth:
  assumes "sorted xs" and "k < length xs"
  shows "k < length (takeWhile (\<lambda>x. x \<le> v) xs) \<longleftrightarrow> xs ! k \<le> (v :: real)"
  using assms
proof (induction xs arbitrary: k)
  case (Cons x xs)
  show ?case
  proof (cases k)
    case (Suc j)
    then have "j < length xs" "x \<le> xs ! j" using Cons.prems by simp_all
    then have "\<not> xs ! j \<le> v" if "\<not> x \<le> v" using that by linarith
    then show ?thesis using Cons.IH [of j] Cons.prems Suc by (cases "x \<le> v") simp_all
  qed simp
qed simp

lemma ins_snoc_less:
  assumes "v < u"
  shows "ins v (us @ [u]) = ins v us @ [u]"
proof (cases "\<forall>x\<in>set us. x \<le> v")
  case True
  then have t: "takeWhile (\<lambda>x. x \<le> v) us = us" "dropWhile (\<lambda>x. x \<le> v) us = []"
    by (simp_all add: takeWhile_eq_all_conv)
  have "ins v us = us @ [v]" unfolding ins_def t by simp
  moreover have "ins v (us @ [u]) = us @ [v, u]"
    using assms True by (simp add: ins_def takeWhile_append2 dropWhile_append2)
  ultimately show ?thesis by simp
next
  case False
  then show ?thesis by (auto simp: ins_def takeWhile_append1 dropWhile_append1)
qed

lemma ins_snoc_ge:
  assumes "sorted (us @ [u])" and "u \<le> v"
  shows "ins v (us @ [u]) = us @ [u, v]"
proof -
  have "x \<le> v" if "x \<in> set (us @ [u])" for x using that assms by (auto simp: sorted_append)
  then have "takeWhile (\<lambda>x. x \<le> v) (us @ [u]) = us @ [u]" "dropWhile (\<lambda>x. x \<le> v) (us @ [u]) = []"
    by (simp_all add: takeWhile_eq_all_conv)
  then show ?thesis unfolding ins_def by simp
qed

lemma insert_down_ok:
  assumes "vals s = Some (xs @ v # ys)" and "sorted xs"
  shows "insert_down (length xs) s = Inr ((), s\<lparr>vals := Some (ins v xs @ ys)\<rparr>)"
  using assms
proof (induction xs arbitrary: s ys rule: rev_induct)
  case Nil
  then show ?case by (simp add: ret_apply ins_def)
next
  case (snoc u us)
  have at: "get_val (int (length us)) s = Inr (u, s)" "get_val (int (length us) + 1) s = Inr (v, s)"
    using snoc.prems(1) by (simp_all add: get_val_def nat_add_distrib nth_append)
  show ?case
  proof (cases "u > v")
    case True
    let ?s = "s\<lparr>vals := Some (us @ v # u # ys)\<rparr>"
    have "set_val (int (length us)) v s = Inr ((), s\<lparr>vals := Some (us @ v # v # ys)\<rparr>)"
      using snoc.prems(1) by (simp add: set_val_def list_update_append)
    moreover have "set_val (int (length us) + 1) u (s\<lparr>vals := Some (us @ v # v # ys)\<rparr>) = Inr ((), ?s)"
      by (simp add: set_val_def nat_add_distrib list_update_append)
    ultimately have "insert_down (length (us @ [u])) s = insert_down (length us) ?s"
      using at True by (simp add: bnd_apply seqp_apply)
    also have "\<dots> = Inr ((), ?s\<lparr>vals := Some (ins v us @ u # ys)\<rparr>)"
      using snoc.prems(2) by (intro snoc.IH) (simp_all add: sorted_append)
    finally show ?thesis using ins_snoc_less [OF True] by simp
  next
    case False
    then show ?thesis
      using at snoc.prems ins_snoc_ge [OF snoc.prems(2)] by (simp add: bnd_apply ret_apply)
  qed
qed

text \<open>The sampler after the samples \<open>cs\<close>.\<close>

definition best :: "nat \<Rightarrow> real list \<Rightarrow> real list" where
  "best k cs = take k (sort cs) @ replicate (k - length cs) 0"

definition sampled :: "real list \<Rightarrow> 'w sampler \<Rightarrow> bool" where
  "sampled cs s \<longleftrightarrow> 0 < kbest s \<and> samplecount s = int (length cs) \<and>
     vals s = Some (best (nat (kbest s)) cs)"

lemma best_length: "length (best k cs) = k"
  by (simp add: best_def)

lemma while_split:
  assumes "\<forall>x\<in>set t. P x" and "r = [] \<or> \<not> P (hd r)"
  shows "takeWhile P (t @ r) = t" and "dropWhile P (t @ r) = r"
  using assms by (cases r; simp add: takeWhile_append2 dropWhile_append2)+

lemma take_ins:
  assumes "sorted xs" and "k < length xs"
  shows "take (Suc k) (ins v xs) = (if xs ! k \<le> v then take (Suc k) xs else ins v (take k xs))"
proof (cases "xs ! k \<le> v")
  case True
  then have "Suc k \<le> length (takeWhile (\<lambda>x. x \<le> v) xs)" using length_takeWhile_nth [OF assms, of v] by simp
  moreover from this have "take (Suc k) xs = take (Suc k) (takeWhile (\<lambda>x. x \<le> v) xs)"
    using arg_cong [OF takeWhile_dropWhile_id [of "\<lambda>x. x \<le> v" xs], of "take (Suc k)"]
    unfolding take_append by simp
  ultimately show ?thesis using True by (simp add: ins_def)
next
  case False
  let ?t = "takeWhile (\<lambda>x. x \<le> v) xs" and ?d = "dropWhile (\<lambda>x. x \<le> v) xs"
  have len: "length ?t \<le> k" using length_takeWhile_nth [OF assms, of v] False by simp
  have k: "take k xs = ?t @ take (k - length ?t) ?d"
    using arg_cong [OF takeWhile_dropWhile_id [of "\<lambda>x. x \<le> v" xs], of "take k"] len
    unfolding take_append by simp
  have t: "\<forall>x\<in>set ?t. x \<le> v" by (auto dest: set_takeWhileD)
  have d: "take j ?d = [] \<or> \<not> hd (take j ?d) \<le> v" for j
    using hd_dropWhile [of "\<lambda>x. x \<le> v" xs] by (cases ?d; cases j) auto
  have "takeWhile (\<lambda>x. x \<le> v) (take k xs) = ?t" "dropWhile (\<lambda>x. x \<le> v) (take k xs) = take (k - length ?t) ?d"
    unfolding k using while_split [OF t d] by simp_all
  moreover have "take (Suc k) (ins v xs) = ?t @ v # take (k - length ?t) ?d"
    using len by (simp add: ins_def take_Cons' Suc_diff_le)
  ultimately show ?thesis using False by (simp add: ins_def)
qed

lemma add_sample_ok:
  assumes h: "sampled cs s" and c: "is_int (int (length cs) + 1)"
  shows "\<exists>s'. add_sample v s = Inr ((), s') \<and> sampled (cs @ [v]) s' \<and>
    s' = s\<lparr>vals := vals s', samplecount := samplecount s'\<rparr>"
proof -
  let ?k = "nat (kbest s)" and ?n = "length cs" and ?S = "sort cs"
  have k: "0 < kbest s" "0 < ?k" "samplecount s = int ?n" "vals s = Some (best ?k cs)"
    using h by (simp_all add: sampled_def)
  show ?thesis
  proof (cases "?n < ?k")
    case True
    have lt: "int ?n < kbest s" using True k by linarith
    have b: "best ?k cs = ?S @ replicate (?k - ?n) 0" "best ?k (cs @ [v]) = ins v ?S @ replicate (?k - ?n - 1) 0"
      using True by (simp_all add: best_def sort_snoc [symmetric])
    obtain m where m: "?k - ?n = Suc m" using True by (metis Suc_diff_Suc)
    let ?s = "s\<lparr>vals := Some (?S @ v # replicate m 0), samplecount := int ?n + 1\<rparr>"
    have "set_val (int ?n) v s = Inr ((), s\<lparr>vals := Some (?S @ v # replicate m 0)\<rparr>)"
      using k(4) b(1) m by (simp add: set_val_def list_update_append)
    then have "add_sample v s = insert_down (length ?S) ?s"
      using lt k c by (simp add: add_sample_def bnd_apply seqp_apply gets_apply ret_apply int_add_apply modify_apply)
    also have "\<dots> = Inr ((), ?s\<lparr>vals := Some (ins v ?S @ replicate m 0)\<rparr>)"
      by (rule insert_down_ok) simp_all
    finally show ?thesis using b(2) m k by (simp add: sampled_def)
  next
    case False
    then obtain j where j: "?k = Suc j" "j < length ?S" using k(2) by (cases ?k) auto
    have b: "best ?k cs = take ?k ?S" "best ?k (cs @ [v]) = take ?k (ins v ?S)"
      using False by (simp_all add: best_def sort_snoc)
    have ge: "\<not> int ?n < kbest s" using False k by linarith
    have kj: "kbest s - 1 = int j" using j(1) by simp
    have w: "get_val (kbest s - 1) s = Inr (?S ! j, s)"
      unfolding kj using k(4) b(1) j by (simp add: get_val_def)
    note ti = take_ins [of ?S j v, OF _ j(2)]
    show ?thesis
    proof (cases "v < ?S ! j")
      case False
      let ?s = "s\<lparr>samplecount := int ?n + 1\<rparr>"
      have "add_sample v s = Inr ((), ?s)"
        using ge k c w False
        by (simp add: add_sample_def bnd_apply seqp_apply gets_apply ret_apply int_add_apply modify_apply)
      moreover have "best ?k (cs @ [v]) = best ?k cs" using b ti j(1) False by simp
      ultimately show ?thesis using k by (auto simp: sampled_def)
    next
      case True
      let ?s = "s\<lparr>vals := Some (take j ?S @ [v]), samplecount := int ?n + 1\<rparr>"
      have "take (Suc j) ?S = take j ?S @ [?S ! j]" using j(2) by (rule take_Suc_conv_app_nth)
      then have "set_val (kbest s - 1) v s = Inr ((), s\<lparr>vals := Some (take j ?S @ [v])\<rparr>)"
        unfolding kj using k(4) b(1) j by (simp add: set_val_def list_update_append min_def)
      then have "add_sample v s = insert_down j ?s"
        using ge k c w True kj
        by (simp add: add_sample_def bnd_apply seqp_apply gets_apply ret_apply int_add_apply modify_apply)
      also have "\<dots> = Inr ((), ?s\<lparr>vals := Some (ins v (take j ?S) @ [])\<rparr>)"
        using insert_down_ok [of ?s "take j ?S" v "[]"] j(2) by (simp add: min_def sorted_wrt_take)
      finally show ?thesis using b(2) ti j(1) True k by (simp add: sampled_def)
    qed
  qed
qed

section \<open>The loop of fcyc\<close>

text \<open>The samples that a measurement yields, one run after the other.\<close>

fun times :: "('w \<Rightarrow> real \<times> 'w) \<Rightarrow> nat \<Rightarrow> 'w \<Rightarrow> real list" where
  "times r 0 w = []"
| "times r (Suc n) w = fst (r w) # times r n (snd (r w))"

lemma length_times [simp]: "length (times r n w) = n"
  by (induction n arbitrary: w) simp_all

text \<open>Convergence of a list of samples.\<close>

definition conv :: "real \<Rightarrow> nat \<Rightarrow> real list \<Rightarrow> bool" where
  "conv e k cs \<longleftrightarrow> k \<le> length cs \<and> (1 + e) * sort cs ! 0 \<ge> sort cs ! (k - 1)"

definition same_params :: "'w sampler \<Rightarrow> 'w sampler \<Rightarrow> bool" where
  "same_params s s' \<longleftrightarrow> kbest s' = kbest s \<and> maxsamples s' = maxsamples s \<and> epsilon s' = epsilon s \<and>
     clear_cache s' = clear_cache s \<and> cache_bytes s' = cache_bytes s \<and> cache_block s' = cache_block s \<and>
     compensate s' = compensate s \<and> libc_room s' = libc_room s"

text \<open>
  When \<open>n\<close> calls of \<open>clear\<close> return: they are not made, or they step through a buffer
  whose ints are so small that no sum of them leaves the range of \<open>int\<close>.  The buffer is
  the one that is there, or what \<open>malloc\<close> will give, which \<^verbatim>\<open>fcyc.c\<close> does not initialise.
\<close>

definition clear_ok :: "nat \<Rightarrow> 'w sampler \<Rightarrow> bool" where
  "clear_ok n s \<longleftrightarrow> clear_cache s = 0 \<or>
     4 \<le> cache_block s \<and> cache_block s < 2 ^ 31 \<and> 0 \<le> cache_bytes s \<and> cache_bytes s < 2 ^ 31 \<and>
     (\<exists>b m. (cache_buf s = Some b \<or> cache_buf s = None \<and> libc_room s = Some b) \<and>
        (\<forall>j. \<bar>b j\<bar> \<le> m) \<and> \<bar>sink s\<bar> + int n * (cache_bytes s div 4 * m) < 2 ^ 31)"

lemma clear_ok_mono:
  assumes "clear_ok n s" and "k \<le> n"
  shows "clear_ok k s"
proof (cases "clear_cache s = 0")
  case False
  then obtain b m where b: "4 \<le> cache_block s" "cache_block s < 2 ^ 31" "0 \<le> cache_bytes s" "cache_bytes s < 2 ^ 31"
      "cache_buf s = Some b \<or> cache_buf s = None \<and> libc_room s = Some b" "\<forall>j. \<bar>b j\<bar> \<le> m"
      "\<bar>sink s\<bar> + int n * (cache_bytes s div 4 * m) < 2 ^ 31"
    using assms(1) unfolding clear_ok_def by blast
  have "0 \<le> m" using b(6) by (metis abs_ge_zero order_trans)
  then have "int k * (cache_bytes s div 4 * m) \<le> int n * (cache_bytes s div 4 * m)"
    using assms(2) b(3) by (intro mult_right_mono) simp_all
  then have "\<bar>sink s\<bar> + int k * (cache_bytes s div 4 * m) < 2 ^ 31" using b(7) by linarith
  then show ?thesis using b(1-6) unfolding clear_ok_def by blast
qed (simp add: clear_ok_def)

lemma clear_loop_sums:
  assumes "0 < incr" and "0 \<le> j" and "\<forall>i. \<bar>b i\<bar> \<le> m" and "\<bar>x\<bar> + max 0 (n - j) * m < 2 ^ 31" and "nat (n - j) < fuel"
  shows "\<exists>y. clear_loop fuel b n incr j x s = Inr (y, s) \<and> \<bar>y\<bar> \<le> \<bar>x\<bar> + max 0 (n - j) * m"
  using assms(2,4,5)
proof (induction fuel arbitrary: j x)
  case (Suc k)
  show ?case
  proof (cases "j < n")
    case True
    have m: "0 \<le> m" using assms(3) by (metis abs_ge_zero order_trans)
    have "(n - j) * m = (n - j - 1) * m + m" by (simp add: algebra_simps)
    moreover have "max 0 (n - (j + incr)) * m \<le> (n - j - 1) * m"
      using True assms(1) m by (intro mult_right_mono) auto
    moreover have "\<bar>x + b j\<bar> \<le> \<bar>x\<bar> + m" using assms(3) [rule_format, of j] by linarith
    ultimately have le: "\<bar>x + b j\<bar> + max 0 (n - (j + incr)) * m \<le> \<bar>x\<bar> + max 0 (n - j) * m"
      using True by (simp add: max_def)
    have "\<bar>x + b j\<bar> < 2 ^ 31"
      using le Suc.prems(2) m mult_nonneg_nonneg [of "max 0 (n - (j + incr))" m] by linarith
    then have "is_int (x + b j)" unfolding is_int_def by linarith
    moreover have "nat (n - (j + incr)) < k" using Suc.prems(3) assms(1) True by linarith
    then obtain y where "clear_loop k b n incr (j + incr) (x + b j) s = Inr (y, s)"
        "\<bar>y\<bar> \<le> \<bar>x + b j\<bar> + max 0 (n - (j + incr)) * m"
      using Suc.IH [of "j + incr" "x + b j"] Suc.prems le assms(1) by auto
    ultimately show ?thesis using True Suc.prems(1) le by (auto simp: bnd_apply int_add_apply)
  next
    case False
    then show ?thesis by (simp add: ret_apply)
  qed
qed simp

lemma clear_runs:
  assumes "clear_ok (Suc n) s"
  shows "\<exists>s'. (if clear_cache s \<noteq> 0 then clear else ret ()) s = Inr ((), s') \<and> clear_ok n s' \<and>
    same_params s s' \<and> world s' = world s \<and> vals s' = vals s \<and> samplecount s' = samplecount s"
proof (cases "clear_cache s = 0")
  case True
  then show ?thesis using assms by (simp add: ret_apply same_params_def clear_ok_def)
next
  case False
  then obtain b m where c: "4 \<le> cache_block s" "cache_block s < 2 ^ 31" "0 \<le> cache_bytes s" "cache_bytes s < 2 ^ 31"
      "cache_buf s = Some b \<or> cache_buf s = None \<and> libc_room s = Some b" "\<forall>j. \<bar>b j\<bar> \<le> m"
      "\<bar>sink s\<bar> + int (Suc n) * (cache_bytes s div 4 * m) < 2 ^ 31"
    using assms unfolding clear_ok_def by blast
  let ?n = "cache_bytes s div 4"
  have m: "0 \<le> m" using c(6) by (metis abs_ge_zero order_trans)
  have sum: "int (Suc n) * (?n * m) = ?n * m + int n * (?n * m)" by (simp add: algebra_simps)
  have pos: "0 \<le> int n * (?n * m)" using c(3) m by simp
  have eq: "cache_block s mod 2 ^ 64 = cache_block s" "cache_bytes s mod 2 ^ 64 = cache_bytes s"
    using c by simp_all
  have i: "0 < cache_block s div 4" "cache_block s div 4 < 2 ^ 31" using c(1,2) by simp_all
  have iol: "int_of_long (cache_block s div 4) = cache_block s div 4"
    using i by (simp add: int_of_long_id is_int_def)
  let ?s = "s\<lparr>cache_buf := Some b\<rparr>"
  obtain y where y: "clear_loop (nat ?n + 1) b ?n (cache_block s div 4) 0 (sink s) ?s = Inr (y, ?s)"
      "\<bar>y\<bar> \<le> \<bar>sink s\<bar> + ?n * m"
    using clear_loop_sums [OF i(1), of 0 b m "sink s" ?n "nat ?n + 1" ?s] c(3,6,7) sum pos by auto
  let ?t = "?s\<lparr>sink := y\<rparr>"
  have "clear s = Inr ((), ?t)"
  proof (cases "cache_buf s")
    case None
    then show ?thesis
      using y(1) c(5) eq iol by (simp add: clear_def prog_eval del: clear_loop.simps)
  next
    case (Some b')
    then have "?s = s" using c(5) by (cases s) simp
    then show ?thesis
      using y(1) c(5) Some eq iol by (simp add: clear_def prog_eval del: clear_loop.simps)
  qed
  moreover have "\<bar>y\<bar> + int n * (?n * m) < 2 ^ 31" using y(2) c(7) sum by linarith
  then have "clear_ok n ?t" using c(1-4,6) by (auto simp: clear_ok_def)
  ultimately show ?thesis using False by (intro exI [of _ ?t]) (simp add: same_params_def)
qed

text \<open>What a measurement yields in the worlds of \<open>J\<close>, which it does not leave.\<close>

definition measures :: "('w \<Rightarrow> bool) \<Rightarrow> ('w, real) prog \<Rightarrow> ('w \<Rightarrow> real \<times> 'w) \<Rightarrow> bool" where
  "measures J m r \<longleftrightarrow> (\<forall>w. J w \<longrightarrow> m w = Inr (r w) \<and> J (snd (r w)))"

text \<open>One run adds the next sample.\<close>

lemma measure_run_ok:
  assumes h: "sampled cs s" and c: "is_int (int (length cs) + 1)" and cl: "clear_ok (Suc n) s"
    and run: "measures J (seqp start (seqp f get)) r" and J: "J (world s)"
  shows "\<exists>s'. measure_run f start get s = Inr ((), s') \<and> sampled (cs @ [fst (r (world s))]) s' \<and>
    world s' = snd (r (world s)) \<and> same_params s s' \<and> clear_ok n s' \<and> J (world s')"
proof -
  obtain s1 where s1: "(if clear_cache s \<noteq> 0 then clear else ret ()) s = Inr ((), s1)" "clear_ok n s1"
      "same_params s s1" "world s1 = world s" "vals s1 = vals s" "samplecount s1 = samplecount s"
    using clear_runs [OF cl] by blast
  obtain t w where r: "r (world s) = (t, w)" by force
  have "seqp start (seqp f get) (world s) = Inr (t, w)" "J w" using run J r by (auto simp: measures_def)
  then obtain w1 w2 where w: "start (world s) = Inr ((), w1)" "f w1 = Inr ((), w2)" "get w2 = Inr (t, w)"
    by (auto simp: seqp_apply split: sum.splits)
  let ?s = "s1\<lparr>world := w\<rparr>"
  have "sampled cs ?s" using h s1 by (simp add: sampled_def same_params_def)
  then obtain s' where s': "add_sample t ?s = Inr ((), s')" "sampled (cs @ [t]) s'"
      "s' = ?s\<lparr>vals := vals s', samplecount := samplecount s'\<rparr>"
    using add_sample_ok [OF _ c] by blast
  have p: "world s' = w" "same_params ?s s'" "clear_ok n s'"
    using s1(2) by (subst s'(3), simp add: same_params_def clear_ok_def)+
  have "measure_run f start get s = Inr ((), s')"
    using s1(1,4) w s'(1) by (simp add: measure_run_def bnd_apply seqp_apply gets_apply on_world_apply)
  moreover have "same_params s s'" using p(2) s1(3) by (simp add: same_params_def)
  ultimately show ?thesis using s'(2) p r \<open>J w\<close> by auto
qed

lemma has_converged_ok:
  assumes h: "sampled cs s" and cs: "cs \<noteq> []"
  shows "has_converged s = Inr (conv (epsilon s) (nat (kbest s)) cs, s)"
proof -
  let ?k = "nat (kbest s)"
  have k: "0 < kbest s" "samplecount s = int (length cs)" "vals s = Some (best ?k cs)"
    using h by (simp_all add: sampled_def)
  show ?thesis
  proof (cases "?k \<le> length cs")
    case True
    then have "best ?k cs = take ?k (sort cs)" by (simp add: best_def)
    moreover have "nat (kbest s - 1) = ?k - 1" using k(1) by simp
    ultimately have "get_val 0 s = Inr (sort cs ! 0, s)" "get_val (kbest s - 1) s = Inr (sort cs ! (?k - 1), s)"
      using k True by (simp_all add: get_val_def)
    moreover have "kbest s \<le> int (length cs)" using True by linarith
    ultimately show ?thesis using k True by (simp add: has_converged_def prog_eval conv_def)
  next
    case False
    then have "\<not> kbest s \<le> int (length cs)" by linarith
    then show ?thesis using k False by (simp add: has_converged_def prog_eval conv_def)
  qed
qed

lemma fcyc_loop_ok:
  assumes "sampled cs s" and "clear_ok k s" and "J (world s)" and run: "measures J (seqp start (seqp f get)) r"
    and "maxsamples s < 2 ^ 31" and "cs = [] \<or> int (length cs) < maxsamples s"
    and "nat (maxsamples s) < m + length cs" and "max 1 (maxsamples s) \<le> int (k + length cs)"
  shows "\<exists>n s'. fcyc_loop m (measure_run f start get) s = Inr ((), s') \<and> 1 \<le> n \<and> J (world s') \<and> clear_ok (k - n) s' \<and>
    same_params s s' \<and>
    sampled (cs @ times r n (world s)) s' \<and>
    int (length cs + n) \<le> max 1 (maxsamples s) \<and>
    (int (length cs + n) < maxsamples s \<longrightarrow>
       conv (epsilon s) (nat (kbest s)) (cs @ times r n (world s))) \<and>
    (\<forall>j. 1 \<le> j \<longrightarrow> j < n \<longrightarrow> \<not> conv (epsilon s) (nat (kbest s)) (cs @ times r j (world s)))"
  using assms(1-3,5-8)
proof (induction m arbitrary: cs s k)
  case 0
  then show ?case by auto
next
  case (Suc m)
  let ?t = "fst (r (world s))" and ?run = "measure_run f start get"
  obtain k' where k: "k = Suc k'" using Suc.prems(5,7) by (cases k) auto
  have "is_int (int (length cs) + 1)" using Suc.prems(4,5) by (auto simp: is_int_def)
  then obtain s1 where s1: "?run s = Inr ((), s1)" "sampled (cs @ [?t]) s1" "world s1 = snd (r (world s))"
      "same_params s s1" "clear_ok k' s1" "J (world s1)"
    using measure_run_ok [OF Suc.prems(1) _ Suc.prems(2) [unfolded k] run Suc.prems(3)] by blast
  have p: "kbest s1 = kbest s" "maxsamples s1 = maxsamples s" "epsilon s1 = epsilon s"
    using s1(4) by (simp_all add: same_params_def)
  have n1: "samplecount s1 = int (length cs) + 1" using s1(2) by (simp add: sampled_def)
  let ?c = "conv (epsilon s) (nat (kbest s)) (cs @ [?t])"
  have step: "fcyc_loop (Suc m) ?run s =
      (if \<not> ?c \<and> int (length cs) + 1 < maxsamples s then fcyc_loop m ?run s1 else Inr ((), s1))"
    using s1(1) has_converged_ok [OF s1(2)] n1 p
    by (simp add: seqp_apply bnd_apply gets_apply ret_apply)
  show ?case
  proof (cases "\<not> ?c \<and> int (length cs) + 1 < maxsamples s")
    case False
    have "fcyc_loop (Suc m) ?run s = Inr ((), s1)" by (rule trans [OF step if_not_P [OF False]])
    moreover have "int (length cs + 1) \<le> max 1 (maxsamples s)" using Suc.prems(5) by auto
    ultimately show ?thesis using s1(2,4-6) k False by (intro exI [of _ 1] exI [of _ s1]) auto
  next
    case True
    have "\<exists>n s'. fcyc_loop m ?run s1 = Inr ((), s') \<and> 1 \<le> n \<and> J (world s') \<and> clear_ok (k' - n) s' \<and> same_params s1 s' \<and>
        sampled ((cs @ [?t]) @ times r n (world s1)) s' \<and>
        int (length (cs @ [?t]) + n) \<le> max 1 (maxsamples s1) \<and>
        (int (length (cs @ [?t]) + n) < maxsamples s1 \<longrightarrow>
           conv (epsilon s1) (nat (kbest s1)) ((cs @ [?t]) @ times r n (world s1))) \<and>
        (\<forall>j. 1 \<le> j \<longrightarrow> j < n \<longrightarrow> \<not> conv (epsilon s1) (nat (kbest s1)) ((cs @ [?t]) @ times r j (world s1)))"
      by (rule Suc.IH [OF s1(2,5,6)]) (use True p k Suc.prems(4,6,7) in auto)
    then obtain n s' where ih: "fcyc_loop m ?run s1 = Inr ((), s')" "1 \<le> n"
        "J (world s')" "clear_ok (k' - n) s'" "same_params s1 s'"
        "sampled (cs @ ?t # times r n (world s1)) s'"
        "int (length cs + Suc n) \<le> max 1 (maxsamples s)"
        "int (length cs + Suc n) < maxsamples s \<Longrightarrow> conv (epsilon s) (nat (kbest s)) (cs @ ?t # times r n (world s1))"
        "\<And>j. 1 \<le> j \<Longrightarrow> j < n \<Longrightarrow> \<not> conv (epsilon s) (nat (kbest s)) (cs @ ?t # times r j (world s1))"
      using p by auto
    have go: "fcyc_loop (Suc m) ?run s = fcyc_loop m ?run s1" by (rule trans [OF step if_P [OF True]])
    have t: "times r (Suc j) (world s) = ?t # times r j (world s1)" for j using s1(3) by simp
    have "\<not> conv (epsilon s) (nat (kbest s)) (cs @ times r j (world s))" if "1 \<le> j" "j < Suc n" for j
    proof (cases j)
      case (Suc i)
      then show ?thesis using True ih(9) [of i] that t [of i] by (cases i) auto
    qed (use that in simp)
    moreover have "same_params s s'" using s1(4) ih(5) by (simp add: same_params_def)
    ultimately show ?thesis
      using go ih k t [of n] by (intro exI [of _ "Suc n"] exI [of _ s']) auto
  qed
qed

lemma fcyc_inv:
  assumes k: "0 < kbest s" and most: "maxsamples s < 2 ^ 31" and cl: "clear_ok b s" and b: "max 1 (maxsamples s) \<le> int b" and room: "libc_room s \<noteq> None"
    and run: "measures J (seqp (if compensate s \<noteq> 0 then start_comp else start)
      (seqp f (if compensate s \<noteq> 0 then get_comp else get))) r" and J: "J (world s)"
  shows "\<exists>n s'. fcyc f start start_comp get get_comp s = Inr (Min (set (times r n (world s))), s') \<and>
    1 \<le> n \<and> int n \<le> max 1 (maxsamples s) \<and> samplecount s' = int n \<and> vals s' = None \<and> J (world s') \<and> clear_ok (b - n) s' \<and>
    same_params s s' \<and>
    (int n < maxsamples s \<longrightarrow> conv (epsilon s) (nat (kbest s)) (times r n (world s))) \<and>
    (\<forall>j. 1 \<le> j \<longrightarrow> j < n \<longrightarrow> \<not> conv (epsilon s) (nat (kbest s)) (times r j (world s)))"
proof -
  let ?s = "s\<lparr>vals := Some (replicate (nat (kbest s)) 0), samplecount := 0\<rparr>"
  let ?run = "measure_run f (if compensate s \<noteq> 0 then start_comp else start)
      (if compensate s \<noteq> 0 then get_comp else get)"
  have init: "init_sampler s = Inr ((), ?s)" using room by (auto simp: init_sampler_def prog_eval)
  have h: "sampled [] ?s" "clear_ok b ?s" "J (world ?s)" using k cl J by (simp_all add: sampled_def best_def clear_ok_def)
  obtain n s' where l: "fcyc_loop (nat (maxsamples s) + 1) ?run ?s = Inr ((), s')" "1 \<le> n"
      "J (world s')" "clear_ok (b - n) s'" "same_params s s'"
      "sampled (times r n (world s)) s'" "int n \<le> max 1 (maxsamples s)"
      "int n < maxsamples s \<longrightarrow> conv (epsilon s) (nat (kbest s)) (times r n (world s))"
      "\<forall>j. 1 \<le> j \<longrightarrow> j < n \<longrightarrow> \<not> conv (epsilon s) (nat (kbest s)) (times r j (world s))"
    using fcyc_loop_ok [OF h run, of "nat (maxsamples s) + 1"] most b by (auto simp: same_params_def)
  let ?c = "times r n (world s)"
  have c: "?c \<noteq> []" using l(2) by (cases n) auto
  have k': "0 < kbest s'" "vals s' = Some (best (nat (kbest s')) ?c)" using l(6) by (simp_all add: sampled_def)
  have "length (sort ?c) = length ?c" by simp
  then obtain x xs where x: "sort ?c = x # xs" using c by (cases "sort ?c") auto
  obtain m where m: "nat (kbest s') = Suc m" using k'(1) by (cases "nat (kbest s')") auto
  have "set (x # xs) = set ?c" "sorted (x # xs)" using x by (metis set_sort, metis sorted_sort)
  then have "Min (set ?c) = x" by (metis Min_eqI List.finite_set list.set_intros(1) set_ConsD sorted_simps(2) order_refl)
  moreover have "get_val 0 s' = Inr (x, s')" using k'(2) x m by (simp add: get_val_def best_def)
  ultimately have "fcyc f start start_comp get get_comp s = Inr (Min (set ?c), s'\<lparr>vals := None\<rparr>)"
    using init l(1)
    by (cases "compensate s = 0") (simp_all add: fcyc_def bnd_apply seqp_apply gets_apply ret_apply modify_apply)
  then show ?thesis using l by (intro exI [of _ n] exI [of _ "s'\<lparr>vals := None\<rparr>"]) (simp add: sampled_def clear_ok_def same_params_def)
qed

lemma fcyc_ok:
  assumes "0 < kbest s" and "maxsamples s < 2 ^ 31" and "clear_ok b s" and "max 1 (maxsamples s) \<le> int b"
    and "libc_room s \<noteq> None"
    and run: "\<forall>w. seqp (if compensate s \<noteq> 0 then start_comp else start)
      (seqp f (if compensate s \<noteq> 0 then get_comp else get)) w = Inr (r w)"
  shows "\<exists>n s'. fcyc f start start_comp get get_comp s = Inr (Min (set (times r n (world s))), s') \<and>
    1 \<le> n \<and> int n \<le> max 1 (maxsamples s) \<and> samplecount s' = int n \<and> vals s' = None \<and>
    (int n < maxsamples s \<longrightarrow> conv (epsilon s) (nat (kbest s)) (times r n (world s))) \<and>
    (\<forall>j. 1 \<le> j \<longrightarrow> j < n \<longrightarrow> \<not> conv (epsilon s) (nat (kbest s)) (times r j (world s)))"
  using fcyc_inv [OF assms(1-5), of "\<lambda>_. True" start_comp start f get_comp get r] run
  by (fastforce simp: measures_def)

end
