(* ===== verification/Calibrate.thy ===== *)
theory Calibrate
  imports Timing
begin

text \<open>
  The calibration of the compensating counter in \<^verbatim>\<open>clock.c\<close>.  It waits for a hundred
  ticks of the user time, so it ends only if the clocks go on.  \<open>running_clock\<close> says
  that they do: a reading of the cycle counter takes between 1 and \<open>B\<close> cycles, at least
  one of which is spent in the program, and the user time is \<open>work\<close>, the cycles that are
  spent in the program, with a tick every \<open>P\<close> of them.
\<close>

section \<open>Clocks that go on\<close>

definition running_clock ::
  "('e, 32 word \<times> 32 word) prog \<Rightarrow> ('e, int) prog \<Rightarrow> ('e \<Rightarrow> int) \<Rightarrow> ('e \<Rightarrow> int) \<Rightarrow> int \<Rightarrow> int \<Rightarrow> bool" where
  "running_clock access_counter utime cyc work P B \<longleftrightarrow> 0 < P \<and> 0 \<le> B \<and>
     (\<forall>e. utime e = Inr (work e div P, e)) \<and>
     (\<forall>e. \<exists>e'. access_counter e = Inr ((word_of_int (cyc e div 2 ^ 32), word_of_int (cyc e)), e') \<and>
        cyc e < cyc e' \<and> cyc e' \<le> cyc e + B \<and> work e < work e')"

definition started :: "int \<Rightarrow> 'e clock \<Rightarrow> bool" where
  "started c0 s \<longleftrightarrow> cyc_hi s = word_of_int (c0 div 2 ^ 32) \<and> cyc_lo s = word_of_int c0"

lemma halves: "cycles (word_of_int (c div 2 ^ 32)) (word_of_int c) = c mod 2 ^ 64"
proof -
  have "cycles (word_of_int (c div 2 ^ 32)) (word_of_int c) = (c div 2 ^ 32) mod 2 ^ 32 * 2 ^ 32 + c mod 2 ^ 32"
    by (simp add: cycles_def uint_word_of_int)
  also have "\<dots> = (c div 2 ^ 32 * 2 ^ 32 + c mod 2 ^ 32) mod 2 ^ 64"
    by (rule high_low_mod) simp_all
  finally show ?thesis by simp
qed

lemma read_counter:
  assumes clock: "running_clock access_counter utime cyc work P B"
    and "started c0 s" and "c0 \<le> cyc (env s)" and "cyc (env s) - c0 < 2 ^ 64"
  obtains e' where "get_counter access_counter s = Inr (real_of_int (cyc (env s) - c0), s\<lparr>env := e'\<rparr>)"
    and "cyc (env s) < cyc e'" and "cyc e' \<le> cyc (env s) + B" and "work (env s) < work e'"
proof -
  obtain e' where e: "access_counter (env s) =
      Inr ((word_of_int (cyc (env s) div 2 ^ 32), word_of_int (cyc (env s))), e')"
      "cyc (env s) < cyc e'" "cyc e' \<le> cyc (env s) + B" "work (env s) < work e'"
    using clock unfolding running_clock_def by blast
  have "(cyc (env s) mod 2 ^ 64 - c0 mod 2 ^ 64) mod 2 ^ 64 = cyc (env s) - c0"
    using assms(3,4) by (simp add: mod_diff_eq)
  then have "get_counter access_counter s = Inr (real_of_int (cyc (env s) - c0), s\<lparr>env := e'\<rparr>)"
    using get_counter_ok [of access_counter s, OF e(1)] assms(2) unfolding started_def by (simp only: halves)
  then show thesis using that e(2-4) by blast
qed

section \<open>The loop\<close>

text \<open>
  \<open>waiting P t c now w\<close>: the readings until the next event at most, at time \<open>now\<close> with
  \<open>w\<close> cycles of user time, when \<open>t\<close> is the time that the loop compares with and \<open>c\<close> the
  ticks at the last event: until the next tick every reading is one cycle of user time
  nearer to it, and after it the next gap is an event.
\<close>

definition waiting :: "int \<Rightarrow> int \<Rightarrow> int \<Rightarrow> int \<Rightarrow> int \<Rightarrow> int" where
  "waiting P t c now w = (if w < (c + 1) * P then (c + 1) * P - w + 1000 else max 0 (t + 1000 - now))"

lemma waiting_nonneg: "0 \<le> waiting P t c now w"
  by (simp add: waiting_def)

text \<open>The rounds that are left after \<open>k\<close> events.\<close>

definition rounds :: "int \<Rightarrow> int \<Rightarrow> int \<Rightarrow> int" where
  "rounds P k w = (NEVENT - 1 - k) * (P + 1001) + w + 1"

text \<open>What a ratio that is recorded looks like.\<close>

definition recorded :: "real \<Rightarrow> real \<Rightarrow> bool" where
  "recorded c0 c \<longleftrightarrow> c = c0 \<or> RECORDTHRESH < c \<and> (c0 = 0 \<or> c < c0)"

lemma recorded_refl: "recorded c c"
  by (simp add: recorded_def)

lemma recorded_trans: "0 \<le> c0 \<Longrightarrow> recorded c0 c1 \<Longrightarrow> recorded c1 c2 \<Longrightarrow> recorded c0 c2"
  by (auto simp: recorded_def RECORDTHRESH_def)

text \<open>One round, in the state that a reading at time \<open>now\<close> leaves.\<close>

definition after_event :: "real \<Rightarrow> 'e clock \<Rightarrow> 'e clock" where
  "after_event cpt s =
     (if (cyc_per_tick s = 0 \<or> cyc_per_tick s > cpt) \<and> cpt > RECORDTHRESH then s\<lparr>cyc_per_tick := cpt\<rparr> else s)"

lemma loop_round:
  assumes clock: "running_clock access_counter utime cyc work P B" and "k < NEVENT"
    and "get_counter access_counter s = Inr (real_of_int (now - c0), s\<lparr>env := e'\<rparr>)"
  shows "callibrate_loop (Suc m) access_counter utime (real_of_int (t - c0)) c k s =
    (if 1000 \<le> now - t then
       if c < work e' div P then
         callibrate_loop m access_counter utime (real_of_int (now - c0)) (work e' div P) (k + 1)
           (after_event (real_of_int (now - t) / real_of_int (work e' div P - c)) (s\<lparr>env := e'\<rparr>))
       else callibrate_loop m access_counter utime (real_of_int (now - c0)) c k (s\<lparr>env := e'\<rparr>)
     else callibrate_loop m access_counter utime (real_of_int (t - c0)) c k (s\<lparr>env := e'\<rparr>))"
proof -
  have tick: "utime e = Inr (work e div P, e)" for e using clock by (simp add: running_clock_def)
  have gap: "real_of_int (now - c0) - real_of_int (t - c0) = real_of_int (now - t)" by simp
  have "THRESHOLD \<le> real_of_int (now - t) \<longleftrightarrow> 1000 \<le> now - t" unfolding THRESHOLD_def by linarith
  then show ?thesis
    using assms(2,3) unfolding callibrate_loop.simps(2)
    by (simp add: prog_eval tick Let_def after_event_def gap del: callibrate_loop.simps of_int_diff)
qed

lemma loop_ok:
  assumes clock: "running_clock access_counter utime cyc work P B"
    and "started c0 s" and "c0 \<le> t" "t \<le> cyc (env s)" and "0 \<le> k" "k \<le> NEVENT"
    and "k < NEVENT \<longrightarrow> rounds P k (waiting P t c (cyc (env s)) (work (env s))) \<le> int m"
    and "cyc (env s) - c0 + int m * B < 2 ^ 64" and "0 \<le> cyc_per_tick s"
  shows "\<exists>s'. callibrate_loop (Suc m) access_counter utime (real_of_int (t - c0)) c k s = Inr ((), s') \<and>
    started c0 s' \<and> recorded (cyc_per_tick s) (cyc_per_tick s')"
  using assms(2-9)
proof (induction m arbitrary: s t c k)
  case 0
  have period: "0 < P" using clock by (simp add: running_clock_def)
  have "k = NEVENT"
  proof (rule ccontr)
    assume "k \<noteq> NEVENT"
    then have "k < NEVENT" using 0 by simp
    moreover from this have "0 \<le> (NEVENT - 1 - k) * (P + 1001)" using period by simp
    ultimately show False using 0 waiting_nonneg [of P t c "cyc (env s)" "work (env s)"] by (simp add: rounds_def)
  qed
  then show ?case using 0 by (simp add: ret_apply recorded_refl)
next
  case (Suc m)
  have period: "0 < P" and B: "0 \<le> B" and tick: "utime e = Inr (work e div P, e)" for e
    using clock by (simp_all add: running_clock_def)
  show ?case
  proof (cases "k < NEVENT")
    case False
    then show ?thesis using Suc.prems by (simp add: ret_apply recorded_refl)
  next
    case True
    let ?now = "cyc (env s)" and ?w = "work (env s)"
    have room: "rounds P k (waiting P t c ?now ?w) \<le> int (Suc m)" using Suc.prems(6) True by blast
    have mB: "int (Suc m) * B = int m * B + B" "0 \<le> int m * B"
      using B by (simp_all add: algebra_simps)
    have "c0 \<le> ?now" "?now - c0 < 2 ^ 64" using Suc.prems(2,3,7) mB B by linarith+
    then obtain e' where e': "get_counter access_counter s = Inr (real_of_int (?now - c0), s\<lparr>env := e'\<rparr>)"
        "?now < cyc e'" "cyc e' \<le> ?now + B" "?w < work e'"
      using read_counter [OF clock Suc.prems(1)] by blast
    let ?s = "s\<lparr>env := e'\<rparr>"
    have st: "started c0 ?s" "cyc (env ?s) - c0 + int m * B < 2 ^ 64"
      using Suc.prems(1,7) e'(3) mB by (simp_all add: started_def)
    note go = loop_round [OF clock True e'(1), of "Suc m" t c]
    have tick': "work e' < (work e' div P + 1) * P"
      using div_mult_mod_eq [of "work e'" P] pos_mod_bound [OF period, of "work e'"]
      unfolding distrib_right by linarith
    have late: "work e' < (c + 1) * P" if "\<not> c < work e' div P"
    proof -
      have "(work e' div P + 1) * P \<le> (c + 1) * P" using that period by simp
      then show ?thesis using tick' by linarith
    qed
    show ?thesis
    proof (cases "1000 \<le> ?now - t")
      case gap: True
      show ?thesis
      proof (cases "c < work e' div P")
        case event: True
        let ?u = "after_event (real_of_int (?now - t) / real_of_int (work e' div P - c)) ?s"
        have u: "started c0 ?u" "env ?u = e'" "0 \<le> cyc_per_tick ?u" "recorded (cyc_per_tick s) (cyc_per_tick ?u)"
          using st(1) Suc.prems(8) by (auto simp: after_event_def started_def recorded_def RECORDTHRESH_def)
        let ?W = "waiting P ?now (work e' div P) (cyc e') (work e')"
        have "work e' div P * P \<le> work e'"
          using div_mult_mod_eq [of "work e'" P] pos_mod_sign [OF period, of "work e'"] by linarith
        then have d: "?W \<le> P + 1000"
          using tick' by (simp add: waiting_def algebra_simps)
        have "(NEVENT - 1 - k) * (P + 1001) = (NEVENT - 1 - (k + 1)) * (P + 1001) + (P + 1001)"
          by (simp add: algebra_simps)
        then have r: "rounds P (k + 1) ?W \<le> int m"
          using room d waiting_nonneg [of P t c ?now ?w] by (simp add: rounds_def)
        have "\<exists>s'. callibrate_loop (Suc m) access_counter utime (real_of_int (?now - c0)) (work e' div P) (k + 1) ?u =
            Inr ((), s') \<and> started c0 s' \<and> recorded (cyc_per_tick ?u) (cyc_per_tick s')"
          by (rule Suc.IH) (use Suc.prems(1-5) st(2) u(1-3) r e'(2) True in \<open>simp_all del: if_split\<close>)
        then show ?thesis
          using go gap event recorded_trans [OF Suc.prems(8) u(4)] by (auto simp del: callibrate_loop.simps)
      next
        case False
        note l = late [OF False]
        then have "?w < (c + 1) * P" using e'(4) by linarith
        then have r: "rounds P k (waiting P ?now c (cyc e') (work e')) \<le> int m"
          using room l e'(4) by (simp add: rounds_def waiting_def)
        have "\<exists>s'. callibrate_loop (Suc m) access_counter utime (real_of_int (?now - c0)) c k ?s =
            Inr ((), s') \<and> started c0 s' \<and> recorded (cyc_per_tick ?s) (cyc_per_tick s')"
          by (rule Suc.IH) (use Suc.prems(1-5,8) st r e'(2) True in simp_all)
        then show ?thesis using go gap False by (simp del: callibrate_loop.simps)
      qed
    next
      case False
      have "waiting P t c (cyc e') (work e') + 1 \<le> waiting P t c ?now ?w"
        using False e'(2,4) Suc.prems(3) by (auto simp: waiting_def)
      then have r: "rounds P k (waiting P t c (cyc e') (work e')) \<le> int m"
        using room by (simp add: rounds_def)
      have "\<exists>s'. callibrate_loop (Suc m) access_counter utime (real_of_int (t - c0)) c k ?s =
          Inr ((), s') \<and> started c0 s' \<and> recorded (cyc_per_tick ?s) (cyc_per_tick s')"
        by (rule Suc.IH) (use Suc.prems(1-5,8) st r e'(2) True in simp_all)
      then show ?thesis using go False by (simp del: callibrate_loop.simps)
    qed
  qed
qed

text \<open>
  A clock is quiet when no reading takes more than 2000 cycles: then two readings that
  count as an event are less than \<open>RECORDTHRESH\<close> cycles apart, and nothing is recorded.
\<close>

lemma loop_quiet:
  assumes clock: "running_clock access_counter utime cyc work P B" and quiet: "B \<le> 2000"
    and "started c0 s" and "c0 \<le> t" "t \<le> cyc (env s)" "cyc (env s) - t < 1000 + B"
    and "cyc (env s) - c0 + int m * B < 2 ^ 64 + B"
    and "callibrate_loop m access_counter utime (real_of_int (t - c0)) c k s = Inr ((), s')"
  shows "cyc_per_tick s' = cyc_per_tick s"
  using assms(3-8)
proof (induction m arbitrary: s t c k)
  case (Suc m)
  have B: "0 \<le> B" using clock by (simp add: running_clock_def)
  show ?case
  proof (cases "k < NEVENT")
    case False
    then show ?thesis using Suc.prems(6) by (simp add: ret_apply)
  next
    case True
    let ?now = "cyc (env s)"
    have mB: "int (Suc m) * B = int m * B + B" "0 \<le> int m * B"
      using B by (simp_all add: algebra_simps)
    have "c0 \<le> ?now" "?now - c0 < 2 ^ 64" using Suc.prems(2,3,5) mB B by linarith+
    then obtain e' where e': "get_counter access_counter s = Inr (real_of_int (?now - c0), s\<lparr>env := e'\<rparr>)"
        "?now < cyc e'" "cyc e' \<le> ?now + B"
      using read_counter [OF clock Suc.prems(1)] by blast
    let ?s = "s\<lparr>env := e'\<rparr>" and ?n = "work e' div P"
    let ?u = "after_event (real_of_int (?now - t) / real_of_int (?n - c)) ?s"
    have "real_of_int (?now - t) / real_of_int (?n - c) \<le> RECORDTHRESH" if "c < ?n"
    proof -
      have "real_of_int (?now - t) \<le> RECORDTHRESH * 1" using Suc.prems(4) quiet by (simp add: RECORDTHRESH_def)
      also have "\<dots> \<le> RECORDTHRESH * real_of_int (?n - c)"
        using that by (intro mult_left_mono) (simp_all add: RECORDTHRESH_def)
      finally show ?thesis using that by (simp add: pos_divide_le_eq)
    qed
    then have u: "?u = ?s" if "c < ?n" using that by (auto simp: after_event_def)
    have st: "started c0 ?s" "cyc (env ?s) - c0 + int m * B < 2 ^ 64 + B"
      using Suc.prems(1,5) e'(3) mB by (simp_all add: started_def)
    note go = loop_round [OF clock True e'(1), of m t c]
    show ?thesis
    proof (cases "1000 \<le> ?now - t")
      case True
      obtain c' k' where "callibrate_loop m access_counter utime (real_of_int (?now - c0)) c' k' ?s = Inr ((), s')"
        using go True u Suc.prems(6) by (cases "c < ?n") (simp_all del: callibrate_loop.simps)
      then have "cyc_per_tick s' = cyc_per_tick ?s"
        by (rule Suc.IH [rotated -1]) (use st e'(2,3) Suc.prems(2,3) in simp_all)
      then show ?thesis by simp
    next
      case False
      then have "callibrate_loop m access_counter utime (real_of_int (t - c0)) c k ?s = Inr ((), s')"
        using go Suc.prems(6) by (simp del: callibrate_loop.simps)
      then have "cyc_per_tick s' = cyc_per_tick ?s"
        by (rule Suc.IH [rotated -1]) (use st e'(2,3) Suc.prems(2,3) False in simp_all)
      then show ?thesis by simp
    qed
  qed
qed (simp add: raise_apply)

section \<open>callibrate\<close>

lemma callibrate_ok:
  assumes clock: "running_clock access_counter utime cyc work P B" and m: "100 * (P + 1001) \<le> int m"
    and wrap: "(int m + 2) * B < 2 ^ 64" and pos: "0 \<le> cyc_per_tick s"
  shows "\<exists>s'. callibrate (Suc m) access_counter utime s = Inr ((), s') \<and> recorded (cyc_per_tick s) (cyc_per_tick s') \<and>
    (B \<le> 2000 \<longrightarrow> cyc_per_tick s' = cyc_per_tick s)"
proof -
  define c0 where "c0 = cyc (env s)"
  have period: "0 < P" and B: "0 \<le> B" and tick: "utime e = Inr (work e div P, e)" for e
    using clock by (simp_all add: running_clock_def)
  obtain e1 where e1: "access_counter (env s) = Inr ((word_of_int (c0 div 2 ^ 32), word_of_int c0), e1)"
      "c0 < cyc e1" "cyc e1 \<le> c0 + B" "work (env s) < work e1"
    using clock unfolding running_clock_def c0_def by blast
  let ?s1 = "s\<lparr>env := e1, cyc_hi := word_of_int (c0 div 2 ^ 32), cyc_lo := word_of_int c0\<rparr>"
  have st: "started c0 ?s1" by (simp add: started_def)
  have mB: "(int m + 2) * B = int m * B + 2 * B" "0 \<le> int m * B" using B by (simp_all add: algebra_simps)
  have "c0 \<le> cyc e1" "cyc e1 - c0 < 2 ^ 64" using e1(2,3) wrap B mB by linarith+
  then obtain e2 where e2: "get_counter access_counter ?s1 = Inr (real_of_int (cyc e1 - c0), ?s1\<lparr>env := e2\<rparr>)"
      "cyc e1 < cyc e2" "cyc e2 \<le> cyc e1 + B" "work e1 < work e2"
    using read_counter [OF clock st] by auto
  let ?s2 = "?s1\<lparr>env := e2\<rparr>"
  define c where "c = work (env s) div P"
  have "c * P \<le> work (env s)"
    unfolding c_def
    using div_mult_mod_eq [of "work (env s)" P] pos_mod_sign [OF period, of "work (env s)"] by linarith
  then have "waiting P (cyc e1) c (cyc e2) (work e2) \<le> P + 1000"
    using e1(4) e2(2,4) period by (auto simp: waiting_def algebra_simps)
  then have r: "rounds P 0 (waiting P (cyc e1) c (cyc (env ?s2)) (work (env ?s2))) \<le> int m"
    using m by (simp add: rounds_def NEVENT_def)
  have wrap': "cyc e2 - c0 + int m * B < 2 ^ 64" using e1(3) e2(3) wrap mB(1) by linarith
  have "started c0 ?s2" by (simp add: started_def)
  then have "\<exists>s'. callibrate_loop (Suc m) access_counter utime (real_of_int (cyc e1 - c0)) c 0 ?s2 =
      Inr ((), s') \<and> started c0 s' \<and> recorded (cyc_per_tick ?s2) (cyc_per_tick s')"
    by (rule loop_ok [OF clock]) (use e1(2,3) e2(2,3) r wrap' pos in \<open>simp_all add: NEVENT_def\<close>)
  then obtain s' where s': "callibrate_loop (Suc m) access_counter utime (real_of_int (cyc e1 - c0)) c 0 ?s2 =
      Inr ((), s')" "recorded (cyc_per_tick s) (cyc_per_tick s')"
    by (auto simp del: callibrate_loop.simps)
  have wrap2: "cyc e2 - c0 + int (Suc m) * B < 2 ^ 64 + B" using e1(3) e2(3) wrap mB(1) by (simp add: algebra_simps)
  have "cyc_per_tick s' = cyc_per_tick ?s2" if "B \<le> 2000"
    by (rule loop_quiet [OF clock that \<open>started c0 ?s2\<close> _ _ _ _ s'(1)]) (use e1(2,3) e2(2,3) wrap2 in simp_all)
  moreover have "callibrate (Suc m) access_counter utime s = Inr ((), s')"
    using e1(1) e2(1) s'(1)
    by (simp add: callibrate_def start_counter_def prog_eval tick c0_def c_def del: callibrate_loop.simps of_int_diff)
  ultimately show ?thesis using s'(2) by (intro exI [of _ s']) simp
qed

end
