(* ===== verification/Fsecs.thy ===== *)
theory Fsecs
  imports Fcyc Calibrate
begin

text \<open>
  \<^verbatim>\<open>fsecs.c\<close> with all three timing methods, on one state: the clock rate, the K-best
  sampler, and below them the cycle counter and the interval timers.  \<^verbatim>\<open>config.h\<close> chooses
  the method.  The lemmas bound the time that the cycle counter method reports when the
  clocks go on evenly: it measures with the compensating counters, after \<open>mhz\<close> has
  measured the clock rate.
\<close>

section \<open>The three methods\<close>

datatype timing_method = USE_FCYC | USE_ITIMER | USE_GETTOD

text \<open>The constants of \<^verbatim>\<open>config.h\<close>, and the order in which \<^verbatim>\<open>fsecs.c\<close> tests them.\<close>

definition use_constant :: "timing_method \<Rightarrow> int" where
  "use_constant x = (case x of USE_FCYC \<Rightarrow> 0 | USE_ITIMER \<Rightarrow> 1 | USE_GETTOD \<Rightarrow> 0)"

definition chosen_method :: "timing_method option" where
  "chosen_method = find (\<lambda>x. use_constant x \<noteq> 0) [USE_FCYC, USE_ITIMER, USE_GETTOD]"

lemma itimer_chosen: "chosen_method = Some USE_ITIMER"
  by (simp add: chosen_method_def use_constant_def)

text \<open>The hardware and the system calls; \<open>rounds_most\<close> is the fuel of the calibration.\<close>

record 'e machine =
  tsc :: "('e, 32 word \<times> 32 word) prog"
  user_time :: "('e, int) prog"
  sleeps :: "int \<Rightarrow> ('e, unit) prog"
  set_timer :: "itimer \<Rightarrow> int \<times> int \<Rightarrow> ('e, unit) prog"
  get_timer :: "itimer \<Rightarrow> ('e, int \<times> int) prog"
  time_of_day :: "('e, int \<times> int) prog"
  rounds_most :: nat

record 'e timing =
  clock_rate :: real
  sampling :: "'e timers clock sampler"

definition on_sampling :: "('e timers clock sampler, 'a) prog \<Rightarrow> ('e timing, 'a) prog" where
  "on_sampling m = (\<lambda>s. case m (sampling s) of Inl x \<Rightarrow> Inl x | Inr (x, t) \<Rightarrow> Inr (x, s\<lparr>sampling := t\<rparr>))"

lemma on_sampling_apply [prog_eval]:
  "on_sampling m s = (case m (sampling s) of Inl x \<Rightarrow> Inl x | Inr (x, t) \<Rightarrow> Inr (x, s\<lparr>sampling := t\<rparr>))"
  by (simp add: on_sampling_def)

definition on_clock :: "('e timers clock, 'a) prog \<Rightarrow> ('e timing, 'a) prog" where
  "on_clock m = on_sampling (on_world m)"

definition on_timers :: "('e timers, 'a) prog \<Rightarrow> ('e timing, 'a) prog" where
  "on_timers m = on_clock (on_env m)"

text \<open>The initial values of the static variables.\<close>

definition default_clock :: "'e \<Rightarrow> 'e clock" where
  "default_clock e = \<lparr>env = e, cyc_hi = 0, cyc_lo = 0, cyc_per_tick = 0, start_tick = 0\<rparr>"

definition default_timers :: "'e \<Rightarrow> 'e timers" where
  "default_timers e = \<lparr>sys = e, first_u = (0, 0), first_r = (0, 0), first_p = (0, 0)\<rparr>"

definition default_timing :: "'e \<Rightarrow> (int \<Rightarrow> int) option \<Rightarrow> 'e timing" where
  "default_timing e room =
     \<lparr>clock_rate = 0, sampling = default_sampler (default_clock (default_timers e)) room\<rparr>"

definition init_fsecs_with :: "timing_method \<Rightarrow> 'e machine \<Rightarrow> ('e timing, unit) prog" where
  "init_fsecs_with x M =
     seqp (modify (\<lambda>s. s\<lparr>clock_rate := 0\<rparr>))
    (case x of
       USE_FCYC \<Rightarrow>
         seqp (on_sampling (set_fcyc_maxsamples 20))
        (seqp (on_sampling (set_fcyc_clear_cache 1))
        (seqp (on_sampling (set_fcyc_compensate 1))
        (seqp (on_sampling (set_fcyc_epsilon 0.01))
        (seqp (on_sampling (set_fcyc_k 3))
        (bnd (on_clock (mhz (on_sys (tsc M)) (\<lambda>n. on_sys (sleeps M n)))) (\<lambda>r.
         modify (\<lambda>s. s\<lparr>clock_rate := r\<rparr>)))))))
     | USE_ITIMER \<Rightarrow> ret ()
     | USE_GETTOD \<Rightarrow> ret ())"

definition fsecs_with :: "timing_method \<Rightarrow> 'e machine \<Rightarrow> ('e, unit) prog \<Rightarrow> ('e timing, real) prog" where
  "fsecs_with x M f =
     (case x of
        USE_FCYC \<Rightarrow>
          let counter = on_sys (tsc M); utime = on_sys (user_time M) in
          bnd (on_sampling (fcyc (on_env (on_sys f))
                 (start_counter counter) (start_comp_counter (rounds_most M) counter utime)
                 (get_counter counter) (get_comp_counter counter utime))) (\<lambda>cycles.
          bnd (gets clock_rate) (\<lambda>r. ret (cycles / (r * 10 ^ 6))))
      | USE_ITIMER \<Rightarrow> on_timers (ftimer_itimer (set_timer M) (get_timer M) f 10)
      | USE_GETTOD \<Rightarrow> on_timers (on_sys (ftimer_gettod (time_of_day M) f 10)))"

text \<open>With the interval timers this is \<open>fsecs\<close> and \<open>init_fsecs\<close> of \<open>Timing\<close>.\<close>

lemma fsecs_with_itimer:
  "fsecs_with USE_ITIMER M f = on_timers (fsecs (set_timer M) (get_timer M) f)"
  by (simp add: fsecs_with_def fsecs_def)

lemma init_fsecs_with_itimer:
  "init_fsecs_with USE_ITIMER M s =
     (case init_fsecs (clock_rate s) of Inl x \<Rightarrow> Inl x | Inr (u, r) \<Rightarrow> Inr (u, s\<lparr>clock_rate := r\<rparr>))"
  by (simp add: init_fsecs_with_def init_fsecs_def prog_eval)

section \<open>An even clock\<close>

text \<open>
  A machine whose counter reads the time \<open>cyc\<close>, in at most \<open>B\<close> cycles, with a tick of the
  user time every \<open>P\<close> cycles of \<open>work\<close>, and on which the sleep of two seconds in \<open>mhz\<close> takes
  between \<open>2 F\<close> and \<open>2 F + D\<close> cycles, of which any number may be user time.
\<close>

definition even_machine ::
  "'e machine \<Rightarrow> ('e \<Rightarrow> int) \<Rightarrow> ('e \<Rightarrow> int) \<Rightarrow> int \<Rightarrow> int \<Rightarrow> int \<Rightarrow> int \<Rightarrow> bool" where
  "even_machine M cyc work P B F D \<longleftrightarrow> running_clock (tsc M) (user_time M) cyc work P B \<and> 0 < F \<and> 0 \<le> D \<and>
     (\<forall>e. \<exists>e'. sleeps M 2 e = Inr ((), e') \<and> cyc e + 2 * F \<le> cyc e' \<and> cyc e' \<le> cyc e + 2 * F + D)"

text \<open>Every run of \<open>f\<close> takes between \<open>a\<close> and \<open>b\<close> cycles.\<close>

definition takes :: "('e, unit) prog \<Rightarrow> ('e \<Rightarrow> int) \<Rightarrow> int \<Rightarrow> int \<Rightarrow> bool" where
  "takes f cyc a b \<longleftrightarrow> (\<forall>e. \<exists>e'. f e = Inr ((), e') \<and> cyc e + a \<le> cyc e' \<and> cyc e' \<le> cyc e + b)"

lemma running_on_sys:
  assumes "running_clock access_counter utime cyc work P B"
  shows "running_clock (on_sys access_counter) (on_sys utime) (\<lambda>e. cyc (sys e)) (\<lambda>e. work (sys e)) P B"
proof -
  have u: "on_sys utime e = Inr (work (sys e) div P, e)" for e
    using assms by (simp add: running_clock_def on_sys_apply)
  have "\<exists>e'. on_sys access_counter e = Inr ((word_of_int (cyc (sys e) div 2 ^ 32), word_of_int (cyc (sys e))), e') \<and>
      cyc (sys e) < cyc (sys e') \<and> cyc (sys e') \<le> cyc (sys e) + B \<and> work (sys e) < work (sys e')" for e
  proof -
    obtain e' where "access_counter (sys e) = Inr ((word_of_int (cyc (sys e) div 2 ^ 32), word_of_int (cyc (sys e))), e')"
        "cyc (sys e) < cyc e'" "cyc e' \<le> cyc (sys e) + B" "work (sys e) < work e'"
      using assms unfolding running_clock_def by blast
    then show ?thesis by (intro exI [of _ "e\<lparr>sys := e'\<rparr>"]) (simp add: on_sys_apply)
  qed
  then show ?thesis using assms u by (simp add: running_clock_def)
qed

lemma takes_on_sys:
  assumes "takes f cyc a b"
  shows "takes (on_sys f) (\<lambda>e. cyc (sys e)) a b"
  unfolding takes_def
proof
  fix e :: "'a timers"
  obtain e' where "f (sys e) = Inr ((), e')" "cyc (sys e) + a \<le> cyc e'" "cyc e' \<le> cyc (sys e) + b"
    using assms unfolding takes_def by blast
  then show "\<exists>e'. on_sys f e = Inr ((), e') \<and> cyc (sys e) + a \<le> cyc (sys e') \<and> cyc (sys e') \<le> cyc (sys e) + b"
    by (intro exI [of _ "e\<lparr>sys := e'\<rparr>"]) (simp add: on_sys_apply)
qed

section \<open>The counters between two readings\<close>

lemma start_reading:
  assumes "running_clock access_counter utime cyc work P B"
  obtains s' where "start_counter access_counter s = Inr ((), s')" and "started (cyc (env s)) s'"
    and "cyc (env s) < cyc (env s')" and "cyc (env s') \<le> cyc (env s) + B"
    and "cyc_per_tick s' = cyc_per_tick s"
proof -
  obtain e where e: "access_counter (env s) =
      Inr ((word_of_int (cyc (env s) div 2 ^ 32), word_of_int (cyc (env s))), e)"
      "cyc (env s) < cyc e" "cyc e \<le> cyc (env s) + B"
    using assms unfolding running_clock_def by blast
  show thesis
    by (rule that [of "s\<lparr>env := e, cyc_hi := word_of_int (cyc (env s) div 2 ^ 32), cyc_lo := word_of_int (cyc (env s))\<rparr>"])
      (use e in \<open>simp_all add: start_counter_def prog_eval started_def\<close>)
qed

text \<open>What \<open>f\<close> takes, read between a start and an end; the readings are part of it.\<close>

lemma counted_run:
  assumes clock: "running_clock access_counter utime cyc work P B" and f: "takes f cyc a b"
    and "0 \<le> a" and wrap: "b + B < 2 ^ 64"
  obtains n s' where "seqp (start_counter access_counter) (seqp (on_env f) (get_counter access_counter)) s =
      Inr (real_of_int n, s')" and "a < n" and "n \<le> b + B" and "cyc_per_tick s' = cyc_per_tick s"
proof -
  obtain s1 where s1: "start_counter access_counter s = Inr ((), s1)" "started (cyc (env s)) s1"
      "cyc (env s) < cyc (env s1)" "cyc (env s1) \<le> cyc (env s) + B" "cyc_per_tick s1 = cyc_per_tick s"
    using start_reading [OF clock] by blast
  obtain e where e: "f (env s1) = Inr ((), e)" "cyc (env s1) + a \<le> cyc e" "cyc e \<le> cyc (env s1) + b"
    using f unfolding takes_def by blast
  let ?s = "s1\<lparr>env := e\<rparr>" and ?n = "cyc e - cyc (env s)"
  have "started (cyc (env s)) ?s" using s1(2) by (simp add: started_def)
  then obtain e' where "get_counter access_counter ?s = Inr (real_of_int ?n, ?s\<lparr>env := e'\<rparr>)"
    using read_counter [OF clock, of "cyc (env s)" ?s] s1(3,4) e(2,3) assms(3) wrap by auto
  then show thesis
    using that [of ?n "?s\<lparr>env := e'\<rparr>"] s1 e assms(3) by (simp add: prog_eval)
qed

text \<open>
  The compensating counters on a quiet clock: each start calibrates anew, because nothing
  has been recorded, and nothing is subtracted in the end.
\<close>

lemma compensated_run:
  assumes clock: "running_clock access_counter utime cyc work P B" and f: "takes f cyc a b"
    and "0 \<le> a" and wrap: "b + B < 2 ^ 64" and quiet: "B \<le> 2000"
    and "100 * (P + 1001) \<le> int m" and "(int m + 2) * B < 2 ^ 64" and c: "cyc_per_tick s = 0"
  obtains n s' where "seqp (start_comp_counter (Suc m) access_counter utime)
      (seqp (on_env f) (get_comp_counter access_counter utime)) s = Inr (real_of_int n, s')"
    and "a < n" and "n \<le> b + B" and "cyc_per_tick s' = 0"
proof -
  have tick: "utime e = Inr (work e div P, e)" for e using clock by (simp add: running_clock_def)
  obtain s1 where s1: "callibrate (Suc m) access_counter utime s = Inr ((), s1)" "cyc_per_tick s1 = 0"
    using callibrate_ok [OF clock assms(6,7), of s] quiet c by auto
  let ?s = "s1\<lparr>start_tick := work (env s1) div P\<rparr>"
  obtain n s' where n: "seqp (start_counter access_counter) (seqp (on_env f) (get_counter access_counter)) ?s =
      Inr (real_of_int n, s')" "a < n" "n \<le> b + B" "cyc_per_tick s' = cyc_per_tick ?s"
    using counted_run [OF clock f assms(3) wrap] by blast
  have "start_comp_counter (Suc m) access_counter utime s = start_counter access_counter ?s"
    using s1(1) c by (simp add: start_comp_counter_def prog_eval tick)
  then have "seqp (start_comp_counter (Suc m) access_counter utime)
      (seqp (on_env f) (get_comp_counter access_counter utime)) s = Inr (real_of_int n, s')"
    using n(1,4) s1(2) by (auto simp: get_comp_counter_def prog_eval tick Let_def split: sum.splits)
  then show thesis using that n s1(2) by simp
qed

section \<open>fsecs with the cycle counter\<close>

lemma times_between:
  assumes "measures J m r" and "\<And>w. J w \<Longrightarrow> lo \<le> fst (r w) \<and> fst (r w) \<le> hi" and "J w"
    and "x \<in> set (times r n w)"
  shows "lo \<le> x \<and> x \<le> hi"
  using assms(3,4)
proof (induction n arbitrary: w)
  case (Suc n)
  then have "J (snd (r w))" using assms(1) by (simp add: measures_def)
  then show ?case using Suc assms(2) [of w] by auto
qed simp

text \<open>
  The state that \<open>init_fsecs\<close> leaves and every call of \<open>fsecs\<close> keeps, with a buffer for \<open>b\<close>
  more runs that clear the cache.
\<close>

definition ready :: "nat \<Rightarrow> 'e timing \<Rightarrow> bool" where
  "ready b s \<longleftrightarrow> kbest (sampling s) = 3 \<and> maxsamples (sampling s) = 20 \<and> compensate (sampling s) = 1 \<and>
     clear_ok b (sampling s) \<and> libc_room (sampling s) \<noteq> None \<and> cyc_per_tick (world (sampling s)) = 0"

lemma init_fsecs_ready:
  assumes M: "even_machine M cyc work P B F D" and wrap: "2 * F + D + B < 2 ^ 64"
    and room: "\<forall>j. \<bar>buf j\<bar> \<le> 800"
  shows "\<exists>n s'. init_fsecs_with USE_FCYC M (default_timing e (Some buf)) = Inr ((), s') \<and> ready 20 s' \<and>
    clock_rate s' = real_of_int n / (2 * 10 ^ 6) \<and> 2 * F < n \<and> n \<le> 2 * F + D + B"
proof -
  let ?counter = "on_sys (tsc M)" and ?c = "default_clock (default_timers e)"
  have clock: "running_clock ?counter (on_sys (user_time M)) (\<lambda>e. cyc (sys e)) (\<lambda>e. work (sys e)) P B"
    using M by (intro running_on_sys) (simp add: even_machine_def)
  have "takes (sleeps M 2) cyc (2 * F) (2 * F + D)"
    using M unfolding even_machine_def takes_def by (metis add.assoc)
  then obtain n s1 where n: "seqp (start_counter ?counter) (seqp (on_env (on_sys (sleeps M 2))) (get_counter ?counter)) ?c =
      Inr (real_of_int n, s1)" "2 * F < n" "n \<le> 2 * F + D + B" "cyc_per_tick s1 = cyc_per_tick ?c"
    using counted_run [OF clock takes_on_sys [of "sleeps M 2" cyc "2 * F" "2 * F + D"], of ?c] M wrap
    by (auto simp: even_machine_def)
  have mhz: "mhz ?counter (\<lambda>n. on_sys (sleeps M n)) ?c = Inr (real_of_int n / (2 * 10 ^ 6), s1)"
    using n(1) by (auto simp: mhz_def mhz_full_def prog_eval split: sum.splits)
  have c: "clear_ok 20 (default_sampler ?c (Some buf)\<lparr>world := s1, clear_cache := 1, compensate := 1,
      maxsamples := 20, epsilon := 0.01, kbest := 3\<rparr>)"
    using room by (auto simp: clear_ok_def default_sampler_def push_bit_eq_mult intro: exI [of _ 800])
  show ?thesis
    by (intro exI [of _ n]) (use mhz n c in \<open>simp add: init_fsecs_with_def prog_eval on_clock_def default_timing_def
      default_sampler_def set_fcyc_maxsamples_def set_fcyc_clear_cache_def set_fcyc_compensate_def
      set_fcyc_epsilon_def set_fcyc_k_def ready_def default_clock_def\<close>)
qed

lemma fsecs_fcyc_ok:
  assumes M: "even_machine M cyc work P B F D" and f: "takes f cyc a b" and "0 \<le> a"
    and fuel: "rounds_most M = Suc m" "100 * (P + 1001) \<le> int m" "(int m + 2) * B < 2 ^ 64"
    and wrap: "b + B < 2 ^ 64" and quiet: "B \<le> 2000" and s: "ready d s" "20 \<le> d"
  shows "\<exists>k s'. fsecs_with USE_FCYC M f s = Inr (k / (clock_rate s * 10 ^ 6), s') \<and>
    real_of_int (a + 1) \<le> k \<and> k \<le> real_of_int (b + B) \<and> ready (d - 20) s' \<and> clock_rate s' = clock_rate s \<and>
    1 \<le> samplecount (sampling s') \<and> samplecount (sampling s') \<le> 20"
proof -
  let ?counter = "on_sys (tsc M)" and ?utime = "on_sys (user_time M)"
  let ?start = "start_comp_counter (Suc m) ?counter ?utime" and ?get = "get_comp_counter ?counter ?utime"
  let ?run = "seqp ?start (seqp (on_env (on_sys f)) ?get)" and ?J = "\<lambda>w. cyc_per_tick w = 0"
  define r where "r = (\<lambda>w. case ?run w of Inl _ \<Rightarrow> (0, w) | Inr z \<Rightarrow> z)"
  have clock: "running_clock ?counter ?utime (\<lambda>e. cyc (sys e)) (\<lambda>e. work (sys e)) P B"
    using M by (intro running_on_sys) (simp add: even_machine_def)
  have run: "\<exists>n w'. ?run w = Inr (real_of_int n, w') \<and> a < n \<and> n \<le> b + B \<and> cyc_per_tick w' = 0"
    if w: "cyc_per_tick w = 0" for w
    using compensated_run [OF clock takes_on_sys [OF f] \<open>0 \<le> a\<close> wrap quiet fuel(2,3) w] by blast
  have ms: "measures ?J ?run r"
    unfolding measures_def
  proof (intro allI impI)
    fix w :: "'a timers clock" assume "cyc_per_tick w = 0"
    from run [OF this] show "?run w = Inr (r w) \<and> cyc_per_tick (snd (r w)) = 0" by (auto simp: r_def)
  qed
  have bounds: "real_of_int (a + 1) \<le> fst (r w) \<and> fst (r w) \<le> real_of_int (b + B)" if w: "?J w" for w
  proof -
    obtain n w' where "?run w = Inr (real_of_int n, w')" "a < n" "n \<le> b + B" using run [OF w] by blast
    moreover from this have "r w = (real_of_int n, w')" by (simp add: r_def)
    moreover have "a + 1 \<le> n" using \<open>a < n\<close> by simp
    ultimately show ?thesis by (simp del: of_int_add)
  qed
  let ?p = "sampling s"
  have p: "0 < kbest ?p" "maxsamples ?p < 2 ^ 31" "clear_ok d ?p" "max 1 (maxsamples ?p) \<le> int d" "libc_room ?p \<noteq> None" "?J (world ?p)" "compensate ?p \<noteq> 0" "maxsamples ?p = 20"
    using s by (simp_all add: ready_def)
  obtain n p' where l: "fcyc (on_env (on_sys f)) (start_counter ?counter) ?start (get_counter ?counter) ?get ?p =
      Inr (Min (set (times r n (world ?p))), p')" "1 \<le> n" "int n \<le> max 1 (maxsamples ?p)" "samplecount p' = int n"
      "?J (world p')" "clear_ok (d - n) p'" "same_params ?p p'"
    using fcyc_inv [OF p(1-5), of ?J ?start "start_counter ?counter" "on_env (on_sys f)" ?get "get_counter ?counter" r]
      ms p(6,7) by auto
  let ?k = "Min (set (times r n (world ?p)))"
  have "times r n (world ?p) \<noteq> []" using l(2) by (metis length_times list.size(3) not_one_le_zero)
  then have "?k \<in> set (times r n (world ?p))" by simp
  from times_between [OF ms bounds p(6) this]
  have k: "real_of_int (a + 1) \<le> ?k \<and> ?k \<le> real_of_int (b + B)" .
  have "n \<le> 20" using l(3) p(8) by simp
  then have "clear_ok (d - 20) p'" using clear_ok_mono [OF l(6)] by simp
  then show ?thesis
    by (intro exI [of _ ?k] exI [of _ "s\<lparr>sampling := p'\<rparr>"])
      (use l k s fuel(1) in \<open>simp add: fsecs_with_def prog_eval Let_def ready_def same_params_def\<close>)
qed

text \<open>The first measurement, from the initial values on.\<close>

lemma first_measurement:
  assumes M: "even_machine M cyc work P B F D" and f: "takes f cyc a b" and "0 \<le> a"
    and fuel: "rounds_most M = Suc m" "100 * (P + 1001) \<le> int m" "(int m + 2) * B < 2 ^ 64"
    and wrap: "b + B < 2 ^ 64" "2 * F + D + B < 2 ^ 64" and quiet: "B \<le> 2000"
    and room: "\<forall>j. \<bar>buf j\<bar> \<le> 800"
  shows "\<exists>x s'. seqp (init_fsecs_with USE_FCYC M) (fsecs_with USE_FCYC M f) (default_timing e (Some buf)) =
      Inr (x, s') \<and> real_of_int (2 * (a + 1)) / real_of_int (2 * F + D + B) \<le> x \<and>
    x < real_of_int (b + B) / real_of_int F \<and> samplecount (sampling s') \<le> 20"
proof -
  obtain n s1 where n: "init_fsecs_with USE_FCYC M (default_timing e (Some buf)) = Inr ((), s1)" "ready 20 s1"
      "clock_rate s1 = real_of_int n / (2 * 10 ^ 6)" "2 * F < n" "n \<le> 2 * F + D + B"
    using init_fsecs_ready [OF M wrap(2) room] by blast
  obtain k s' where k: "fsecs_with USE_FCYC M f s1 = Inr (k / (clock_rate s1 * 10 ^ 6), s')"
      "real_of_int (a + 1) \<le> k" "k \<le> real_of_int (b + B)" "samplecount (sampling s') \<le> 20"
    using fsecs_fcyc_ok [OF M f assms(3) fuel wrap(1) quiet n(2)] by auto
  have F: "0 < F" using M by (simp add: even_machine_def)
  have "k / (clock_rate s1 * 10 ^ 6) = 2 * k / real_of_int n" unfolding n(3) by simp
  moreover have "real_of_int (2 * (a + 1)) / real_of_int (2 * F + D + B) \<le> 2 * k / real_of_int n"
    by (rule frac_le) (use k(2) n(4,5) F assms(3) in simp_all)
  moreover have "2 * k / real_of_int n < real_of_int (b + B) / real_of_int F"
  proof -
    have "0 < k" using k(2) assms(3) by simp
    then have "2 * k / real_of_int n < 2 * k / real_of_int (2 * F)"
      using n(4) F by (intro divide_strict_left_mono) simp_all
    also have "\<dots> \<le> real_of_int (b + B) / real_of_int F" using k(3) F by (simp add: divide_right_mono)
    finally show ?thesis .
  qed
  ultimately show ?thesis using n(1) k(1,4) by (simp add: seqp_apply)
qed

section \<open>fsecs with the interval timers\<close>

text \<open>
  A wall clock in microseconds, on which a call of the timers takes at most \<open>B\<close>; \<open>due\<close> is
  the time at which \<open>ITIMER_REAL\<close> runs out, and its value is what is left until then.
\<close>

definition wall_timer ::
  "(itimer \<Rightarrow> int \<times> int \<Rightarrow> ('e, unit) prog) \<Rightarrow> (itimer \<Rightarrow> ('e, int \<times> int) prog) \<Rightarrow>
   ('e \<Rightarrow> int) \<Rightarrow> ('e \<Rightarrow> int) \<Rightarrow> int \<Rightarrow> bool" where
  "wall_timer setitimer getitimer us due B \<longleftrightarrow>
     (\<forall>w v e. \<exists>e'. setitimer w v e = Inr ((), e') \<and> us e \<le> us e' \<and> us e' \<le> us e + B \<and>
        due e' = (if w = ITIMER_REAL then us e' + fst v * 10 ^ 6 + snd v else due e)) \<and>
     (\<forall>w e. \<exists>v e'. getitimer w e = Inr (v, e') \<and> us e \<le> us e' \<and> us e' \<le> us e + B \<and> due e' = due e \<and>
        (w = ITIMER_REAL \<and> us e < due e \<longrightarrow> v = ((due e - us e) div 10 ^ 6, (due e - us e) mod 10 ^ 6)))"

definition keeps_timer :: "('e, unit) prog \<Rightarrow> ('e \<Rightarrow> int) \<Rightarrow> bool" where
  "keeps_timer f due \<longleftrightarrow> (\<forall>e e'. f e = Inr ((), e') \<longrightarrow> due e' = due e)"

lemma repeatedly_takes:
  assumes "takes f us a b" and "keeps_timer f due"
  shows "\<exists>e'. repeatedly n f e = Inr ((), e') \<and> us e + int n * a \<le> us e' \<and> us e' \<le> us e + int n * b \<and> due e' = due e"
proof (induction n arbitrary: e)
  case (Suc n)
  obtain e1 where e1: "f e = Inr ((), e1)" "us e + a \<le> us e1" "us e1 \<le> us e + b" "due e1 = due e"
    using assms unfolding takes_def keeps_timer_def by metis
  from Suc.IH [of e1] e1 show ?case by (fastforce simp: seqp_apply algebra_simps)
qed (simp add: ret_apply)

text \<open>What \<open>get_etime\<close> reports \<open>x\<close> microseconds before the timer runs out.\<close>

lemma elapsed:
  "real_of_int (q - x div 10 ^ 6) + real_of_int (0 - x mod 10 ^ 6) * (1 / 10 ^ 6) =
    real_of_int (q * 10 ^ 6 - x) / 10 ^ 6"
proof -
  have "q * 10 ^ 6 - x = (q - x div 10 ^ 6) * 10 ^ 6 + (0 - x mod 10 ^ 6)"
    using div_mult_mod_eq [of x "10 ^ 6"] by (simp only: left_diff_distrib)
  then have "real_of_int (q * 10 ^ 6 - x) = real_of_int (q - x div 10 ^ 6) * 10 ^ 6 + real_of_int (0 - x mod 10 ^ 6)"
    by (simp only: of_int_add of_int_mult of_int_power of_int_numeral)
  then show ?thesis by (simp add: add_divide_distrib)
qed

lemma get_etime_reads:
  assumes timer: "wall_timer setitimer getitimer us due B"
    and set: "due (sys s) = t + MAX_ETIME * 10 ^ 6" "first_p s = (MAX_ETIME, 0)"
    and room: "us (sys s) + B < t + MAX_ETIME * 10 ^ 6"
  obtains u s' where "get_etime getitimer s = Inr (real_of_int (u - t) / 10 ^ 6, s')"
    and "us (sys s) \<le> u" "u \<le> us (sys s) + B" "u \<le> us (sys s')" "us (sys s') \<le> u + 2 * B"
    and "due (sys s') = due (sys s)" and "first_p s' = first_p s"
proof -
  obtain v e1 where e1: "getitimer ITIMER_VIRTUAL (sys s) = Inr (v, e1)" "us (sys s) \<le> us e1"
      "us e1 \<le> us (sys s) + B" "due e1 = due (sys s)"
    using timer unfolding wall_timer_def by meson
  let ?x = "due e1 - us e1"
  have "us e1 < due e1" using e1 set(1) room by linarith
  then obtain e2 where e2: "getitimer ITIMER_REAL e1 = Inr ((?x div 10 ^ 6, ?x mod 10 ^ 6), e2)"
      "us e1 \<le> us e2" "us e2 \<le> us e1 + B" "due e2 = due e1"
    using timer unfolding wall_timer_def by metis
  obtain p e3 where e3: "getitimer ITIMER_PROF e2 = Inr (p, e3)" "us e2 \<le> us e3" "us e3 \<le> us e2 + B" "due e3 = due e2"
    using timer unfolding wall_timer_def by meson
  have "MAX_ETIME * 10 ^ 6 - ?x = us e1 - t" using e1(4) set(1) by simp
  then have "get_etime getitimer s = Inr (real_of_int (us e1 - t) / 10 ^ 6, s\<lparr>sys := e3\<rparr>)"
    using e1(1) e2(1) e3(1) set(2) elapsed [of MAX_ETIME ?x]
    by (simp add: get_etime_def prog_eval del: of_int_diff)
  then show thesis by (rule that) (use e1 e2 e3 in simp_all)
qed

lemma fsecs_itimer_ok:
  assumes timer: "wall_timer setitimer getitimer us due B" and f: "takes f us a b" "keeps_timer f due"
    and "0 \<le> a" and room: "10 * b + 5 * B < MAX_ETIME * 10 ^ 6"
  shows "\<exists>n s'. fsecs setitimer getitimer f s = Inr (real_of_int n / 10 ^ 7, s') \<and>
    10 * a \<le> n \<and> n \<le> 10 * b + 3 * B"
proof -
  obtain e1 where e1: "setitimer ITIMER_VIRTUAL (MAX_ETIME, 0) (sys s) = Inr ((), e1)"
    using timer unfolding wall_timer_def by meson
  obtain e2 where e2: "setitimer ITIMER_REAL (MAX_ETIME, 0) e1 = Inr ((), e2)" "due e2 = us e2 + MAX_ETIME * 10 ^ 6"
    using timer unfolding wall_timer_def by (metis add.right_neutral fst_conv snd_conv)
  obtain e3 where e3: "setitimer ITIMER_PROF (MAX_ETIME, 0) e2 = Inr ((), e3)" "us e2 \<le> us e3" "us e3 \<le> us e2 + B"
      "due e3 = due e2"
    using timer unfolding wall_timer_def by (metis itimer.distinct(5))
  let ?s = "s\<lparr>sys := e3, first_u := (MAX_ETIME, 0), first_r := (MAX_ETIME, 0), first_p := (MAX_ETIME, 0)\<rparr>"
  have init: "init_etime setitimer s = Inr ((), ?s)"
    using e1 e2(1) e3(1) by (simp add: init_etime_def prog_eval)
  obtain e' where "us e3 + a \<le> us e'" "us e' \<le> us e3 + b" using f(1) unfolding takes_def by blast
  then have ab: "a \<le> b" "0 \<le> B" using e3(2,3) by linarith+
  obtain u s1 where u: "get_etime getitimer ?s = Inr (real_of_int (u - us e2) / 10 ^ 6, s1)"
      "us e3 \<le> u" "u \<le> us e3 + B" "u \<le> us (sys s1)" "us (sys s1) \<le> u + 2 * B"
      "due (sys s1) = us e2 + MAX_ETIME * 10 ^ 6" "first_p s1 = (MAX_ETIME, 0)"
    by (rule get_etime_reads [OF timer, of ?s "us e2"]) (use e2 e3 ab room assms(4) in auto)
  obtain e4 where e4: "repeatedly (nat 10) f (sys s1) = Inr ((), e4)" "us (sys s1) + 10 * a \<le> us e4"
      "us e4 \<le> us (sys s1) + 10 * b" "due e4 = due (sys s1)"
    using repeatedly_takes [OF f, of 10 "sys s1"] by auto
  obtain w s2 where w: "get_etime getitimer (s1\<lparr>sys := e4\<rparr>) = Inr (real_of_int (w - us e2) / 10 ^ 6, s2)"
      "us e4 \<le> w" "w \<le> us e4 + B"
    by (rule get_etime_reads [OF timer, of "s1\<lparr>sys := e4\<rparr>" "us e2"]) (use e3 u e4 room in auto)
  have "(real_of_int (w - us e2) / 10 ^ 6 - real_of_int (u - us e2) / 10 ^ 6) / 10 = real_of_int (w - u) / 10 ^ 7"
    by (simp add: field_simps)
  then have "fsecs setitimer getitimer f s = Inr (real_of_int (w - u) / 10 ^ 7, s2)"
    using init u(1) e4(1) w(1)
    by (simp add: fsecs_def ftimer_itimer_def prog_eval Let_def del: of_int_diff)
  moreover have "10 * a \<le> w - u" "w - u \<le> 10 * b + 3 * B" using u e4 w by linarith+
  ultimately show ?thesis by blast
qed

lemma fsecs_itimer_mean:
  assumes "wall_timer setitimer getitimer us due B" and "takes f us a b" and "keeps_timer f due"
    and "0 \<le> a" and "10 * b + 5 * B < MAX_ETIME * 10 ^ 6"
  shows "\<exists>x s'. fsecs setitimer getitimer f s = Inr (x, s') \<and>
    real_of_int a / 10 ^ 6 \<le> x \<and> x \<le> (real_of_int b + 3 * real_of_int B / 10) / 10 ^ 6"
proof -
  obtain n s' where n: "fsecs setitimer getitimer f s = Inr (real_of_int n / 10 ^ 7, s')"
      "10 * a \<le> n" "n \<le> 10 * b + 3 * B"
    using fsecs_itimer_ok [OF assms] by blast
  have "real_of_int (10 * a) \<le> real_of_int n" "real_of_int n \<le> real_of_int (10 * b + 3 * B)"
    using n(2,3) by (simp_all only: of_int_le_iff)
  then have "real_of_int a / 10 ^ 6 \<le> real_of_int n / 10 ^ 7"
      "real_of_int n / 10 ^ 7 \<le> (real_of_int b + 3 * real_of_int B / 10) / 10 ^ 6"
    by (simp_all add: field_simps)
  then show ?thesis using n(1) by blast
qed

section \<open>fsecs with gettimeofday\<close>

definition wall_clock :: "('e, int \<times> int) prog \<Rightarrow> ('e \<Rightarrow> int) \<Rightarrow> int \<Rightarrow> bool" where
  "wall_clock gettimeofday us B \<longleftrightarrow>
     (\<forall>e. \<exists>e'. gettimeofday e = Inr ((us e div 10 ^ 6, us e mod 10 ^ 6), e') \<and> us e \<le> us e' \<and> us e' \<le> us e + B)"

lemma ftimer_gettod_mean:
  assumes clock: "wall_clock gettimeofday us B" and f: "takes f us a b" "keeps_timer f (\<lambda>_. 0)"
  shows "\<exists>n e'. ftimer_gettod gettimeofday f 10 e = Inr (real_of_int n / 10 ^ 7, e') \<and>
    10 * a \<le> n \<and> n \<le> 10 * b + B"
proof -
  obtain e1 where e1: "gettimeofday e = Inr ((us e div 10 ^ 6, us e mod 10 ^ 6), e1)" "us e \<le> us e1" "us e1 \<le> us e + B"
    using clock unfolding wall_clock_def by blast
  obtain e2 where e2: "repeatedly (nat 10) f e1 = Inr ((), e2)" "us e1 + 10 * a \<le> us e2" "us e2 \<le> us e1 + 10 * b"
    using repeatedly_takes [OF f, of 10 e1] by auto
  obtain e3 where e3: "gettimeofday e2 = Inr ((us e2 div 10 ^ 6, us e2 mod 10 ^ 6), e3)"
    using clock unfolding wall_clock_def by blast
  have "(us e2 div 10 ^ 6 - us e div 10 ^ 6) * 10 ^ 6 + (us e2 mod 10 ^ 6 - us e mod 10 ^ 6) = us e2 - us e"
    using div_mult_mod_eq [of "us e2" "10 ^ 6"] div_mult_mod_eq [of "us e" "10 ^ 6"] by (simp only: left_diff_distrib)
  then have "ftimer_gettod gettimeofday f 10 e = Inr (real_of_int (us e2 - us e) / 10 ^ 6 / 10, e3)"
    using ftimer_gettod_ok [OF e1(1) e2(1) e3] by (simp del: of_int_diff)
  moreover have "10 * a \<le> us e2 - us e" "us e2 - us e \<le> 10 * b + B" using e1 e2 by linarith+
  ultimately show ?thesis by (intro exI [of _ "us e2 - us e"]) (simp del: of_int_diff)
qed

section \<open>Two machines\<close>

text \<open>
  A machine with 10^6 cycles per second, whose state is the time with the user time, both in
  cycles, and timers whose calls take a microsecond; the
  state of the timers is the time with the time at which the real timer runs out.
\<close>

definition demo_machine :: "nat \<Rightarrow> (int \<times> int) machine" where
  "demo_machine fuel =
     \<lparr>tsc = (\<lambda>(t, w). Inr ((word_of_int (t div 2 ^ 32), word_of_int t), (t + 7, w + 5))),
      user_time = (\<lambda>(t, w). Inr (w div 5000, (t, w))),
      sleeps = (\<lambda>n (t, w). Inr ((), (t + n * 10 ^ 6, w))), set_timer = (\<lambda>_ _. ret ()), get_timer = (\<lambda>_. ret (0, 0)),
      time_of_day = (\<lambda>(t, w). Inr ((t div 10 ^ 6, t mod 10 ^ 6), (t, w))), rounds_most = fuel\<rparr>"

lemma demo_machine_even: "even_machine (demo_machine fuel) fst snd 5000 7 (10 ^ 6) 0"
  by (simp add: even_machine_def running_clock_def demo_machine_def)

definition demo_setitimer :: "itimer \<Rightarrow> int \<times> int \<Rightarrow> (int \<times> int, unit) prog" where
  "demo_setitimer w v = (\<lambda>(t, d).
     Inr ((), (t + 1, if w = ITIMER_REAL then t + 1 + fst v * 10 ^ 6 + snd v else d)))"

definition demo_getitimer :: "itimer \<Rightarrow> (int \<times> int, int \<times> int) prog" where
  "demo_getitimer w = (\<lambda>(t, d). Inr (((d - t) div 10 ^ 6, (d - t) mod 10 ^ 6), (t + 1, d)))"

lemma demo_wall_timer: "wall_timer demo_setitimer demo_getitimer fst snd 1"
  by (auto simp: wall_timer_def demo_setitimer_def demo_getitimer_def)

end
