(* ===== verification/Demo_Run.thy ===== *)
theory Demo_Run
  imports Demo_Driver Whole_Run Fsecs
begin

text \<open>
  A trace file, a command line, a REPL and a sampler for the demonstrations: the
  properties of the driver's run, of the REPL and of the measurement are
  exercised on them.
\<close>

section \<open>A run of the driver\<close>

definition demo_trace :: trace where
  "demo_trace =
     \<lparr>trace_name = ''demo.rep'', sugg_heapsize = 0, num_ids = 2, num_ops = 5, weight = 1,
      ops = demo_ops, trace_blocks = [0, 0], trace_block_sizes = [0, 0]\<rparr>"

definition demo_env :: libc_env where
  "demo_env =
     \<lparr>malloc_ok = (\<lambda>_. True), junk_trace = demo_trace, junk_size = 7,
      junk_ops = (\<lambda>n. replicate n (free_op 0)), junk_words = (\<lambda>n. replicate n 0),
      files = (\<lambda>path. if path = ''demo.rep'' then Some (show_trace demo_trace) else None)\<rparr>"

definition demo_config :: config where
  "demo_config =
     \<lparr>tracefiles = Some [''demo.rep''], num_tracefiles = 1, tracedir = [], verbose = 1,
      run_libc = False, gradescope = False\<rparr>"

lemma demo_options: "read_options [(CHR ''f'', ''demo.rep'')] initial_config = Inr (Run demo_config)"
  by (simp add: initial_config_def demo_config_def)

lemma demo_options_l:
  "read_options [(CHR ''f'', ''demo.rep''), (CHR ''l'', [])] initial_config = Inr (Run (demo_config\<lparr>run_libc := True\<rparr>))"
  by (simp add: initial_config_def demo_config_def)

text \<open>The timers of \<open>Fsecs\<close>: the next reading is what is left until the timer runs out.\<close>

lemma demo_counts_down: "counts_down demo_setitimer demo_getitimer (\<lambda>(t, d). d - t + 1)"
  by (auto simp: counts_down_def demo_setitimer_def demo_getitimer_def)

lemma demo_trace_wf: "trace_wf demo_trace"
  by (simp add: trace_wf_def demo_trace_def demo_ops_def op_ok_def top_index_def is_int_def)

lemma demo_files: "files demo_env ''demo.rep'' = Some (show_trace demo_trace)" "malloc_ok demo_env n"
  "junk_ops demo_env m = replicate m (free_op 0)" "junk_words demo_env m = replicate m 0"
  by (simp_all add: demo_env_def)

lemma demo_good_trace: "good_trace demo_env [] demo_trace"
proof -
  have "{0..<2} = {0, 1 :: int}" by auto
  then have "trace_ok {0..<2} {} demo_ops" using demo_trace_ok(1) demo_ids by simp
  then show ?thesis
    using demo_trace_wf demo_trace_ok(2) demo_demand demo_files
    by (simp add: good_trace_def demo_trace_def LINE_SIZE_def demo_max)
qed

lemma demo_run: "tracefiles demo_config = Some (map trace_name [demo_trace])"
  "num_tracefiles demo_config = int (length [demo_trace])"
  "list_all (good_trace demo_env (tracedir demo_config)) [demo_trace]"
  "(4096 :: int) + MAX_HEAP < 2 ^ 62" "concat (map ops [demo_trace]) \<noteq> []"
  using demo_good_trace
  by (simp_all add: demo_config_def demo_trace_def demo_ops_def demo_max)

text \<open>The whole program; \<^verbatim>\<open>mm.c\<close> also stands for the C library.\<close>

definition demo_process :: "(heap, int \<times> int) process" where
  "demo_process = \<lparr>libc_side = demo_driver\<lparr>hp := demo_ready\<rparr>, mm_side = demo_driver,
     timer_side = default_timers (0, 0), Mhz = 0\<rparr>"

lemma demo_libc_side:
  "libc_side_ok heap_inv payloads small_ok mm_malloc mm_free mm_realloc (libc_side demo_process)"
  using demo_invs(1) mm_c.c_library_axioms
  by (simp add: libc_side_ok_def demo_process_def demo_driver_def)

section \<open>A REPL\<close>

definition demo_line :: string where
  "demo_line = ''m 5 100'' @ [CHR 0x0A]"

lemma demo_lines: "lines_of demo_line = [demo_line]"
proof -
  have "fgets (MAXLINE - 1) demo_line = (demo_line, [])"
    by (simp add: demo_line_def MAXLINE_def numeral_eq_Suc)
  moreover have "demo_line \<noteq> []" by (simp add: demo_line_def)
  ultimately show ?thesis by (simp add: lines_of.simps [of demo_line] lines_of.simps [of "[]"])
qed

lemma demo_args: "c_line demo_line = demo_line" "fst (scan_word demo_line) = Some ''m''"
  "args [''m''] [''malloc''] 2 demo_line = Some [5, 100]"
  by code_simp+

lemma demo_stays: "\<not> list_ex quits (lines_of demo_line)"
  by (simp add: demo_lines quits_def demo_args)

lemma demo_repl:
  obtains r where "repl_ok r" and "valid_ids r = {}" and "sensible_run r (lines_of demo_line)"
    and "run_driver (Some 4096) demo_line demo_driver = seqp (repl_loop demo_line) (on_drv clear_ranges) r"
proof -
  obtain r where r: "repl_ok r" "counters_ok r" "valid_ids r = {}"
      "run_driver (Some 4096) demo_line demo_driver = seqp (repl_loop demo_line) (on_drv clear_ranges) r"
    using run_driver_start [of demo_driver 4096 demo_line] by (auto simp: demo_max)
  let ?r = "r\<lparr>out := Prompt # out r\<rparr>"
  have s: "sensible r demo_line" "sensible ?r demo_line"
    by (simp_all add: sensible_def demo_args small_ok_def)
  have "repl_ok ?r" "counters_ok ?r"
    using repl_ok_same [OF r(1), of ?r] r(2) by (simp_all add: counters_ok_def)
  then obtain r' where "run_line demo_line ?r = Inr ((), r')" using run_line_ok s(2) by blast
  then have "sensible_run r (lines_of demo_line)" using r(2) s(1) by (simp add: demo_lines)
  then show thesis using that r by blast
qed

text \<open>A REPL with one block in use, which it knows as number 3.\<close>

definition demo_printer :: repl where
  "demo_printer =
     \<lparr>drv = demo_driver\<lparr>hp := demo_one\<rparr>,
      rblocks = [\<lparr>is_valid = True, bptr = 4120, bsize = 100, bindex = 3\<rparr>],
      tracenum = 1, num_ops = 1, num_blocks = 1, out = []\<rparr>"

section \<open>A sampler\<close>

text \<open>The samples 5, 6, 7, and so on.\<close>

definition demo_get :: "(nat, real) prog" where
  "demo_get = bnd (gets real) (\<lambda>w. seqp (modify Suc) (ret (5 + w)))"

lemma demo_times: "set (times (\<lambda>w. (5 + real w, Suc w)) n m) = (\<lambda>j. 5 + real (m + j)) ` {..<n}"
proof (induction n arbitrary: m)
  case (Suc n)
  have "{..<Suc n} = insert 0 (Suc ` {..<n})" by (rule lessThan_Suc_eq_insert_0)
  then show ?case using Suc by (simp add: image_image)
qed simp

end
