(* ===== verification/Inline_Tests.thy ===== *)
theory Inline_Tests
  imports Freelist Scan
begin

text \<open>
  The unit tests of \<^verbatim>\<open>mminline-tests.c\<close> for the inline functions.  Most of them run on
  blocks from the C library, whose \<open>malloc\<close> and \<open>free\<close> are parameters that act on the
  state \<open>lib\<close>; four run on blocks from \<open>mem_sbrk\<close>, in the state \<open>sim\<close>, whose region \<open>vm\<close>
  is what \<open>malloc\<close> returned in \<open>mem_init\<close>.  The globals \<open>prologue\<close>, \<open>epilogue\<close> and
  \<open>flist_first\<close> are those of \<open>lib\<close>.  A test passes when it returns; a failed assertion
  is a fault.  The calls of \<open>sleep\<close> are left out.
\<close>

section \<open>Assertions and allocation\<close>

definition expect :: "('s, 'a) prog \<Rightarrow> ('a \<Rightarrow> bool) \<Rightarrow> ('s, unit) prog" where
  "expect m P = bnd m (\<lambda>v. assertp (P v))"

text \<open>\<open>malloc(8*2 + n)\<close>, the room for a block of size \<open>n\<close>.\<close>

definition new_block :: "(int \<Rightarrow> (heap, int) prog) \<Rightarrow> int \<Rightarrow> (heap, int) prog" where
  "new_block lmalloc n = lmalloc (8 * 2 + n)"

fun free_all :: "(int \<Rightarrow> (heap, unit) prog) \<Rightarrow> int list \<Rightarrow> (heap, unit) prog" where
  "free_all lfree [] = ret ()"
| "free_all lfree (b # bs) = seqp (lfree b) (free_all lfree bs)"

text \<open>
  What the tests on blocks of the library have in common: they allocate the
  sentinels first, and free them and then their blocks, which the body returns, last.
\<close>

definition with_sentinels ::
  "(int \<Rightarrow> (heap, int) prog) \<Rightarrow> (int \<Rightarrow> (heap, unit) prog) \<Rightarrow> (heap, int list) prog \<Rightarrow> (heap, unit) prog" where
  "with_sentinels lmalloc lfree body =
     bnd (lmalloc 16) (\<lambda>p. seqp (modify (\<lambda>s. s\<lparr>prologue := p\<rparr>))
    (bnd (lmalloc 16) (\<lambda>e. seqp (modify (\<lambda>s. s\<lparr>epilogue := e\<rparr>))
    (bnd body (\<lambda>bs.
     seqp (bnd (gets prologue) lfree)
    (seqp (bnd (gets epilogue) lfree)
          (free_all lfree bs)))))))"

section \<open>Tests of the tags\<close>

definition set_size_test :: "(int \<Rightarrow> (heap, int) prog) \<Rightarrow> (int \<Rightarrow> (heap, unit) prog) \<Rightarrow> (heap, unit) prog" where
  "set_size_test lmalloc lfree = with_sentinels lmalloc lfree
    (bnd (new_block lmalloc 32) (\<lambda>block1. bnd (new_block lmalloc 64) (\<lambda>block2.
     seqp (block_set_size block1 32)
    (seqp (block_set_size block2 64)
    (seqp (expect (load block1) (\<lambda>v. v = 32))
    (seqp (expect (load block2) (\<lambda>v. v = 64))
    (seqp (expect (block_size block1) (\<lambda>v. v = 32))
    (seqp (expect (block_size block2) (\<lambda>v. v = 64))
    (ret [block1, block2])))))))))"

definition set_allocated_test :: "(int \<Rightarrow> (heap, int) prog) \<Rightarrow> (int \<Rightarrow> (heap, unit) prog) \<Rightarrow> (heap, unit) prog" where
  "set_allocated_test lmalloc lfree = with_sentinels lmalloc lfree
    (bnd (new_block lmalloc 32) (\<lambda>block1. bnd (new_block lmalloc 64) (\<lambda>block2.
     seqp (block_set_size block1 32)
    (seqp (block_set_size block2 64)
    (seqp (block_set_allocated block1 1)
    (seqp (block_set_allocated block2 0)
    (seqp (expect (block_allocated block1) (\<lambda>v. v \<noteq> 0))
    (seqp (expect (block_allocated block2) (\<lambda>v. v = 0))
    (ret [block1, block2])))))))))"

definition set_size_and_allocated_test ::
  "(int \<Rightarrow> (heap, int) prog) \<Rightarrow> (int \<Rightarrow> (heap, unit) prog) \<Rightarrow> (heap, unit) prog" where
  "set_size_and_allocated_test lmalloc lfree = with_sentinels lmalloc lfree
    (bnd (new_block lmalloc 32) (\<lambda>block1. bnd (new_block lmalloc 64) (\<lambda>block2.
     seqp (block_set_size_and_allocated block1 32 1)
    (seqp (block_set_size_and_allocated block2 64 0)
    (seqp (expect (block_size block1) (\<lambda>v. v = 32))
    (seqp (expect (block_size block2) (\<lambda>v. v = 64))
    (seqp (expect (block_allocated block1) (\<lambda>v. v \<noteq> 0))
    (seqp (expect (block_allocated block2) (\<lambda>v. v = 0))
    (ret [block1, block2])))))))))"

definition end_tag_test :: "(int \<Rightarrow> (heap, int) prog) \<Rightarrow> (int \<Rightarrow> (heap, unit) prog) \<Rightarrow> (heap, unit) prog" where
  "end_tag_test lmalloc lfree = with_sentinels lmalloc lfree
    (bnd (new_block lmalloc 32) (\<lambda>block1. bnd (new_block lmalloc 64) (\<lambda>block2.
     seqp (block_set_size_and_allocated block1 32 1)
    (seqp (block_set_size_and_allocated block2 64 0)
    (seqp (bnd (block_size block1) (\<lambda>v. expect (block_end_size block1) (\<lambda>w. v = w)))
    (seqp (bnd (block_size block2) (\<lambda>v. expect (block_end_size block2) (\<lambda>w. v = w)))
    (seqp (expect (block_end_allocated block1) (\<lambda>v. v = 1))
    (seqp (expect (block_end_allocated block2) (\<lambda>v. v = 0))
    (ret [block1, block2])))))))))"

definition payload_to_block_test ::
  "(int \<Rightarrow> (heap, int) prog) \<Rightarrow> (int \<Rightarrow> (heap, unit) prog) \<Rightarrow> (heap, unit) prog" where
  "payload_to_block_test lmalloc lfree = with_sentinels lmalloc lfree
    (bnd (new_block lmalloc 32) (\<lambda>block1. bnd (new_block lmalloc 96) (\<lambda>block2.
     seqp (block_set_size_and_allocated block1 32 0)
    (seqp (block_set_size_and_allocated block2 96 1)
    (seqp (assertp (payload_to_block (payload block1 0) = block1))
    (seqp (assertp (payload_to_block (payload block2 0) = block2))
    (ret [block1, block2])))))))"

section \<open>Tests of the neighbours\<close>

definition prev_test :: "int option \<Rightarrow> (int \<Rightarrow> (heap, unit) prog) \<Rightarrow> (heap, unit) prog" where
  "prev_test vm vfree =
     seqp (mem_init vm)
    (bnd (mem_sbrk 96) (\<lambda>block1. bnd (mem_sbrk 96) (\<lambda>block2. bnd (mem_sbrk 128) (\<lambda>block3.
     seqp (block_set_size_and_allocated block1 96 1)
    (seqp (block_set_size_and_allocated block2 96 0)
    (seqp (block_set_size_and_allocated block3 128 0)
    (seqp (expect (block_prev block2) (\<lambda>b. b = block1))
    (seqp (expect (block_prev block3) (\<lambda>b. b = block2))
    (bnd (block_prev block3) (\<lambda>b.
     seqp (expect (block_size b) (\<lambda>v. v = 96))
          (mem_deinit vfree)))))))))))"

definition next_test :: "int option \<Rightarrow> (int \<Rightarrow> (heap, unit) prog) \<Rightarrow> (heap, unit) prog" where
  "next_test vm vfree =
     seqp (mem_init vm)
    (bnd (mem_sbrk 64) (\<lambda>block1. bnd (mem_sbrk 64) (\<lambda>block2. bnd (mem_sbrk 64) (\<lambda>block3.
     seqp (block_set_size_and_allocated block1 64 1)
    (seqp (block_set_size_and_allocated block2 64 0)
    (seqp (block_set_size_and_allocated block3 64 0)
    (seqp (expect (block_next block1) (\<lambda>b. b = block2))
    (seqp (expect (block_next block2) (\<lambda>b. b = block3))
    (bnd (block_next block2) (\<lambda>b.
     seqp (expect (block_size b) (\<lambda>v. v = 64))
          (mem_deinit vfree)))))))))))"

definition next_size_allocated_test :: "int option \<Rightarrow> (int \<Rightarrow> (heap, unit) prog) \<Rightarrow> (heap, unit) prog" where
  "next_size_allocated_test vm vfree =
     seqp (mem_init vm)
    (bnd (mem_sbrk 64) (\<lambda>block1. bnd (mem_sbrk 64) (\<lambda>block2. bnd (mem_sbrk 96) (\<lambda>block3.
     seqp (block_set_size_and_allocated block1 64 1)
    (seqp (block_set_size_and_allocated block2 64 0)
    (seqp (block_set_size_and_allocated block3 96 1)
    (seqp (expect (block_next_allocated block1) (\<lambda>v. v = 0))
    (seqp (expect (block_next_allocated block2) (\<lambda>v. v = 1))
    (seqp (expect (block_next_size block1) (\<lambda>v. v = 64))
    (seqp (expect (block_next_size block2) (\<lambda>v. v = 96))
          (mem_deinit vfree)))))))))))"

definition prev_size_allocated_test :: "int option \<Rightarrow> (int \<Rightarrow> (heap, unit) prog) \<Rightarrow> (heap, unit) prog" where
  "prev_size_allocated_test vm vfree =
     seqp (mem_init vm)
    (bnd (mem_sbrk 64) (\<lambda>block1. bnd (mem_sbrk 96) (\<lambda>block2. bnd (mem_sbrk 128) (\<lambda>block3.
     seqp (block_set_size_and_allocated block1 64 1)
    (seqp (block_set_size_and_allocated block2 96 0)
    (seqp (block_set_size_and_allocated block3 128 1)
    (seqp (expect (block_prev_allocated block3) (\<lambda>v. v = 0))
    (seqp (expect (block_prev_allocated block2) (\<lambda>v. v = 1))
    (seqp (expect (block_prev_size block3) (\<lambda>v. v = 96))
    (seqp (expect (block_prev_size block2) (\<lambda>v. v = 64))
          (mem_deinit vfree)))))))))))"

section \<open>Tests of the free list\<close>

definition set_flink_test :: "(int \<Rightarrow> (heap, int) prog) \<Rightarrow> (int \<Rightarrow> (heap, unit) prog) \<Rightarrow> (heap, unit) prog" where
  "set_flink_test lmalloc lfree = with_sentinels lmalloc lfree
    (bnd (new_block lmalloc 32) (\<lambda>cur_block. bnd (new_block lmalloc 64) (\<lambda>new_flink.
     seqp (block_set_size_and_allocated cur_block 32 0)
    (seqp (block_set_size_and_allocated new_flink 64 0)
    (seqp (block_set_flink cur_block new_flink)
    (seqp (expect (block_flink cur_block) (\<lambda>b. b = new_flink))
    (seqp (expect (block_size cur_block) (\<lambda>v. v = 32))
    (seqp (expect (block_size new_flink) (\<lambda>v. v = 64))
    (seqp (expect (block_allocated cur_block) (\<lambda>v. v = 0))
    (seqp (expect (block_allocated new_flink) (\<lambda>v. v = 0))
    (ret [cur_block, new_flink])))))))))))"

definition set_blink_test :: "(int \<Rightarrow> (heap, int) prog) \<Rightarrow> (int \<Rightarrow> (heap, unit) prog) \<Rightarrow> (heap, unit) prog" where
  "set_blink_test lmalloc lfree = with_sentinels lmalloc lfree
    (bnd (new_block lmalloc 32) (\<lambda>cur_block. bnd (new_block lmalloc 64) (\<lambda>new_blink.
     seqp (block_set_size_and_allocated cur_block 32 0)
    (seqp (block_set_size_and_allocated new_blink 64 0)
    (seqp (block_set_blink cur_block new_blink)
    (seqp (expect (block_blink cur_block) (\<lambda>b. b = new_blink))
    (seqp (expect (block_size cur_block) (\<lambda>v. v = 32))
    (seqp (expect (block_size new_blink) (\<lambda>v. v = 64))
    (seqp (expect (block_allocated cur_block) (\<lambda>v. v = 0))
    (seqp (expect (block_allocated new_blink) (\<lambda>v. v = 0))
    (ret [cur_block, new_blink])))))))))))"

text \<open>
  The two assertions on the links of a block, on \<open>payload[0]\<close> and \<open>payload[1]\<close>; where
  the code checks them in the other order they read the same words.
\<close>

definition expect_links :: "int \<Rightarrow> int \<Rightarrow> int \<Rightarrow> (heap, unit) prog" where
  "expect_links b fl bl =
     seqp (expect (load (payload b 0)) (\<lambda>v. v = fl)) (expect (load (payload b 1)) (\<lambda>v. v = bl))"

definition expect_first :: "int \<Rightarrow> (heap, unit) prog" where
  "expect_first b = expect (gets flist_first) (\<lambda>f. f = b)"

definition insert_free_block_test ::
  "(int \<Rightarrow> (heap, int) prog) \<Rightarrow> (int \<Rightarrow> (heap, unit) prog) \<Rightarrow> (heap, unit) prog" where
  "insert_free_block_test lmalloc lfree = with_sentinels lmalloc lfree
    (bnd (new_block lmalloc 32) (\<lambda>block1. bnd (new_block lmalloc 64) (\<lambda>block2.
     bnd (new_block lmalloc 48) (\<lambda>block3.
     seqp (set_flist_first NULL)
    (seqp (block_set_size_and_allocated block1 32 0)
    (seqp (block_set_size_and_allocated block2 64 0)
    (seqp (block_set_size_and_allocated block3 48 0)
    (seqp (insert_free_block block1)
    (seqp (expect_first block1)
    (seqp (expect_links block1 block1 block1)
    (seqp (insert_free_block block2)
    (seqp (expect_first block2)
    (seqp (bnd (gets flist_first) (\<lambda>first. expect_links first block1 block1))
    (seqp (bnd (gets flist_first) (\<lambda>first. expect_links block1 first first))
    (seqp (expect_links block2 block1 block1)
    (seqp (insert_free_block block3)
    (seqp (expect_first block3)
    (seqp (expect_links block3 block2 block1)
    (seqp (expect (load (payload block2 1)) (\<lambda>v. v = block3))
    (seqp (expect (load (payload block1 0)) (\<lambda>v. v = block3))
    (ret [block1, block2, block3])))))))))))))))))))))"

definition pull_free_block_test ::
  "(int \<Rightarrow> (heap, int) prog) \<Rightarrow> (int \<Rightarrow> (heap, unit) prog) \<Rightarrow> (heap, unit) prog" where
  "pull_free_block_test lmalloc lfree = with_sentinels lmalloc lfree
    (bnd (new_block lmalloc 32) (\<lambda>block_one. bnd (new_block lmalloc 64) (\<lambda>block_two.
     bnd (new_block lmalloc 48) (\<lambda>block_three.
     seqp (set_flist_first NULL)
    (seqp (block_set_size_and_allocated block_one 32 0)
    (seqp (block_set_size_and_allocated block_two 64 0)
    (seqp (block_set_size_and_allocated block_three 48 0)
    (seqp (insert_free_block block_three)
    (seqp (insert_free_block block_two)
    (seqp (insert_free_block block_one)
    (seqp (pull_free_block block_two)
    (seqp (expect_links block_one block_three block_three)
    (seqp (expect_links block_three block_one block_one)
    (seqp (expect (gets flist_first) (\<lambda>f. f \<noteq> NULL))
    (seqp (expect_first block_one)
    (seqp (pull_free_block block_three)
    (seqp (expect_links block_one block_one block_one)
    (seqp (expect (gets flist_first) (\<lambda>f. f \<noteq> NULL))
    (seqp (expect_first block_one)
    (seqp (pull_free_block block_one)
    (seqp (expect_first NULL)
    (bnd (new_block lmalloc 32) (\<lambda>block_four. bnd (new_block lmalloc 64) (\<lambda>block_five.
     bnd (new_block lmalloc 48) (\<lambda>block_six. bnd (new_block lmalloc 96) (\<lambda>block_seven.
     seqp (block_set_size_and_allocated block_four 32 0)
    (seqp (block_set_size_and_allocated block_five 64 0)
    (seqp (block_set_size_and_allocated block_six 48 0)
    (seqp (block_set_size_and_allocated block_seven 96 0)
    (seqp (insert_free_block block_seven)
    (seqp (insert_free_block block_six)
    (seqp (insert_free_block block_five)
    (seqp (insert_free_block block_four)
    (seqp (pull_free_block block_four)
    (seqp (expect_links block_five block_six block_seven)
    (seqp (expect_links block_seven block_five block_six)
    (seqp (expect (gets flist_first) (\<lambda>f. f \<noteq> NULL))
    (seqp (expect_first block_five)
    (seqp (pull_free_block block_five)
    (seqp (expect_links block_six block_seven block_seven)
    (seqp (expect_links block_seven block_six block_six)
    (seqp (expect (gets flist_first) (\<lambda>f. f \<noteq> NULL))
    (seqp (expect_first block_six)
    (seqp (pull_free_block block_six)
    (seqp (expect_links block_seven block_seven block_seven)
    (seqp (expect (gets flist_first) (\<lambda>f. f \<noteq> NULL))
    (seqp (expect_first block_seven)
    (seqp (pull_free_block block_seven)
    (seqp (expect_first NULL)
    (ret [block_one, block_two, block_three, block_four, block_five, block_six, block_seven]))))))))))))))))))))))))))))))))))))))))))))))))))"

section \<open>The runner\<close>

datatype test_message = Testing | Running string | Unknown_Test string | Test_Usage | All_Passed

record test_state =
  lib :: heap
  sim :: heap
  messages :: "test_message list"

definition on_lib :: "(heap, unit) prog \<Rightarrow> (test_state, unit) prog" where
  "on_lib m = (\<lambda>s. case m (lib s) of Inl e \<Rightarrow> Inl e | Inr (x, h) \<Rightarrow> Inr (x, s\<lparr>lib := h\<rparr>))"

definition on_sim :: "(heap, unit) prog \<Rightarrow> (test_state, unit) prog" where
  "on_sim m = (\<lambda>s. case m (sim s) of Inl e \<Rightarrow> Inl e | Inr (x, h) \<Rightarrow> Inr (x, s\<lparr>sim := h\<rparr>))"

definition announce :: "test_message \<Rightarrow> (test_state, unit) prog" where
  "announce x = modify (\<lambda>s. s\<lparr>messages := x # messages s\<rparr>)"

text \<open>The tests by name, in the order in which \<^verbatim>\<open>all\<close> runs them.\<close>

definition inline_tests ::
  "(int \<Rightarrow> (heap, int) prog) \<Rightarrow> (int \<Rightarrow> (heap, unit) prog) \<Rightarrow> int option \<Rightarrow> (int \<Rightarrow> (heap, unit) prog) \<Rightarrow>
   (string \<times> (test_state, unit) prog) list" where
  "inline_tests lmalloc lfree vm vfree =
     [(''block_size'', on_lib (set_size_test lmalloc lfree)),
      (''block_allocated'', on_lib (set_allocated_test lmalloc lfree)),
      (''block_size_and_allocated'', on_lib (set_size_and_allocated_test lmalloc lfree)),
      (''end_tag'', on_lib (end_tag_test lmalloc lfree)),
      (''block_prev'', on_sim (prev_test vm vfree)),
      (''block_next'', on_sim (next_test vm vfree)),
      (''payload_to_block'', on_lib (payload_to_block_test lmalloc lfree)),
      (''next_size_and_allocated'', on_sim (next_size_allocated_test vm vfree)),
      (''prev_size_and_allocated'', on_sim (prev_size_allocated_test vm vfree)),
      (''set_blink'', on_lib (set_blink_test lmalloc lfree)),
      (''set_flink'', on_lib (set_flink_test lmalloc lfree)),
      (''insert_free_block'', on_lib (insert_free_block_test lmalloc lfree)),
      (''pull_free_block'', on_lib (pull_free_block_test lmalloc lfree))]"

definition run_test_in_separate_process :: "string \<times> (test_state, unit) prog \<Rightarrow> (test_state, unit) prog" where
  "run_test_in_separate_process = (\<lambda>(message, func). seqp (announce (Running message)) func)"

fun run_tests :: "(string \<times> (test_state, unit) prog) list \<Rightarrow> (test_state, unit) prog" where
  "run_tests [] = ret ()"
| "run_tests (t # ts) = seqp (run_test_in_separate_process t) (run_tests ts)"

text \<open>A name that is not a test is reported unless it begins with a number.\<close>

fun run_named :: "(string \<times> (test_state, unit) prog) list \<Rightarrow> string list \<Rightarrow> (test_state, unit) prog" where
  "run_named tests [] = ret ()"
| "run_named tests (name # names) =
     seqp (case map_of tests name of
             Some func \<Rightarrow> run_test_in_separate_process (name, func)
           | None \<Rightarrow> bnd (sscanf [] 1 name) (\<lambda>vs.
               if length vs \<noteq> 1 then announce (Unknown_Test name) else ret ()))
          (run_named tests names)"

definition foreach_test :: "(string \<times> (test_state, unit) prog) list \<Rightarrow> string list \<Rightarrow> (test_state, unit) prog" where
  "foreach_test tests test_names =
     (if test_names ! 1 = ''all'' then run_tests tests else run_named tests (tl test_names))"

definition tests_main :: "(string \<times> (test_state, unit) prog) list \<Rightarrow> string list \<Rightarrow> (test_state, int) prog" where
  "tests_main tests argv =
     seqp (announce Testing)
    (if length argv < 2 then seqp (announce Test_Usage) (ret 1)
     else seqp (foreach_test tests argv) (seqp (announce All_Passed) (ret 0)))"

end
