(* ===== verification/Test_Library.thy ===== *)
theory Test_Library
  imports Inline_Tests
begin

text \<open>
  A logic for the unit tests.  \<open>runs m s Q\<close> says that \<open>m\<close> returns from \<open>s\<close> and that \<open>Q\<close>
  holds of its result and the state it leaves.  The locale \<open>test_library\<close> states what
  the tests need of the C library: new blocks are aligned and apart from the old
  ones, keep their bytes, and lie where the program may read and write.  It is met by
  \<open>mem_sbrk\<close>, which never takes a block back.

  Inside the locale, \<open>world\<close> describes the state of a test: the blocks it owns, their
  tags, and the free list.  There is one rule per operation of a test, with the old
  \<open>world\<close> as its major premise and the new one in its continuation, so that a test is
  proved by applying the rules along its text.
\<close>

section \<open>Programs that return\<close>

definition runs :: "('s, 'a) prog \<Rightarrow> 's \<Rightarrow> ('a \<Rightarrow> 's \<Rightarrow> bool) \<Rightarrow> bool" where
  "runs m s Q \<longleftrightarrow> (\<exists>x s'. m s = Inr (x, s') \<and> Q x s')"

named_theorems runs_intro "how a program runs"

lemma runs_eval: "m s = Inr (x, s') \<Longrightarrow> Q x s' \<Longrightarrow> runs m s Q"
  by (auto simp: runs_def)

lemma runs_bnd [runs_intro]: "runs m s (\<lambda>x s'. runs (f x) s' Q) \<Longrightarrow> runs (bnd m f) s Q"
  by (auto simp: runs_def bnd_apply)

lemma runs_seqp [runs_intro]: "runs m s (\<lambda>_ s'. runs k s' Q) \<Longrightarrow> runs (seqp m k) s Q"
  by (auto simp: runs_def seqp_apply)

lemma runs_ret [runs_intro]: "Q x s \<Longrightarrow> runs (ret x) s Q"
  by (simp add: runs_def ret_apply)

lemma runs_assertp [runs_intro]: "b \<Longrightarrow> Q () s \<Longrightarrow> runs (assertp b) s Q"
  by (simp add: runs_def assertp_def ret_apply)

lemma runs_expect [runs_intro]: "runs m s (\<lambda>v s'. P v \<and> Q () s') \<Longrightarrow> runs (expect m P) s Q"
  by (auto simp: runs_def expect_def bnd_apply assertp_def ret_apply)

lemma runs_weaken: "runs m s Q \<Longrightarrow> (\<And>x s'. Q x s' \<Longrightarrow> R x s') \<Longrightarrow> runs m s R"
  by (auto simp: runs_def)

lemmas [runs_intro] = conjI

section \<open>Blocks apart\<close>

text \<open>What \<open>malloc\<close> returns is none of the blocks that are owned.\<close>

definition unowned :: "(int \<Rightarrow> int option) \<Rightarrow> int \<Rightarrow> bool" where
  "unowned M p \<longleftrightarrow> M p = None"

lemma unowned_upd: "unowned (M(q \<mapsto> k)) p \<Longrightarrow> (p \<noteq> q \<Longrightarrow> unowned M p \<Longrightarrow> R) \<Longrightarrow> R"
  by (simp add: unowned_def split: if_split_asm)

definition given :: "(int \<Rightarrow> int option) \<Rightarrow> int \<Rightarrow> bool" where
  "given M p \<longleftrightarrow> M p \<noteq> None"

lemma given_steps: "given (M(p \<mapsto> k)) p" "p \<noteq> q \<Longrightarrow> given M p \<Longrightarrow> given (M(q := v)) p"
  by (simp_all add: given_def)

text \<open>Two maps agree outside \<open>X\<close>: how the blocks that a test frees return to the old ones.\<close>

definition same_but :: "int set \<Rightarrow> (int \<Rightarrow> int option) \<Rightarrow> (int \<Rightarrow> int option) \<Rightarrow> bool" where
  "same_but X M' M \<longleftrightarrow> (\<forall>x. x \<notin> X \<longrightarrow> M' x = M x)"

lemma same_but_steps:
  "same_but X M M"
  "unowned M p \<Longrightarrow> same_but (insert p X) M' M \<Longrightarrow> same_but X (M'(p := None)) M"
  "p \<in> X \<Longrightarrow> same_but X M' M \<Longrightarrow> same_but X (M'(p \<mapsto> k)) M"
  by (auto simp: same_but_def unowned_def)

lemma same_but_empty: "same_but {} M' M \<Longrightarrow> M' = M"
  by (simp add: same_but_def fun_eq_iff)

section \<open>The library\<close>

locale test_library =
  fixes owns :: "heap \<Rightarrow> (int \<Rightarrow> int option) \<Rightarrow> int \<Rightarrow> bool"
    and lmalloc :: "int \<Rightarrow> (heap, int) prog"
    and lfree :: "int \<Rightarrow> (heap, unit) prog"
  assumes malloc: "owns s M m \<Longrightarrow> 0 < n \<Longrightarrow> n mod 8 = 0 \<Longrightarrow> n \<le> m \<Longrightarrow>
      \<exists>p s'. lmalloc n s = Inr (p, s') \<and> M p = None \<and> owns s' (M(p \<mapsto> n)) (m - n) \<and>
        flist_first s' = flist_first s \<and> prologue s' = prologue s \<and> epilogue s' = epilogue s \<and>
        (\<forall>q k x. M q = Some k \<longrightarrow> q \<le> x \<longrightarrow> x < q + k \<longrightarrow> mem s' x = mem s x)"
    and free: "owns s M m \<Longrightarrow> M p = Some n \<Longrightarrow>
      \<exists>s'. lfree p s = Inr ((), s') \<and> owns s' (M(p := None)) m \<and>
        prologue s' = prologue s \<and> epilogue s' = epilogue s"
    and writes: "owns s M m \<Longrightarrow>
      (\<And>x. (\<forall>p k. M p = Some k \<longrightarrow> x < p \<or> p + k \<le> x) \<Longrightarrow> mem s' x = mem s x) \<Longrightarrow>
      mem_start_brk s' = mem_start_brk s \<Longrightarrow> mem_brk s' = mem_brk s \<Longrightarrow>
      mem_max_addr s' = mem_max_addr s \<Longrightarrow> owns s' M m"
    and place: "owns s M m \<Longrightarrow> M p = Some k \<Longrightarrow>
      0 < p \<and> p mod 8 = 0 \<and> mem_start_brk s \<le> p \<and> p + k \<le> mem_brk s \<and> mem_brk s < 2 ^ 62"
    and apart: "owns s M m \<Longrightarrow> M p = Some j \<Longrightarrow> M q = Some k \<Longrightarrow> p \<noteq> q \<Longrightarrow> p + j \<le> q \<or> q + k \<le> p"
begin

lemma inside:
  assumes "owns s M m" and "M p = Some k" and "p \<le> a" and "a + 8 \<le> p + k" and "a mod 8 = 0"
  shows "word_ok s a"
  using place [OF assms(1,2)] assms by (simp add: word_ok_def in_heap_def)

text \<open>Words of two blocks are different words.\<close>

lemma other_word:
  assumes "owns s M m" and "M p = Some j" and "M q = Some k" and "p \<noteq> q"
    and "p \<le> a" and "a + 8 \<le> p + j" and "q \<le> b" and "b + 8 \<le> q + k"
  shows "a + 8 \<le> b \<or> b + 8 \<le> a"
  using apart [OF assms(1-4)] assms(5-8) by linarith

section \<open>The state of a test\<close>

text \<open>
  \<open>T\<close> gives size and flag of the blocks that have been tagged; a block of size \<open>sz\<close> has
  \<open>sz + 16\<close> bytes.  \<open>fl\<close> is the free list, or \<open>None\<close> when nothing is known of it.
\<close>

definition tags :: "heap \<Rightarrow> (int \<Rightarrow> int option) \<Rightarrow> (int \<Rightarrow> (int \<times> bool) option) \<Rightarrow> bool" where
  "tags s M T \<longleftrightarrow>
     (\<forall>b sz al. T b = Some (sz, al) \<longrightarrow> M b = Some (sz + 16) \<and> sz mod 8 = 0 \<and> 32 \<le> sz \<and>
        wv s b = tag sz al \<and> wv s (b + sz - 8) = tag sz al)"

definition listed :: "heap \<Rightarrow> (int \<Rightarrow> (int \<times> bool) option) \<Rightarrow> int list option \<Rightarrow> bool" where
  "listed s T fl \<longleftrightarrow>
     (\<forall>xs. fl = Some xs \<longrightarrow> free_links s xs \<and> (\<forall>b\<in>set xs. \<exists>sz. T b = Some (sz, False)))"

definition world ::
  "heap \<Rightarrow> int \<times> int \<Rightarrow> (int \<Rightarrow> int option) \<Rightarrow> (int \<Rightarrow> (int \<times> bool) option) \<Rightarrow> int list option \<Rightarrow> int \<Rightarrow> bool" where
  "world s pe M T fl m \<longleftrightarrow>
     owns s M m \<and> prologue s = fst pe \<and> epilogue s = snd pe \<and> tags s M T \<and> listed s T fl"

lemma tagsD:
  assumes "world s pe M T fl m" and "T b = Some (sz, al)"
  shows "M b = Some (sz + 16)" and "sz mod 8 = 0" and "32 \<le> sz" and "wv s b = tag sz al"
    and "wv s (b + sz - 8) = tag sz al" and "tag_room s b sz"
proof -
  note t = assms(1) [unfolded world_def tags_def, THEN conjunct2, THEN conjunct2, THEN conjunct2, THEN conjunct1,
      rule_format, OF assms(2)]
  show *: "M b = Some (sz + 16)" "sz mod 8 = 0" "32 \<le> sz" "wv s b = tag sz al" "wv s (b + sz - 8) = tag sz al"
    using t by blast+
  have o: "owns s M m" using assms(1) by (simp add: world_def)
  note p = place [OF o *(1)]
  have "(b + (sz - 8)) mod 8 = 0" using p *(2) by (intro mod_add_0) (simp_all add: mod_diff_0)
  then show "tag_room s b sz"
    using inside [OF o *(1), of b] inside [OF o *(1), of "b + sz - 8"] p *(2,3)
    by (simp add: tag_room_def algebra_simps)
qed

lemma room:
  assumes "owns s M m" and "M b = Some (sz + 16)" and "sz mod 8 = 0" and "32 \<le> sz"
  shows "tag_room s b sz"
proof -
  note p = place [OF assms(1,2)]
  have "(b + (sz - 8)) mod 8 = 0" using p assms(3) by (intro mod_add_0) (simp_all add: mod_diff_0)
  then show ?thesis
    using inside [OF assms(1,2), of b] inside [OF assms(1,2), of "b + sz - 8"] p assms(3,4)
    by (simp add: tag_room_def algebra_simps)
qed

text \<open>A block that has been tagged and is free is a node for the free list.\<close>

lemma free_blocks:
  assumes "world s pe M T fl m" and "\<And>b. b \<in> A \<Longrightarrow> \<exists>sz. T b = Some (sz, False)"
  shows "free_nodes s A"
proof -
  have o: "owns s M m" using assms(1) by (simp add: world_def)
  have node: "b mod 8 = 0 \<and> is_long b \<and> word_ok s b \<and> word_ok s (b + 8) \<and> word_ok s (b + 16) \<and>
      even (wv s b) \<and> b \<noteq> NULL" if b: "b \<in> A" for b
  proof -
    obtain sz where "T b = Some (sz, False)" using assms(2) [OF b] by blast
    note t = tagsD [OF assms(1) this] and p = place [OF o tagsD(1) [OF assms(1) this]]
    have mods: "(b + 8) mod 8 = 0" "(b + 16) mod 8 = 0" using p by presburger+
    have "even sz" using t(2) by presburger
    then have "even (wv s b)" using t(4) by (simp add: tag_def)
    then show ?thesis
      using p t(3) mods inside [OF o t(1), of b] inside [OF o t(1), of "b + 8"] inside [OF o t(1), of "b + 16"]
      by (simp add: NULL_def is_long_def)
  qed
  have "a + 24 \<le> b \<or> b + 24 \<le> a" if ab: "a \<in> A" "b \<in> A" "a \<noteq> b" for a b
  proof -
    obtain j k where jk: "T a = Some (j, False)" "T b = Some (k, False)" using assms(2) ab by blast
    note a = tagsD(1,3) [OF assms(1) jk(1)] and b = tagsD(1,3) [OF assms(1) jk(2)]
    show ?thesis using apart [OF o a(1) b(1) ab(3)] a(2) b(2) by linarith
  qed
  then show ?thesis using node unfolding free_nodes_def nodes_def Freelist.apart_def by blast
qed

text \<open>A change that leaves the tags and the links alone.\<close>

lemma world_same:
  assumes w: "world s pe M T fl m" and o: "owns s' M' m'"
    and sub: "\<And>b k. T b \<noteq> None \<Longrightarrow> M b = Some k \<Longrightarrow> M' b = Some k"
    and same: "\<And>b sz al a. T b = Some (sz, al) \<Longrightarrow> b \<le> a \<Longrightarrow> a + 8 \<le> b + sz \<Longrightarrow> a mod 8 = 0 \<Longrightarrow> wv s' a = wv s a"
    and glob: "flist_first s' = flist_first s" "prologue s' = fst pe'" "epilogue s' = snd pe'"
  shows "world s' pe' M' T fl m'"
proof -
  have word: "M' b = Some (sz + 16) \<and> wv s' b = wv s b \<and> wv s' (b + 8) = wv s (b + 8) \<and>
      wv s' (b + 16) = wv s (b + 16) \<and> wv s' (b + sz - 8) = wv s (b + sz - 8)" if T: "T b = Some (sz, al)" for b sz al
  proof -
    note t = tagsD [OF w T]
    have al: "b mod 8 = 0" "(b + sz - 8) mod 8 = 0" using tag_room_aligned [OF t(6)] by blast+
    have mods: "(b + 8) mod 8 = 0" "(b + 16) mod 8 = 0" using al(1) by presburger+
    show ?thesis
      using t(1,3) sub [of b] T same [OF T, of b] same [OF T, of "b + 8"] same [OF T, of "b + 16"]
        same [OF T, of "b + sz - 8"] al mods by simp
  qed
  have "tags s' M' T"
    unfolding tags_def using word tagsD [OF w] by metis
  moreover have "listed s' T fl"
  proof -
    have "free_links s' xs" if xs: "fl = Some xs" "free_links s xs" "\<forall>b\<in>set xs. \<exists>sz. T b = Some (sz, False)" for xs
    proof -
      have "ring (wv s') xs = ring (wv s) xs" by (rule ring_cong) (use xs(3) word in blast)
      then show ?thesis using xs(2) glob(1) by (simp add: free_links_def)
    qed
    then show ?thesis using w unfolding world_def listed_def by blast
  qed
  ultimately show ?thesis using o glob by (simp add: world_def)
qed

lemma world_forget: "world s pe M T fl m \<Longrightarrow> world s pe M T None m"
  by (simp add: world_def listed_def)

section \<open>The rules\<close>

named_theorems world_rules "how an operation of a test changes its world"

lemma world_malloc [world_rules]:
  assumes w: "world s pe M T fl m" and n: "0 < n" "n mod 8 = 0" "n \<le> m"
    and Q: "\<And>p s'. p \<noteq> NULL \<Longrightarrow> unowned M p \<Longrightarrow> world s' pe (M(p \<mapsto> n)) T fl (m - n) \<Longrightarrow> Q p s'"
  shows "runs (lmalloc n) s Q"
proof -
  have o: "owns s M m" using w by (simp add: world_def)
  obtain p s' where p: "lmalloc n s = Inr (p, s')" "M p = None" "owns s' (M(p \<mapsto> n)) (m - n)"
      "flist_first s' = flist_first s" "prologue s' = prologue s" "epilogue s' = epilogue s"
    and old: "\<And>q k x. M q = Some k \<Longrightarrow> q \<le> x \<Longrightarrow> x < q + k \<Longrightarrow> mem s' x = mem s x"
    using malloc [OF o n] by blast
  have "world s' pe (M(p \<mapsto> n)) T fl (m - n)"
  proof (rule world_same [OF w p(3)])
    fix b sz al a assume T: "T b = Some (sz, al)" and a: "b \<le> a" "a + 8 \<le> b + sz"
    show "wv s' a = wv s a"
      by (rule wv_cong) (use old [OF tagsD(1) [OF w T]] a in auto)
  qed (use w p in \<open>auto simp: world_def\<close>)
  moreover have "p \<noteq> NULL" using place [OF p(3), of p n] by (simp add: NULL_def)
  ultimately show ?thesis using p(1,2) Q by (auto simp: unowned_def intro: runs_eval)
qed

text \<open>Assignments to the globals.\<close>

lemma world_assign:
  assumes w: "world s pe M T fl m" and same: "mem s' = mem s" "mem_start_brk s' = mem_start_brk s"
      "mem_brk s' = mem_brk s" "mem_max_addr s' = mem_max_addr s"
    and glob: "flist_first s' = flist_first s" "prologue s' = fst pe'" "epilogue s' = snd pe'"
  shows "world s' pe' M T fl m"
proof (rule world_same [OF w])
  show "owns s' M m"
    by (rule writes [of s]) (use w same in \<open>simp_all add: world_def\<close>)
next
  fix b a sz al show "wv s' a = wv s a" by (rule wv_cong) (simp add: same)
qed (use glob in simp_all)

lemma world_prologue [world_rules]:
  "world s (q, e) M T fl m \<Longrightarrow> (\<And>s'. world s' (p, e) M T fl m \<Longrightarrow> Q () s') \<Longrightarrow>
     runs (modify (\<lambda>s. s\<lparr>prologue := p\<rparr>)) s Q"
  using world_assign [of s "(q, e)" M T fl m "s\<lparr>prologue := p\<rparr>" "(p, e)"]
  by (auto simp: world_def intro!: runs_eval [OF modify_apply])

lemma world_epilogue [world_rules]:
  "world s (p, q) M T fl m \<Longrightarrow> (\<And>s'. world s' (p, e) M T fl m \<Longrightarrow> Q () s') \<Longrightarrow>
     runs (modify (\<lambda>s. s\<lparr>epilogue := e\<rparr>)) s Q"
  using world_assign [of s "(p, q)" M T fl m "s\<lparr>epilogue := e\<rparr>" "(p, e)"]
  by (auto simp: world_def intro!: runs_eval [OF modify_apply])

lemma world_clear [world_rules]:
  assumes w: "world s pe M T fl m" and Q: "\<And>s'. world s' pe M T (Some []) m \<Longrightarrow> Q () s'"
  shows "runs (set_flist_first NULL) s Q"
proof -
  let ?s = "s\<lparr>flist_first := NULL\<rparr>"
  have "owns ?s M m"
    by (rule writes [of s]) (use w in \<open>simp_all add: world_def\<close>)
  then have "world ?s pe M T (Some []) m"
    using w by (simp add: world_def tags_def listed_def free_links_def)
  then show ?thesis
    using Q by (auto simp: set_flist_first_def intro!: runs_eval [OF modify_apply])
qed

lemma world_gets [world_rules]:
  "world s (p, e) M T fl m \<Longrightarrow> (world s (p, e) M T fl m \<Longrightarrow> Q p s) \<Longrightarrow> runs (gets prologue) s Q"
  "world s (p, e) M T fl m \<Longrightarrow> (world s (p, e) M T fl m \<Longrightarrow> Q e s) \<Longrightarrow> runs (gets epilogue) s Q"
  "world s pe M T (Some xs) m \<Longrightarrow>
     (world s pe M T (Some xs) m \<Longrightarrow> Q (case xs of [] \<Rightarrow> NULL | x # _ \<Rightarrow> x) s) \<Longrightarrow>
     runs (gets flist_first) s Q"
  by (auto simp: world_def listed_def free_links_def intro!: runs_eval [OF gets_apply])

text \<open>Setting the tags of a block that is not in the list.\<close>

lemma world_untag:
  assumes "world s pe M T fl m" and "\<And>xs. fl = Some xs \<Longrightarrow> b \<notin> set xs"
  shows "world s pe M (T(b := None)) fl m"
proof -
  have "tags s M (T(b := None))" using assms(1) by (simp add: world_def tags_def)
  moreover have "listed s (T(b := None)) fl" using assms by (fastforce simp: world_def listed_def)
  ultimately show ?thesis using assms(1) by (simp add: world_def)
qed

lemma world_tag:
  assumes "world s pe M (T(b := None)) fl m" and "M b = Some (sz + 16)" "sz mod 8 = 0" "32 \<le> sz"
    and "wv s b = tag sz al" "wv s (b + sz - 8) = tag sz al"
  shows "world s pe M (T(b \<mapsto> (sz, al))) fl m"
proof -
  have "tags s M (T(b := None))" using assms(1) by (simp add: world_def)
  then have "tags s M (T(b \<mapsto> (sz, al)))"
    unfolding tags_def using assms(2-6) by (simp split: if_split_asm) blast
  moreover have "listed s (T(b \<mapsto> (sz, al))) fl"
    using assms(1) unfolding world_def listed_def by (metis fun_upd_apply option.distinct(1))
  ultimately show ?thesis using assms(1) by (simp add: world_def)
qed

lemma world_tagged:
  assumes w: "world s pe M T fl m" and M: "M b = Some (sz + 16)" "sz mod 8 = 0" "32 \<le> sz"
    and out: "\<And>xs. fl = Some xs \<Longrightarrow> b \<notin> set xs"
  shows "tag_room s b sz" and "world (tagged b sz al s) pe M (T(b \<mapsto> (sz, al))) fl m"
proof -
  let ?s = "tagged b sz al s"
  have o: "owns s M m" using w by (simp add: world_def)
  show room: "tag_room s b sz" by (rule room [OF o M(1-3)])
  have o': "owns ?s M m"
  proof (rule writes [OF o])
    fix x assume "\<forall>p k. M p = Some k \<longrightarrow> x < p \<or> p + k \<le> x"
    then have "x < b \<or> b + (sz + 16) \<le> x" using M(1) by blast
    then show "mem ?s x = mem s x" using M(3) by (intro mem_tagged) auto
  qed simp_all
  have "world ?s pe M (T(b := None)) fl m"
  proof (rule world_same [OF world_untag [OF w out] o'])
    fix c k z a
    assume T: "(T(b := None)) c = Some (k, z)" and a: "c \<le> a" "a + 8 \<le> c + k"
    then have "c \<noteq> b" "T c = Some (k, z)" by (auto split: if_splits)
    note off = apart [OF o M(1) tagsD(1) [OF w this(2)] this(1) [symmetric]]
    show "wv ?s a = wv s a"
    proof (rule wv_cong)
      fix x assume "a \<le> x" "x < a + 8"
      then show "mem ?s x = mem s x" using off a M(3) by (intro mem_tagged) auto
    qed
  qed (use w in \<open>simp_all add: world_def\<close>)
  moreover have "wv ?s b = tag sz al" "wv ?s (b + sz - 8) = tag sz al"
    using tag_room_aligned [OF room] by (simp_all add: wv_tagged [OF room])
  ultimately show "world ?s pe M (T(b \<mapsto> (sz, al))) fl m"
    using M out by (intro world_tag) simp_all
qed

lemma world_set [world_rules]:
  assumes w: "world s pe M T fl m"
    and M: "M b = Some (sz + 16)" "sz mod 8 = 0" "32 \<le> sz" and out: "\<forall>xs. fl = Some xs \<longrightarrow> b \<notin> set xs"
    and al: "al = 0 \<or> al = 1"
    and Q: "\<And>s'. world s' pe M (T(b \<mapsto> (sz, al \<noteq> 0))) fl m \<Longrightarrow> Q () s'"
  shows "runs (block_set_size_and_allocated b sz al) s Q"
proof -
  note t = world_tagged(1) [OF w M] world_tagged(2) [OF w M, where al = "al \<noteq> 0"]
  have "block_set_size_and_allocated b sz (of_bool (al \<noteq> 0)) s = Inr ((), tagged b sz (al \<noteq> 0) s)"
    by (rule block_set_size_and_allocated_ok) (rule t(1), use out in blast)
  moreover have "of_bool (al \<noteq> 0) = al" using al by auto
  ultimately show ?thesis using Q t(2) out by (auto intro: runs_eval)
qed

lemma world_set_size [world_rules]:
  assumes w: "world s pe M T fl m"
    and M: "M b = Some (sz + 16)" "sz mod 8 = 0" "32 \<le> sz" and out: "\<forall>xs. fl = Some xs \<longrightarrow> b \<notin> set xs"
    and Q: "\<And>s' al. al = odd (wv s b) \<Longrightarrow> world s' pe M (T(b \<mapsto> (sz, al))) fl m \<Longrightarrow> Q () s'"
  shows "runs (block_set_size b sz) s Q"
  using world_tagged [OF w M] out Q by (blast intro: runs_eval block_set_size_ok)

lemma world_set_allocated [world_rules]:
  assumes w: "world s pe M T fl m" and T: "T b \<noteq> None" and out: "\<forall>xs. fl = Some xs \<longrightarrow> b \<notin> set xs"
    and al: "al = 0 \<or> al = 1"
    and Q: "\<And>s'. world s' pe M (T(b \<mapsto> (fst (the (T b)), al \<noteq> 0))) fl m \<Longrightarrow> Q () s'"
  shows "runs (block_set_allocated b al) s Q"
proof -
  obtain sz x where T: "T b = Some (sz, x)" using T by auto
  note d = tagsD [OF w T]
  note t = world_tagged(2) [OF w d(1-3), where al = "al \<noteq> 0"]
  have "block_set_allocated b (of_bool (al \<noteq> 0)) s = Inr ((), tagged b sz (al \<noteq> 0) s)"
    by (rule block_set_allocated_ok [OF d(6,4,5)])
  moreover have "of_bool (al \<noteq> 0) = al" using al by auto
  ultimately show ?thesis using Q t out T by (auto intro: runs_eval)
qed

text \<open>Reading the tags.\<close>

lemma world_read:
  assumes w: "world s pe M T fl m" and T: "T b \<noteq> None"
  shows "block_size b s = Inr (fst (the (T b)), s)" and "block_end_size b s = Inr (fst (the (T b)), s)"
    and "block_allocated b s = Inr (of_bool (snd (the (T b))), s)"
    and "block_end_allocated b s = Inr (of_bool (snd (the (T b))), s)"
proof -
  obtain sz al where T: "T b = Some (sz, al)" using T by auto
  note t = tagsD [OF w T]
  have "word_ok s b" using t(6) by (simp add: tag_room_def)
  then show "block_size b s = Inr (fst (the (T b)), s)" "block_end_size b s = Inr (fst (the (T b)), s)"
    "block_allocated b s = Inr (of_bool (snd (the (T b))), s)"
    "block_end_allocated b s = Inr (of_bool (snd (the (T b))), s)"
    using T tag_parity [OF t(2), of al] t(4) block_end_size_ok [OF t(6,4,5)]
    by (simp_all add: block_size_ok block_allocated_ok)
qed

lemma world_reads [world_rules]:
  "world s pe M T fl m \<Longrightarrow> T b \<noteq> None \<Longrightarrow> (world s pe M T fl m \<Longrightarrow> Q (fst (the (T b))) s) \<Longrightarrow>
     runs (block_size b) s Q"
  "world s pe M T fl m \<Longrightarrow> T b \<noteq> None \<Longrightarrow> (world s pe M T fl m \<Longrightarrow> Q (fst (the (T b))) s) \<Longrightarrow>
     runs (block_end_size b) s Q"
  "world s pe M T fl m \<Longrightarrow> T b \<noteq> None \<Longrightarrow>
     (world s pe M T fl m \<Longrightarrow> Q (of_bool (snd (the (T b)))) s) \<Longrightarrow> runs (block_allocated b) s Q"
  "world s pe M T fl m \<Longrightarrow> T b \<noteq> None \<Longrightarrow>
     (world s pe M T fl m \<Longrightarrow> Q (of_bool (snd (the (T b)))) s) \<Longrightarrow> runs (block_end_allocated b) s Q"
  by (blast intro: runs_eval world_read)+

lemma world_free [world_rules]:
  assumes w: "world s pe M T fl m" and M: "given M b"
    and Q: "\<And>s'. world s' pe (M(b := None)) Map.empty None m \<Longrightarrow> Q () s'"
  shows "runs (lfree b) s Q"
proof -
  obtain n where "M b = Some n" using M by (auto simp: given_def)
  moreover have "owns s M m" using w by (simp add: world_def)
  ultimately obtain s' where "lfree b s = Inr ((), s')" "owns s' (M(b := None)) m"
      "prologue s' = prologue s" "epilogue s' = epilogue s"
    using free by blast
  with w Q show ?thesis
    by (auto simp: world_def tags_def listed_def intro: runs_eval)
qed

text \<open>The links of a block: by a pair of calls, and in a list.\<close>

lemma world_links:
  assumes w: "world s pe M T fl m" and A: "\<And>b. b \<in> A \<Longrightarrow> map_option snd (T b) = Some False"
    and l: "links_only A s s'" and glob: "prologue s' = fst pe" "epilogue s' = snd pe"
  shows "world s' pe M T None m" and "listed s' T fl' \<Longrightarrow> world s' pe M T fl' m"
proof -
  have o: "owns s M m" using w by (simp add: world_def)
  have ex: "\<exists>sz. T b = Some (sz, False)" if "b \<in> A" for b using A [OF that] by auto
  have "owns s' M m"
  proof (rule writes [OF o])
    fix x assume x: "\<forall>p k. M p = Some k \<longrightarrow> x < p \<or> p + k \<le> x"
    have "x < b + 8 \<or> b + 24 \<le> x" if b: "b \<in> A" for b
    proof -
      obtain sz where T: "T b = Some (sz, False)" using ex [OF b] by blast
      show ?thesis using x tagsD(1,3) [OF w T] by fastforce
    qed
    then show "mem s' x = mem s x" using l by (simp add: links_only_def)
  qed (use l in \<open>simp_all add: links_only_def\<close>)
  moreover have "tags s' M T"
  proof -
    have "wv s' c = wv s c \<and> wv s' (c + sz - 8) = wv s (c + sz - 8)" if T: "T c = Some (sz, al)" for c sz al
    proof -
      note t = tagsD [OF w T]
      have "c + 8 \<le> y + 8 \<or> y + 24 \<le> c" and "c + sz - 8 + 8 \<le> y + 8 \<or> y + 24 \<le> c + sz - 8"
        if y: "y \<in> A" for y
      proof -
        obtain k where "T y = Some (k, False)" using ex [OF y] by blast
        note u = tagsD(1,3) [OF w this]
        show "c + 8 \<le> y + 8 \<or> y + 24 \<le> c" "c + sz - 8 + 8 \<le> y + 8 \<or> y + 24 \<le> c + sz - 8"
          using apart [OF o t(1) u(1)] t(3) u(2) by (cases "c = y"; auto)+
      qed
      then show ?thesis by (intro conjI links_only_wv [OF l])
    qed
    then show ?thesis using w by (simp add: world_def tags_def)
  qed
  ultimately show "world s' pe M T None m" "listed s' T fl' \<Longrightarrow> world s' pe M T fl' m"
    using glob by (simp_all add: world_def listed_def)
qed

lemma world_set_flink [world_rules]:
  assumes w: "world s pe M T fl m" and T: "map_option snd (T b) = Some False" "map_option snd (T c) = Some False"
    and Q: "\<And>s'. world s' pe M T None m \<Longrightarrow> block_flink b s' = Inr (c, s') \<Longrightarrow> Q () s'"
  shows "runs (block_set_flink b c) s Q"
proof -
  let ?A = "{b, c}" and ?s = "poke (b + 8) c s"
  have A: "free_nodes s ?A" by (rule free_blocks [OF w]) (use T in auto)
  then have A': "free_nodes ?s ?A" by simp
  have "is_long c" using nodesD(3) [OF free_nodes_nodes [OF A]] by simp
  then have "wv ?s (b + 8) = c" using words.rd_flink_cell(1) [OF free_nodes_nodes [OF A], of b b c s] by simp
  then have "block_flink b ?s = Inr (c, ?s)" by (simp add: node_steps [OF A'])
  moreover have "world ?s pe M T None m"
    by (rule world_links [OF w, of ?A]) (use T w in \<open>auto simp: world_def intro: links_only_cell links_only_refl\<close>)
  ultimately show ?thesis using Q by (auto intro: runs_eval node_steps(4) [OF A])
qed

lemma world_set_blink [world_rules]:
  assumes w: "world s pe M T fl m" and T: "map_option snd (T b) = Some False" "map_option snd (T c) = Some False"
    and Q: "\<And>s'. world s' pe M T None m \<Longrightarrow> block_blink b s' = Inr (c, s') \<Longrightarrow> Q () s'"
  shows "runs (block_set_blink b c) s Q"
proof -
  let ?A = "{b, c}" and ?s = "poke (b + 16) c s"
  have A: "free_nodes s ?A" by (rule free_blocks [OF w]) (use T in auto)
  then have A': "free_nodes ?s ?A" by simp
  have "is_long c" using nodesD(3) [OF free_nodes_nodes [OF A]] by simp
  then have "wv ?s (b + 16) = c" using words.rd_blink_cell(1) [OF free_nodes_nodes [OF A], of b b c s] by simp
  then have "block_blink b ?s = Inr (c, ?s)" by (simp add: node_steps [OF A'])
  moreover have "world ?s pe M T None m"
    by (rule world_links [OF w, of ?A]) (use T w in \<open>auto simp: world_def intro: links_only_cell links_only_refl\<close>)
  ultimately show ?thesis using Q by (auto intro: runs_eval node_steps(5) [OF A])
qed

lemma world_known [world_rules]:
  "block_flink b s = Inr (c, s) \<Longrightarrow> Q c s \<Longrightarrow> runs (block_flink b) s Q"
  "block_blink b s = Inr (c, s) \<Longrightarrow> Q c s \<Longrightarrow> runs (block_blink b) s Q"
  by (blast intro: runs_eval)+

lemma world_listed:
  assumes "world s pe M T (Some xs) m"
  shows "free_links s xs" and "b \<in> set xs \<Longrightarrow> map_option snd (T b) = Some False"
    and "b \<in> set xs \<Longrightarrow> \<exists>sz. T b = Some (sz, False)"
proof -
  have l: "free_links s xs \<and> (\<forall>b\<in>set xs. \<exists>sz. T b = Some (sz, False))"
    using assms by (simp add: world_def listed_def)
  then show "free_links s xs" and "b \<in> set xs \<Longrightarrow> \<exists>sz. T b = Some (sz, False)" by blast+
  then show "b \<in> set xs \<Longrightarrow> map_option snd (T b) = Some False" by fastforce
qed

lemma world_insert [world_rules]:
  assumes w: "world s pe M T (Some xs) m" and T: "map_option snd (T b) = Some False" and b: "b \<notin> set xs"
    and Q: "\<And>s'. world s' pe M T (Some (b # xs)) m \<Longrightarrow> Q () s'"
  shows "runs (insert_free_block b) s Q"
proof -
  let ?A = "set (b # xs)"
  have T': "map_option snd (T c) = Some False" if "c \<in> ?A" for c
    using T world_listed(2) [OF w] that by auto
  have "free_nodes s ?A" by (rule free_blocks [OF w]) (use T' in fastforce)
  then obtain s' where s': "insert_free_block b s = Inr ((), s')" "free_links s' (b # xs)" "links_only ?A s s'"
    using insert_free_block_links [OF world_listed(1) [OF w] b] by blast
  have "world s' pe M T (Some (b # xs)) m"
  proof (rule world_links(2) [OF w T' s'(3)])
    show "listed s' T (Some (b # xs))" using s'(2) T' by (fastforce simp: listed_def)
  qed (use w s'(3) in \<open>simp_all add: world_def links_only_def\<close>)
  then show ?thesis using Q s'(1) by (blast intro: runs_eval)
qed

lemma world_pull [world_rules]:
  assumes w: "world s pe M T (Some xs) m" and b: "b \<in> set xs"
    and Q: "\<And>s'. world s' pe M T (Some (remove1 b xs)) m \<Longrightarrow> Q () s'"
  shows "runs (pull_free_block b) s Q"
proof -
  obtain us vs where xs: "xs = us @ b # vs" "b \<notin> set us" using split_list_first [OF b] by blast
  then have r: "remove1 b xs = us @ vs" by (simp add: remove1_append)
  have f: "free_links s (us @ b # vs)" using world_listed(1) [OF w] xs(1) by simp
  note T' = world_listed(2) [OF w]
  have "free_nodes s (set (us @ b # vs))" by (rule free_blocks [OF w]) (use T' xs(1) in fastforce)
  then obtain s' where s': "pull_free_block b s = Inr ((), s')" "free_links s' (us @ vs)"
      "links_only (set (us @ vs)) s s'"
    using pull_free_block_links [OF f] by blast
  have "world s' pe M T (Some (us @ vs)) m"
  proof (rule world_links(2) [OF w _ s'(3)])
    show "listed s' T (Some (us @ vs))" using s'(2) T' xs(1) by (fastforce simp: listed_def)
  qed (use w s'(3) T' xs(1) in \<open>auto simp: world_def links_only_def\<close>)
  then show ?thesis using Q s'(1) r by (auto intro: runs_eval)
qed

text \<open>What the link words of a block of the list hold: its neighbours on the circle.\<close>

definition next_in :: "int list \<Rightarrow> int \<Rightarrow> int" where
  "next_in xs b = (case dropWhile ((\<noteq>) b) xs of _ # y # _ \<Rightarrow> y | _ \<Rightarrow> hd xs)"

definition prev_in :: "int list \<Rightarrow> int \<Rightarrow> int" where
  "prev_in xs b = (case takeWhile ((\<noteq>) b) xs of [] \<Rightarrow> last xs | ys \<Rightarrow> last ys)"

lemma world_loads [world_rules]:
  assumes w: "world s pe M T (Some xs) m" and b: "b \<in> set xs"
  shows "(world s pe M T (Some xs) m \<Longrightarrow> Q (next_in xs b) s) \<Longrightarrow> runs (load (payload b 0)) s Q"
    and "(world s pe M T (Some xs) m \<Longrightarrow> Q (prev_in xs b) s) \<Longrightarrow> runs (load (payload b 1)) s Q"
proof -
  obtain us vs where xs: "xs = us @ b # vs" "b \<notin> set us" using split_list_first [OF b] by blast
  have f: "free_links s (us @ b # vs)" using world_listed(1) [OF w] xs(1) by simp
  have tw: "takeWhile ((\<noteq>) b) us = us" "dropWhile ((\<noteq>) b) us = []"
    using xs(2) by (auto simp: takeWhile_eq_all_conv)
  have "hd (vs @ us @ [b]) = next_in xs b" "last (b # vs @ us) = prev_in xs b"
    using xs by (auto simp: next_in_def prev_in_def tw dropWhile_append takeWhile_append hd_append
        split: list.splits)
  with free_links_cells [OF f] have "wv s (b + 8) = next_in xs b" "wv s (b + 16) = prev_in xs b"
    by simp_all
  moreover have "word_ok s (b + 8)" "word_ok s (b + 16)"
    using free_blocks [OF w world_listed(3) [OF w]] b by (simp_all add: free_nodes_def)
  ultimately show "(world s pe M T (Some xs) m \<Longrightarrow> Q (next_in xs b) s) \<Longrightarrow> runs (load (payload b 0)) s Q"
    and "(world s pe M T (Some xs) m \<Longrightarrow> Q (prev_in xs b) s) \<Longrightarrow> runs (load (payload b 1)) s Q"
    using w by (auto intro: runs_eval load_ok)
qed

end

end
