(* ===== verification/Test_Pass.thy ===== *)
theory Test_Pass
  imports Test_Library
begin

text \<open>
  The tests pass.  Those on library blocks are proved inside \<open>test_library\<close> by its rules;
  those on \<open>mem_sbrk\<close> by evaluation.
\<close>

context test_library
begin

text \<open>A test passes and gives back what it took.\<close>

definition passes :: "(heap, unit) prog \<Rightarrow> bool" where
  "passes t \<longleftrightarrow> (\<forall>s M m. owns s M m \<longrightarrow> 600 \<le> m \<longrightarrow> runs t s (\<lambda>_ s'. \<exists>m'\<ge>m - 600. owns s' M m'))"

lemma world_start: "owns s M m \<Longrightarrow> world s (prologue s, epilogue s) M Map.empty None m"
  by (simp add: world_def tags_def listed_def)

lemma passesI:
  assumes "\<And>s p e M m. 600 \<le> m \<Longrightarrow> world s (p, e) M Map.empty None m \<Longrightarrow>
    runs t s (\<lambda>_ s'. \<exists>pe' M' T fl m'. world s' pe' M' T fl m' \<and> same_but {} M' M \<and> m - 600 \<le> m')"
  shows "passes t"
  unfolding passes_def
proof (intro allI impI)
  fix s M and m :: int assume o: "owns s M m" and m: "600 \<le> m"
  show "runs t s (\<lambda>_ s'. \<exists>m'\<ge>m - 600. owns s' M m')"
    by (rule runs_weaken [OF assms [OF m world_start [OF o]]]) (auto simp: world_def dest!: same_but_empty)
qed

lemma world_end:
  "world s pe M' T fl m' \<Longrightarrow> same_but {} M' M \<Longrightarrow> m - 600 \<le> m' \<Longrightarrow>
     \<exists>pe' M' T fl m'. world s pe' M' T fl m' \<and> same_but {} M' M \<and> m - 600 \<le> m'"
  by blast

lemma runs_free_all [runs_intro]:
  "Q () s \<Longrightarrow> runs (free_all lfree []) s Q"
  "runs (lfree b) s (\<lambda>_ s'. runs (free_all lfree bs) s' Q) \<Longrightarrow> runs (free_all lfree (b # bs)) s Q"
  by (auto simp: runs_def ret_apply seqp_apply)

lemmas test_defs = with_sentinels_def new_block_def expect_links_def expect_first_def
  set_allocated_test_def set_size_and_allocated_test_def end_tag_test_def payload_to_block_test_def
  set_flink_test_def set_blink_test_def insert_free_block_test_def pull_free_block_test_def

lemmas test_simps = payload_to_block_def next_in_def prev_in_def

lemma lib_tests_pass:
  "passes (set_allocated_test lmalloc lfree)"
  "passes (set_size_and_allocated_test lmalloc lfree)"
  "passes (end_tag_test lmalloc lfree)"
  "passes (payload_to_block_test lmalloc lfree)"
  "passes (set_flink_test lmalloc lfree)"
  "passes (set_blink_test lmalloc lfree)"
  "passes (insert_free_block_test lmalloc lfree)"
  "passes (pull_free_block_test lmalloc lfree)"
  unfolding test_defs
  by (erule unowned_upd | rule runs_intro given_steps same_but_steps passesI | erule world_rules world_end |
      (simp (no_asm_simp) add: test_simps; fail))+

section \<open>block\_set\_size on new memory\<close>

text \<open>
  \<open>block_set_size\<close> keeps the flag of the block, so the test of the size needs blocks
  whose flag is clear when \<open>malloc\<close> returns them.
\<close>

definition flag :: "heap \<Rightarrow> int \<Rightarrow> bool \<Rightarrow> bool" where
  "flag s b v \<longleftrightarrow> (odd (wv s b) \<longleftrightarrow> v)"

definition marks :: "bool \<Rightarrow> bool" where
  "marks v \<longleftrightarrow> (\<forall>n s p s'. lmalloc n s = Inr (p, s') \<longrightarrow> flag s' p v)"

definition kept :: "(int \<Rightarrow> int option) \<Rightarrow> heap \<Rightarrow> heap \<Rightarrow> bool" where
  "kept M s s' \<longleftrightarrow> (\<forall>b v. given M b \<and> 8 \<le> the (M b) \<and> flag s b v \<longrightarrow> flag s' b v)"

lemma keptD: "kept M s s' \<Longrightarrow> given M b \<Longrightarrow> 8 \<le> the (M b) \<Longrightarrow> flag s b v \<Longrightarrow> flag s' b v"
  by (simp add: kept_def)

lemma world_malloc_flag:
  assumes w: "world s pe M T fl m" and c: "marks v" and n: "0 < n" "n mod 8 = 0" "n \<le> m"
    and Q: "\<And>p s'. p \<noteq> NULL \<Longrightarrow> unowned M p \<Longrightarrow> flag s' p v \<Longrightarrow> kept M s s' \<Longrightarrow>
      world s' pe (M(p \<mapsto> n)) T fl (m - n) \<Longrightarrow> Q p s'"
  shows "runs (lmalloc n) s Q"
proof -
  obtain p s' where r: "lmalloc n s = Inr (p, s')"
    using malloc [of s M m n] w n by (auto simp: world_def)
  have "kept M s s'"
    unfolding kept_def flag_def given_def
  proof (intro allI impI)
    fix b u assume b: "M b \<noteq> None \<and> 8 \<le> the (M b) \<and> odd (wv s b) = u"
    have "wv s' b = wv s b"
      by (rule wv_cong) (use malloc [of s M m n] w n r b in \<open>fastforce simp: world_def\<close>)
    then show "odd (wv s' b) = u" using b by simp
  qed
  moreover have "runs (lmalloc n) s (\<lambda>p s'. p \<noteq> NULL \<and> unowned M p \<and> world s' pe (M(p \<mapsto> n)) T fl (m - n))"
    by (rule world_malloc [OF w n]) simp
  ultimately show ?thesis
    using r c Q by (auto simp: runs_def marks_def)
qed

lemma world_set_size_flag:
  assumes w: "world s pe M T fl m" and M: "M b = Some (sz + 16)" "sz mod 8 = 0" "32 \<le> sz"
    and out: "\<forall>xs. fl = Some xs \<longrightarrow> b \<notin> set xs" and b: "flag s b v"
    and Q: "\<And>s'. kept (M(b := None)) s s' \<Longrightarrow> world s' pe M (T(b \<mapsto> (sz, v))) fl m \<Longrightarrow> Q () s'"
  shows "runs (block_set_size b sz) s Q"
proof -
  let ?s = "tagged b sz v s"
  have o: "owns s M m" using w by (simp add: world_def)
  note t = world_tagged [OF w M]
  have room: "tag_room s b sz" by (rule t(1)) (use out in blast)
  have "kept (M(b := None)) s ?s"
    unfolding kept_def flag_def given_def
  proof (intro allI impI)
    fix c u assume c: "(M(b := None)) c \<noteq> None \<and> 8 \<le> the ((M(b := None)) c) \<and> odd (wv s c) = u"
    then obtain k where k: "M c = Some k" "c \<noteq> b" "8 \<le> k" by (auto split: if_split_asm)
    have "wv ?s c = wv s c"
    proof (rule wv_cong)
      fix x assume "c \<le> x" "x < c + 8"
      then show "mem ?s x = mem s x"
        using apart [OF o M(1) k(1) k(2) [symmetric]] k(3) M(3) by (intro mem_tagged) auto
    qed
    then show "odd (wv ?s c) = u" using c by simp
  qed
  then show ?thesis
    using t(2) [where al = v] out Q block_set_size_ok [OF room] b by (auto simp: flag_def intro: runs_eval)
qed

lemma world_load_tag:
  assumes w: "world s pe M T fl m" and T: "T b \<noteq> None"
    and Q: "world s pe M T fl m \<Longrightarrow> Q (fst (the (T b)) + of_bool (snd (the (T b)))) s"
  shows "runs (load b) s Q"
proof -
  obtain sz al where T: "T b = Some (sz, al)" using T by auto
  show ?thesis
    using tagsD(4,6) [OF w T] T w Q by (auto simp: tag_def tag_room_def intro!: runs_eval load_ok)
qed

lemma size_test_passes: "marks False \<Longrightarrow> passes (set_size_test lmalloc lfree)"
  unfolding test_defs set_size_test_def
  by (assumption | erule unowned_upd | rule runs_intro given_steps same_but_steps 
      passesI | erule keptD world_malloc_flag world_set_size_flag world_load_tag world_rules world_end |
      (simp (no_asm_simp) add: test_simps; fail))+

text \<open>With the flag set in new memory the first assertion on \<open>size\<close> fails.\<close>

lemma halts_expect: "runs m s (\<lambda>v s'. \<not> P v) \<Longrightarrow> seqp (expect m P) k s = Inl Assert_Failed"
  by (auto simp: runs_def bnd_apply seqp_apply expect_def assertp_def raise_def)

lemma halts_bnd: "runs m s (\<lambda>x s'. f x s' = Inl e) \<Longrightarrow> bnd m f s = Inl e"
  by (auto simp: runs_def bnd_apply)

lemma halts_seqp: "runs m s (\<lambda>_ s'. k s' = Inl e) \<Longrightarrow> seqp m k s = Inl e"
  by (auto simp: runs_def seqp_apply)

lemma size_test_fails:
  assumes "marks True" and o: "owns s M m" and "600 \<le> m"
  shows "set_size_test lmalloc lfree s = Inl Assert_Failed"
proof -
  have flat: "bnd (bnd m f) g = bnd m (\<lambda>x. bnd (f x) g)" "bnd (seqp l k) g = seqp l (bnd k g)"
    for m :: "(heap, int) prog" and f :: "int \<Rightarrow> (heap, int list) prog" and l k and g :: "int list \<Rightarrow> (heap, unit) prog"
    by (auto simp: bnd_def seqp_def fun_eq_iff split: sum.split)
  show ?thesis
    using assms(1,3) world_start [OF o] unfolding test_defs set_size_test_def flat
    by - (assumption | erule unowned_upd | rule halts_expect halts_bnd halts_seqp runs_intro given_steps |
      erule keptD world_malloc_flag world_set_size_flag world_load_tag world_rules |
      (simp (no_asm_simp); fail))+
qed

end

end
