(* ===== verification/Test_Sbrk.thy ===== *)
theory Test_Sbrk
  imports Test_Library
begin

text \<open>The tests on blocks from \<open>mem_sbrk\<close>: three blocks in a row on a new heap.\<close>

section \<open>Three blocks in a row\<close>

definition placed :: "heap \<Rightarrow> int \<Rightarrow> int \<Rightarrow> bool \<Rightarrow> bool" where
  "placed s b sz al \<longleftrightarrow> tag_room s b sz \<and> wv s b = tag sz al \<and> wv s (b + sz - 8) = tag sz al"

lemma placed_tagged: "tag_room s b sz \<Longrightarrow> placed (tagged b sz al s) b sz al"
  using tag_room_aligned [of s b sz] by (simp add: placed_def tag_room_def [of "tagged b sz al s"] wv_tagged)
    (simp add: tag_room_def)

lemma placed_other:
  assumes "placed s b sz al" and "tag_room s c k" and "b + sz \<le> c"
  shows "placed (tagged c k x s) b sz al"
  using assms tag_room_aligned [of s b sz] by (auto simp: placed_def tag_room_def [of "tagged c k x s"] wv_tagged)
    (auto simp: tag_room_def)

lemma three_blocks:
  assumes vm: "vm = Some lo" "0 < lo" "lo mod 8 = 0" "lo + MAX_HEAP < 2 ^ 62"
    and n: "i mod 8 = 0" "16 \<le> i" "j mod 8 = 0" "16 \<le> j" "k mod 8 = 0" "16 \<le> k" "i + j + k \<le> 1000"
    and Q: "\<And>s'. placed s' lo i x \<Longrightarrow> placed s' (lo + i) j y \<Longrightarrow> placed s' (lo + i + j) k z \<Longrightarrow>
      mem_start_brk s' = lo \<Longrightarrow> runs (f lo (lo + i) (lo + i + j)) s' Q"
  shows "runs (seqp (mem_init vm)
     (bnd (mem_sbrk i) (\<lambda>a. bnd (mem_sbrk j) (\<lambda>b. bnd (mem_sbrk k) (\<lambda>c.
      seqp (block_set_size_and_allocated a i (of_bool x))
     (seqp (block_set_size_and_allocated b j (of_bool y))
     (seqp (block_set_size_and_allocated c k (of_bool z))
      (f a b c)))))))) s Q"
proof -
  define s0 where "s0 = s\<lparr>mem_start_brk := lo, mem_max_addr := lo + MAX_HEAP, mem_brk := lo + i + j + k\<rparr>"
  let ?b = "lo + i" and ?c = "lo + i + j"
  let ?s1 = "tagged lo i x s0"
  let ?s2 = "tagged ?b j y ?s1"
  let ?s3 = "tagged ?c k z ?s2"
  have room: "tag_room t a n"
    if "mem_start_brk t = lo" "mem_brk t = lo + i + j + k" "a mod 8 = 0" "lo \<le> a" "a + n \<le> lo + i + j + k"
      "n mod 8 = 0" "16 \<le> n" for t :: heap and a n
  proof -
    have "(a + (n - 8)) mod 8 = 0" using that(3,6) by presburger
    then show ?thesis using that n by (simp add: tag_room_def word_ok_def in_heap_def algebra_simps)
  qed
  have al: "?b mod 8 = 0" "?c mod 8 = 0" using vm(3) n(1,3) by presburger+
  have r: "tag_room s0 lo i" "tag_room ?s1 ?b j" "tag_room ?s2 ?c k"
    using vm(3) al n by (auto intro!: room simp: s0_def)
  have eq: "seqp (mem_init vm) (bnd (mem_sbrk i) (\<lambda>a. bnd (mem_sbrk j) (\<lambda>b. bnd (mem_sbrk k) (g a b)))) s =
      g lo ?b ?c s0" for g :: "int \<Rightarrow> int \<Rightarrow> int \<Rightarrow> (heap, 'a) prog"
    using vm(1) n by (simp add: mem_init_def prog_eval mem_sbrk_apply MAX_HEAP_def s0_def)
  have "placed ?s3 lo i x" "placed ?s3 ?b j y" "placed ?s3 ?c k z"
    using r n by (auto intro!: placed_other placed_tagged)
  moreover have "mem_start_brk ?s3 = lo" by (simp add: s0_def)
  ultimately have "runs (f lo ?b ?c) ?s3 Q" by (rule Q)
  then show ?thesis
    unfolding runs_def eq by (simp add: prog_eval block_set_size_and_allocated_ok r)
qed

section \<open>The tests\<close>

lemma placed_reads:
  assumes "placed s b sz al"
  shows "block_size b s = Inr (sz, s) \<and> block_allocated b s = Inr (of_bool al, s) \<and>
    block_next b s = Inr (b + sz, s) \<and> block_prev_size (b + sz) s = Inr (sz, s) \<and>
    block_prev (b + sz) s = Inr (b, s)"
  using assms tag_parity [of sz al]
  by (simp add: block_size_ok block_allocated_ok block_next_ok block_prev_size_ok block_prev_ok placed_def tag_room_def)

lemmas three_blocks_01 =
  three_blocks [where x = True and y = False and z = False, unfolded of_bool_eq]
  three_blocks [where x = True and y = False and z = True, unfolded of_bool_eq]

lemma sbrk_tests_pass:
  assumes vm: "vm = Some lo" "0 < lo" "lo mod 8 = 0" "lo + MAX_HEAP < 2 ^ 62"
    and free: "\<And>s. \<exists>s'. vfree lo s = Inr ((), s')"
  shows "runs (prev_test vm vfree) s (\<lambda>_ _. True)"
    and "runs (next_test vm vfree) s (\<lambda>_ _. True)"
    and "runs (next_size_allocated_test vm vfree) s (\<lambda>_ _. True)"
    and "runs (prev_size_allocated_test vm vfree) s (\<lambda>_ _. True)"
proof -
  have deinit: "runs (mem_deinit vfree) t (\<lambda>_ _. True)" if "mem_start_brk t = lo" for t
    using free [of t] that by (auto simp: runs_def mem_deinit_def prog_eval)
  note defs = prev_test_def next_test_def next_size_allocated_test_def prev_size_allocated_test_def
    block_next_allocated_def block_next_size_def block_prev_allocated_def
  note evals = deinit [unfolded runs_def, simplified] runs_def expect_def prog_eval
  show "runs (prev_test vm vfree) s (\<lambda>_ _. True)" "runs (next_test vm vfree) s (\<lambda>_ _. True)"
    "runs (next_size_allocated_test vm vfree) s (\<lambda>_ _. True)"
    "runs (prev_size_allocated_test vm vfree) s (\<lambda>_ _. True)"
    unfolding defs
    by (rule three_blocks_01 [OF vm]; (auto dest!: placed_reads simp: evals; fail))+
qed

end
