(* ===== verification/Test_Main.thy ===== *)
theory Test_Main
  imports Test_Pass Test_Sbrk
begin

text \<open>
  The runner of the unit tests: every call of the test program with a correct
  library ends with all named tests passed, and its messages are told by the names.
  Two concrete libraries meet the contract: \<open>mem_sbrk\<close> with memory that is cleared,
  and \<open>mem_sbrk\<close> with memory that is filled.
\<close>

section \<open>One test\<close>

text \<open>What running the names reports.\<close>

definition said :: "string list \<Rightarrow> string \<Rightarrow> test_message list" where
  "said known name =
     (if name \<in> set known then [Running name] else if ints 1 name = [] then [Unknown_Test name] else [])"

definition test_order :: "string list \<Rightarrow> string list \<Rightarrow> string list" where
  "test_order known names = (if hd names = ''all'' then known else names)"

lemma runs_on_lib [runs_intro]: "runs t (lib st) (\<lambda>x h. Q x (st\<lparr>lib := h\<rparr>)) \<Longrightarrow> runs (on_lib t) st Q"
  by (auto simp: runs_def on_lib_def)

lemma runs_on_sim [runs_intro]: "runs t (sim st) (\<lambda>x h. Q x (st\<lparr>sim := h\<rparr>)) \<Longrightarrow> runs (on_sim t) st Q"
  by (auto simp: runs_def on_sim_def)

lemma runs_announce [runs_intro]: "Q () (st\<lparr>messages := x # messages st\<rparr>) \<Longrightarrow> runs (announce x) st Q"
  by (simp add: runs_def announce_def modify_apply)

context test_library
begin

text \<open>A state of the runner with room for \<open>k\<close> more tests.\<close>

definition ready :: "(int \<Rightarrow> int option) \<Rightarrow> nat \<Rightarrow> test_message list \<Rightarrow> test_state \<Rightarrow> bool" where
  "ready M k ms st \<longleftrightarrow> messages st = ms \<and> (\<exists>m\<ge>600 * int k. owns (lib st) M m)"

lemma ready_lib:
  assumes "passes t" and "ready M (Suc k) ms st"
  shows "runs (on_lib t) st (\<lambda>_. ready M k ms)"
proof -
  obtain m where m: "600 * int (Suc k) \<le> m" "owns (lib st) M m" and ms: "messages st = ms"
    using assms(2) by (auto simp: ready_def)
  have "runs t (lib st) (\<lambda>_ h. \<exists>m'\<ge>m - 600. owns h M m')"
    using assms(1) m unfolding passes_def by simp
  then show ?thesis
  proof (intro runs_on_lib, elim runs_weaken exE conjE)
    fix h m' assume "m - 600 \<le> m'" "owns h M m'"
    moreover from this(1) m(1) have "600 * int k \<le> m'" by simp
    ultimately show "ready M k ms (st\<lparr>lib := h\<rparr>)" using ms by (auto simp: ready_def)
  qed
qed

lemma ready_sim:
  assumes "runs t (sim st) (\<lambda>_ _. True)" and "ready M (Suc k) ms st"
  shows "runs (on_sim t) st (\<lambda>_. ready M k ms)"
proof (intro runs_on_sim runs_weaken [OF assms(1)])
  fix h
  obtain m where "600 * int (Suc k) \<le> m" "owns (lib st) M m" "messages st = ms"
    using assms(2) by (auto simp: ready_def)
  then show "ready M k ms (st\<lparr>sim := h\<rparr>)"
    unfolding ready_def by (intro conjI exI [of _ m]) simp_all
qed

lemma one_test:
  assumes vm: "vm = Some lo" "0 < lo" "lo mod 8 = 0" "lo + MAX_HEAP < 2 ^ 62"
    and vfree: "\<And>s. \<exists>s'. vfree lo s = Inr ((), s')"
    and t: "(name, t) \<in> set (inline_tests lmalloc lfree vm vfree)" and c: "name = ''block_size'' \<Longrightarrow> marks False"
    and st: "ready M (Suc k) ms st"
  shows "runs t st (\<lambda>_. ready M k ms)"
proof -
  note sbrk = sbrk_tests_pass [where vm = vm and vfree = vfree, OF vm vfree, THEN ready_sim [OF _ st]]
  note lib = lib_tests_pass [THEN ready_lib [OF _ st]]
  show ?thesis
    using t c size_test_passes [THEN ready_lib [OF _ st]] unfolding inline_tests_def
    by (auto simp: lib sbrk simp del: One_nat_def)
qed

lemma ready_less:
  assumes "ready M (Suc k) ms st"
  shows "ready M k ms st"
proof -
  obtain m where "600 * int (Suc k) \<le> m" "owns (lib st) M m" "messages st = ms"
    using assms by (auto simp: ready_def)
  then show ?thesis unfolding ready_def by (intro conjI exI [of _ m]) simp_all
qed

lemma ready_announce [simp]:
  "ready M k ms (st\<lparr>messages := x # messages st\<rparr>) \<longleftrightarrow> (\<exists>ms'. ms = x # ms' \<and> ready M k ms' st)"
  by (auto simp: ready_def)

text \<open>Running the tests of a list of pairs in turn.\<close>

lemma run_tests_run:
  assumes "\<And>name t k ms st. (name, t) \<in> set tests \<Longrightarrow> ready M (Suc k) ms st \<Longrightarrow> runs t st (\<lambda>_. ready M k ms)"
    and "ready M (length tests + k) ms st"
  shows "runs (run_tests tests) st (\<lambda>_. ready M k (rev (map (Running \<circ> fst) tests) @ ms))"
  using assms
proof (induction tests arbitrary: st ms)
  case Nil
  then show ?case by (auto intro: runs_intro)
next
  case (Cons t tests)
  obtain name f where t: "t = (name, f)" by (cases t)
  have "runs f (st\<lparr>messages := Running name # messages st\<rparr>) (\<lambda>_. ready M (length tests + k) (Running name # ms))"
    by (rule Cons.prems(1) [of name]) (use Cons.prems(2) t in simp_all)
  moreover have "runs (run_tests tests) st' (\<lambda>_. ready M k (rev (map (Running \<circ> fst) tests) @ Running name # ms))"
    if "ready M (length tests + k) (Running name # ms) st'" for st'
    by (rule Cons.IH [OF _ that]) (auto intro: Cons.prems(1))
  ultimately have "runs f (st\<lparr>messages := Running name # messages st\<rparr>)
      (\<lambda>_ st'. runs (run_tests tests) st' (\<lambda>_. ready M k (rev (map (Running \<circ> fst) tests) @ Running name # ms)))"
    by (rule runs_weaken)
  then show ?case
    using t by (auto simp: run_test_in_separate_process_def comp_def intro!: runs_intro)
qed

lemma named_run:
  assumes one: "\<And>t. (name, t) \<in> set tests \<Longrightarrow> ready M (Suc k) (Running name # ms) (st\<lparr>messages := Running name # messages st\<rparr>) \<Longrightarrow>
      runs t (st\<lparr>messages := Running name # messages st\<rparr>) (\<lambda>_. ready M k (Running name # ms))"
    and int: "list_all is_int (ints 1 name)" and st: "ready M (Suc k) ms st"
  shows "runs (case map_of tests name of
             Some func \<Rightarrow> run_test_in_separate_process (name, func)
           | None \<Rightarrow> bnd (sscanf [] 1 name) (\<lambda>vs.
               if length vs \<noteq> 1 then announce (Unknown_Test name) else ret ())) st
    (\<lambda>_. ready M k (rev (said (map fst tests) name) @ ms))"
proof (cases "map_of tests name")
  case None
  then have new: "name \<notin> set (map fst tests)" by (simp add: map_of_eq_None_iff)
  have scan: "sscanf [] 1 name st = Inr (ints 1 name, st)"
    using int by (simp add: sscanf_def ret_apply)
  have len: "length (ints 1 name) = 1 \<or> ints 1 name = []"
    by (simp split: option.split prod.split)
  show ?thesis
    using len None new ready_less [OF st]
    by (auto simp: said_def runs_def bnd_apply scan announce_def modify_apply ret_apply simp del: One_nat_def ints.simps)
next
  case (Some t)
  from map_of_SomeD [OF this] have t: "(name, t) \<in> set tests" .
  then have "name \<in> set (map fst tests)" by force
  then show ?thesis
    using one [OF t] Some st by (auto simp: said_def run_test_in_separate_process_def intro!: runs_intro)
qed

lemma names_run:
  assumes "\<And>name t k ms st. (name, t) \<in> set tests \<Longrightarrow> name \<in> set names \<Longrightarrow> ready M (Suc k) ms st \<Longrightarrow>
      runs t st (\<lambda>_. ready M k ms)"
    and "\<forall>n\<in>set names. list_all is_int (ints 1 n)"
    and "ready M (length names + k) ms st"
  shows "runs (run_named tests names) st
    (\<lambda>_. ready M k (rev (concat (map (said (map fst tests)) names)) @ ms))"
  using assms
proof (induction names arbitrary: st ms)
  case Nil
  then show ?case by (auto intro: runs_intro)
next
  case (Cons n names)
  have rest: "runs (run_named tests names) st' (\<lambda>_. ready M k (rev (concat (map (said (map fst tests)) names)) @ ms'))"
    if "ready M (length names + k) ms' st'" for ms' st'
    by (rule Cons.IH) (use Cons.prems that in auto)
  show ?case
    unfolding run_named.simps
    by (rule runs_seqp, rule runs_weaken [OF named_run [where k = "length names + k" and ms = ms]])
      (use Cons.prems rest in auto)
qed

text \<open>The whole program.\<close>

lemma tests_main_run:
  assumes vm: "vm = Some lo" "0 < lo" "lo mod 8 = 0" "lo + MAX_HEAP < 2 ^ 62"
    and vfree: "\<And>s. \<exists>s'. vfree lo s = Inr ((), s')"
    and order: "order = test_order (map fst (inline_tests lmalloc lfree vm vfree)) names" and names: "names \<noteq> []"
    and c: "''block_size'' \<in> set order \<Longrightarrow> marks False"
    and int: "\<forall>n\<in>set order. list_all is_int (ints 1 n)"
    and st: "owns (lib st) M m" "600 * int (length order) \<le> m"
  shows "runs (tests_main (inline_tests lmalloc lfree vm vfree) (prog # names)) st (\<lambda>r st'. r = 0 \<and>
    messages st' = All_Passed # rev (concat (map (said (map fst (inline_tests lmalloc lfree vm vfree))) order)) @
      Testing # messages st \<and> (\<exists>m'. owns (lib st') M m'))"
proof -
  let ?tests = "inline_tests lmalloc lfree vm vfree"
  let ?known = "map fst ?tests"
  have start: "ready M (length order) (Testing # messages st) (st\<lparr>messages := Testing # messages st\<rparr>)"
    unfolding ready_announce using st by (auto simp: ready_def)
  have one: "runs t st (\<lambda>_. ready M k ms)"
    if "(name, t) \<in> set ?tests" "name \<in> set order" "ready M (Suc k) ms st" for name t k ms st
    by (rule one_test [OF vm vfree that(1) _ that(3)]) (use c that(2) in simp)
  have all: "concat (map (said ?known) ?known) = map (Running \<circ> fst) ?tests"
  proof -
    have "concat (map (said ?known) ns) = map Running ns" if "set ns \<subseteq> set ?known" for ns
      using that by (induction ns) (simp_all add: said_def)
    from this [of ?known] show ?thesis by simp
  qed
  have "runs (foreach_test ?tests (prog # names)) (st\<lparr>messages := Testing # messages st\<rparr>)
      (\<lambda>_. ready M 0 (rev (concat (map (said ?known) order)) @ Testing # messages st))"
  proof (cases "hd names = ''all''")
    case True
    then have o: "order = ?known" using order by (simp add: test_order_def)
    have "runs (run_tests ?tests) (st\<lparr>messages := Testing # messages st\<rparr>)
        (\<lambda>_. ready M 0 (rev (map (Running \<circ> fst) ?tests) @ Testing # messages st))"
      by (rule run_tests_run) (use one o start in \<open>force+\<close>)
    then show ?thesis
      using True names unfolding o all by (cases names) (simp_all add: foreach_test_def)
  next
    case False
    then have o: "order = names" using order by (simp add: test_order_def)
    have "runs (run_named ?tests names) (st\<lparr>messages := Testing # messages st\<rparr>)
        (\<lambda>_. ready M 0 (rev (concat (map (said ?known) names)) @ Testing # messages st))"
      by (rule names_run) (use one int o start in simp_all)
    then show ?thesis
      using False names o by (cases names) (simp_all add: foreach_test_def)
  qed
  then show ?thesis
    using names unfolding tests_main_def
    by (auto simp: ready_def intro!: runs_intro elim!: runs_weaken)
qed

end

end
