(* ===== verification/Test_Memory.thy ===== *)
theory Test_Memory
  imports Test_Main
begin

text \<open>
  The contract \<open>test_library\<close> on the model's own memory: \<open>mem_sbrk\<close> as \<open>malloc\<close>, with a
  \<open>free\<close> that keeps the block, and a variant that writes a first word into each block,
  as a debugging \<open>malloc\<close> does.  With the flag bit set in that word the test of
  \<open>block_set_size\<close> fails.
\<close>

section \<open>Blocks from mem\_sbrk\<close>

definition sbrk_owns :: "heap \<Rightarrow> (int \<Rightarrow> int option) \<Rightarrow> int \<Rightarrow> bool" where
  "sbrk_owns s M m \<longleftrightarrow>
     0 < mem_start_brk s \<and> mem_start_brk s mod 8 = 0 \<and> mem_brk s mod 8 = 0 \<and>
     mem_start_brk s \<le> mem_brk s \<and> mem_brk s + m \<le> mem_max_addr s \<and> mem_brk s < 2 ^ 62 \<and>
     mem_max_addr s < 2 ^ 62 \<and>
     (\<forall>p k. M p = Some k \<longrightarrow> 0 < k \<and> p mod 8 = 0 \<and> mem_start_brk s \<le> p \<and> p + k \<le> mem_brk s) \<and>
     (\<forall>p j q k. M p = Some j \<longrightarrow> M q = Some k \<longrightarrow> p \<noteq> q \<longrightarrow> p + j \<le> q \<or> q + k \<le> p)"

definition keep_block :: "int \<Rightarrow> (heap, unit) prog" where
  "keep_block p = ret ()"

definition stamped_sbrk :: "int \<Rightarrow> int \<Rightarrow> (heap, int) prog" where
  "stamped_sbrk v n = bnd (mem_sbrk n) (\<lambda>p. seqp (store p v) (ret p))"

lemma sbrk_new:
  assumes o: "sbrk_owns s M m" and n: "0 < n" "n mod 8 = 0" "n \<le> m"
  shows "mem_sbrk n s = Inr (mem_brk s, s\<lparr>mem_brk := mem_brk s + n\<rparr>)" and "M (mem_brk s) = None"
    and "sbrk_owns (s\<lparr>mem_brk := mem_brk s + n\<rparr>) (M(mem_brk s \<mapsto> n)) (m - n)"
proof -
  let ?b = "mem_brk s" and ?M = "M(mem_brk s \<mapsto> n)"
  have fits: "?b + m \<le> mem_max_addr s" and al: "?b mod 8 = 0" and st: "mem_start_brk s \<le> ?b"
    and lay: "\<And>p k. M p = Some k \<Longrightarrow> 0 < k \<and> p mod 8 = 0 \<and> mem_start_brk s \<le> p \<and> p + k \<le> ?b"
    and off: "\<And>p j q k. M p = Some j \<Longrightarrow> M q = Some k \<Longrightarrow> p \<noteq> q \<Longrightarrow> p + j \<le> q \<or> q + k \<le> p"
    using o unfolding sbrk_owns_def by blast+
  show "mem_sbrk n s = Inr (?b, s\<lparr>mem_brk := ?b + n\<rparr>)"
    using n fits by (simp add: mem_sbrk_apply)
  show "M ?b = None"
    using lay [of ?b] by (cases "M ?b") auto
  have lay': "0 < k \<and> p mod 8 = 0 \<and> mem_start_brk s \<le> p \<and> p + k \<le> ?b + n" if "?M p = Some k" for p k
    using that lay [of p k] n(1) al st by (cases "p = ?b") auto
  have off': "p + j \<le> q \<or> q + k \<le> p" if "?M p = Some j" "?M q = Some k" "p \<noteq> q" for p j q k
    using that off [of p j q k] lay [of p j] lay [of q k] by (auto split: if_split_asm)
  have "(?b + n) mod 8 = 0" using al n(2) by presburger
  then show "sbrk_owns (s\<lparr>mem_brk := ?b + n\<rparr>) ?M (m - n)"
    using o n lay' off' fits unfolding sbrk_owns_def by (simp del: fun_upd_apply)
qed

lemma sbrk_owns_cong:
  "sbrk_owns s M m \<Longrightarrow> mem_start_brk s' = mem_start_brk s \<Longrightarrow> mem_brk s' = mem_brk s \<Longrightarrow>
     mem_max_addr s' = mem_max_addr s \<Longrightarrow> sbrk_owns s' M m"
  by (simp add: sbrk_owns_def)

lemma sbrk_owns_drop: "sbrk_owns s M m \<Longrightarrow> sbrk_owns s (M(p := None)) m"
  by (simp add: sbrk_owns_def)

lemma sbrk_owns_place:
  assumes "sbrk_owns s M m"
  shows "M p = Some k \<Longrightarrow>
      0 < p \<and> p mod 8 = 0 \<and> mem_start_brk s \<le> p \<and> p + k \<le> mem_brk s \<and> mem_brk s < 2 ^ 62"
    and "M p = Some j \<Longrightarrow> M q = Some k \<Longrightarrow> p \<noteq> q \<Longrightarrow> p + j \<le> q \<or> q + k \<le> p"
  using assms unfolding sbrk_owns_def by fastforce+

lemma stamped_new:
  assumes o: "sbrk_owns s M m" and n: "0 < n" "n mod 8 = 0" "n \<le> m"
  shows "stamped_sbrk v n s = Inr (mem_brk s, poke (mem_brk s) v (s\<lparr>mem_brk := mem_brk s + n\<rparr>))"
proof -
  have "8 \<le> n" using n by presburger
  then have "word_ok (s\<lparr>mem_brk := mem_brk s + n\<rparr>) (mem_brk s)"
    using o by (simp add: sbrk_owns_def word_ok_def in_heap_def)
  then show ?thesis by (simp add: stamped_sbrk_def prog_eval sbrk_new [OF o n])
qed

interpretation sbrk: test_library sbrk_owns mem_sbrk keep_block
proof unfold_locales
  fix s M m n assume "sbrk_owns s M m" "0 < n" "n mod 8 = 0" "n \<le> m"
  from sbrk_new [OF this] show "\<exists>p s'. mem_sbrk n s = Inr (p, s') \<and> M p = None \<and>
      sbrk_owns s' (M(p \<mapsto> n)) (m - n) \<and> flist_first s' = flist_first s \<and> prologue s' = prologue s \<and>
      epilogue s' = epilogue s \<and> (\<forall>q k x. M q = Some k \<longrightarrow> q \<le> x \<longrightarrow> x < q + k \<longrightarrow> mem s' x = mem s x)"
    by auto
qed (simp add: keep_block_def ret_apply sbrk_owns_drop; fail | (rule sbrk_owns_cong sbrk_owns_place; assumption))+

interpretation stamped: test_library sbrk_owns "stamped_sbrk v" keep_block for v
proof unfold_locales
  fix s M m n assume o: "sbrk_owns s M m" "0 < n" "n mod 8 = 0" "n \<le> m"
  let ?s = "poke (mem_brk s) v (s\<lparr>mem_brk := mem_brk s + n\<rparr>)"
  have "mem ?s x = mem s x" if "M q = Some k" "q \<le> x" "x < q + k" for q k x
    using sbrk_owns_place(1) [OF o(1) that(1)] that by (simp add: mem_poke)
  then show "\<exists>p s'. stamped_sbrk v n s = Inr (p, s') \<and> M p = None \<and>
      sbrk_owns s' (M(p \<mapsto> n)) (m - n) \<and> flist_first s' = flist_first s \<and> prologue s' = prologue s \<and>
      epilogue s' = epilogue s \<and> (\<forall>q k x. M q = Some k \<longrightarrow> q \<le> x \<longrightarrow> x < q + k \<longrightarrow> mem s' x = mem s x)"
    using stamped_new [OF o] sbrk_new(2,3) [OF o] sbrk_owns_cong [of _ _ _ ?s]
    by fastforce
qed (simp add: keep_block_def ret_apply sbrk_owns_drop; fail | (rule sbrk_owns_cong sbrk_owns_place; assumption))+

section \<open>The names of the tests\<close>

lemma inline_test_names:
  "map fst (inline_tests lmalloc lfree vm vfree) =
     [''block_size'', ''block_allocated'', ''block_size_and_allocated'', ''end_tag'', ''block_prev'', ''block_next'',
      ''payload_to_block'', ''next_size_and_allocated'', ''prev_size_and_allocated'', ''set_blink'', ''set_flink'',
      ''insert_free_block'', ''pull_free_block'']"
  by (simp add: inline_tests_def)

lemma inline_test_first:
  "\<exists>rest. inline_tests lmalloc lfree vm vfree = (''block_size'', on_lib (set_size_test lmalloc lfree)) # rest"
  by (simp add: inline_tests_def)

lemma test_names_not_numbers: "\<forall>n\<in>set (map fst (inline_tests lmalloc lfree vm vfree)). list_all is_int (ints 1 n)"
proof -
  have "list_all (\<lambda>n. list_all is_int (ints 1 n))
     [''block_size'', ''block_allocated'', ''block_size_and_allocated'', ''end_tag'', ''block_prev'', ''block_next'',
      ''payload_to_block'', ''next_size_and_allocated'', ''prev_size_and_allocated'', ''set_blink'', ''set_flink'',
      ''insert_free_block'', ''pull_free_block'']"
    by code_simp
  then show ?thesis unfolding inline_test_names by (simp only: list_all_iff)
qed

section \<open>A new heap for the tests\<close>

text \<open>What \<open>malloc\<close> returns from \<open>stamped_sbrk\<close> has the parity of the stamp.\<close>

lemma stamped_parity:
  assumes "is_long v" and "stamped_sbrk v n s = Inr (p, s')"
  shows "even (wv s' p) \<longleftrightarrow> even v"
proof -
  obtain t where t: "mem_sbrk n s = Inr (p, t)" "store p v t = Inr ((), s')"
    using assms(2) by (auto simp: stamped_sbrk_def bnd_apply seqp_apply ret_apply split: sum.splits)
  then have "word_ok t p" by (simp add: store_def split: if_split_asm)
  then have "s' = poke p v t" "p mod 8 = 0" using t(2) by (simp_all add: store_ok word_ok_def)
  then show ?thesis using assms(1) by (simp add: wv_poke)
qed

definition test_start :: test_state where
  "test_start = \<lparr>lib = \<lparr>mem = (\<lambda>_. 0), mem_start_brk = 4096, mem_brk = 4096, mem_max_addr = 4096 + MAX_HEAP,
       flist_first = 0, prologue = 0, epilogue = 0\<rparr>,
     sim = \<lparr>mem = (\<lambda>_. 0), mem_start_brk = 0, mem_brk = 0, mem_max_addr = 0,
       flist_first = 0, prologue = 0, epilogue = 0\<rparr>,
     messages = []\<rparr>"

lemma test_start_owns: "sbrk_owns (lib test_start) Map.empty 8000"
  by (simp add: sbrk_owns_def test_start_def MAX_HEAP_def)

end
