(* ===== verification/Spec2Isabelle.thy ===== *)
theory Spec2Isabelle
  imports Demo_Run Fsecs Test_Memory
begin

text \<open>
  A verification of a memory allocator and of the driver that tests it.

  \<^bold>\<open>The program.\<close>  \<^verbatim>\<open>src/mm.c\<close> is an allocator with boundary tags and an explicit free
  list; its block operations are the inline functions of \<^verbatim>\<open>src/mminline.h\<close>, and its
  memory comes from the break pointer of \<^verbatim>\<open>src/memlib.c\<close>.  \<^verbatim>\<open>src/mdriver.c\<close> reads traces of
  requests, replays each of them on the allocator three times (to check every
  result, to measure the utilization, and to measure the time), and prints a
  score; with \<^verbatim>\<open>-l\<close> it replays them on the C library's allocator, and with \<^verbatim>\<open>-r\<close> it is a
  REPL for single requests.  Time is measured by \<^verbatim>\<open>src/fsecs.c\<close> through \<^verbatim>\<open>src/ftimer.c\<close>,
  or through the K-best scheme of \<^verbatim>\<open>src/fcyc.c\<close> on the counters of \<^verbatim>\<open>src/clock.c\<close>.
  \<^verbatim>\<open>src/mminline-tests.c\<close> holds unit tests of the inline functions.

  \<^bold>\<open>How it is modelled.\<close>  Every function is a program in the state monad of \<open>Prelude\<close>,
  with a fault for each way in which C code stops without returning: a failed
  assertion, an access outside the heap or outside an array, a misaligned word, an
  overflow of a signed number, a call of \<open>exit\<close>, and a loop that has used up the fuel
  its model has.  Addresses are integers and the heap is a map from addresses to
  bytes; the 64-bit fields of a block are read and written through eight bytes.
  Where the code casts a \<open>long\<close> to an \<open>int\<close> or compares a signed \<open>char\<close>, so does the
  model.  A \<open>double\<close> is a real number.

  \<^bold>\<open>The allocator.\<close>
  \<^item> \<open>Memsys\<close>: \<^verbatim>\<open>memlib.c\<close>, the region and its break, loads and stores of words.
  \<^item> \<open>Block\<close>, \<open>Freelist\<close>: \<^verbatim>\<open>mm.h\<close> and \<^verbatim>\<open>mminline.h\<close>, tags and the circular list.
  \<^item> \<open>MM\<close>: \<^verbatim>\<open>mm.c\<close>.
  \<^item> \<open>Layout\<close>, \<open>Retag\<close>: the heap as a list of chunks, and what new tags do to it.
  \<^item> \<open>Abstract_Heap\<close>: the specification; \<open>rep s A\<close> relates a heap to its abstraction.
  \<^item> \<open>Coalesce\<close>, \<open>Free\<close>, \<open>Malloc\<close>, \<open>Realloc\<close>: each operation implements its abstract one.
  \<^item> \<open>Live\<close>, \<open>Alloc_Spec\<close>, \<open>Heap_View\<close>: the live payloads, the contracts of \<open>malloc\<close>, \<open>free\<close>,
    \<open>realloc\<close> and of writes as locales, and their interpretation on \<^verbatim>\<open>mm.c\<close>.
  \<^item> \<open>Alloc_Limits\<close>, \<open>Growth\<close>, \<open>Sessions\<close>: when an allocation succeeds, how far the break
    moves, and the sessions of a client as a step relation.

  The walk over the free list has as fuel the number of words of the heap; a free
  block has at least 32 bytes, so the walk ends before (property \<open>search_terminates\<close>).

  \<^bold>\<open>The driver.\<close>
  \<^item> \<open>Ranges\<close>: the range list, \<open>add_range\<close>, \<open>malloc_error\<close>.  \<open>Traces\<close>: the five \<open>eval\<close> functions.
    The allocator under test is the component \<open>hp\<close> of the driver's state, so that the
    same definitions run on \<^verbatim>\<open>mm.c\<close> and on the C library's allocator.
  \<^item> \<open>Replay\<close>, \<open>Eval_Valid\<close>, \<open>Eval_Util\<close>, \<open>Eval_Speed\<close>: the three replays on \<^verbatim>\<open>mm.c\<close>.  \<open>tracks d L\<close>
    says that the arrays, the ranges and the fill bytes describe the live indices \<open>L\<close>;
    \<open>trace_ok\<close> are the well-formed traces, \<open>demand\<close> bounds the memory that a trace takes,
    and \<open>peak_payload\<close> is the reference for the utilization.
  \<^item> \<open>Eval_Libc\<close>: the replay on an allocator that is only known by the contract that the
    C standard gives (locale \<open>c_library\<close>, which \<^verbatim>\<open>mm.c\<close> also meets).
  \<^item> \<open>Scan\<close>, \<open>Read_Trace\<close>: the conversions of \<open>scanf\<close>, \<open>fgets\<close>, and \<open>read_trace\<close>, with \<open>show_trace\<close>
    as its inverse.
  \<^item> \<open>Report\<close>, \<open>Run_Ok\<close>: the statistics, the tables, the command line, and the run over all
    traces of the package, with \<open>fsecs\<close> of \<open>Timing\<close> as the timer: its state holds the driver
    next to the operating system, whose \<open>setitimer\<close> and \<open>getitimer\<close> are parameters;
    \<open>counts_down\<close> is what the run needs of them.
  \<^item> \<open>Repl\<close>, \<open>Repl_Print\<close>, \<open>Repl_Ok\<close>, \<open>Repl_Loop\<close>: the REPL, with what its print command shows and
    the invariant that its sensible lines keep, up to a line that quits.  Its printer has the number of words
    of the heap as fuel, which the proof shows to be enough.
  \<^item> \<open>Whole_Run\<close>: \<open>main\<close> from the command line on: the REPL, the run over the C library's
    allocator that \<^verbatim>\<open>-l\<close> asks for, and the run over the package.

  \<^bold>\<open>Timing.\<close>
  \<^item> \<open>Fcyc\<close>: \<^verbatim>\<open>fcyc.c\<close>.  The sampling loop has \<open>maxsamples\<close> + 1 rounds of fuel, which is
    enough since every round takes a sample.  The loop of \<open>clear\<close> has one round per \<open>int\<close>
    of the buffer; a step of 0, which a cache block below 4 bytes gives, never ends.  It
    sums the ints of an uninitialised buffer; \<open>clear_ok n\<close> says that \<open>n\<close> calls end and that
    their sums stay in the range of an \<open>int\<close>.
  \<^item> \<open>Timing\<close>: \<^verbatim>\<open>clock.c\<close>, \<^verbatim>\<open>ftimer.c\<close> and \<open>fsecs\<close>.  The calibration waits for ticks that the
    program cannot force, so its fuel is an argument; \<open>Calibrate\<close> shows how much is enough
    on a clock that goes on, and what it records; the user time is counted apart from
    the cycles, so that a sleep may take none of it.
  \<^item> \<open>Fsecs\<close>: \<^verbatim>\<open>fsecs.c\<close> with its three timing methods on one state, and bounds for the time
    that they report on even clocks.

  \<^bold>\<open>The unit tests.\<close>
  \<^item> \<open>Inline_Tests\<close>: \<^verbatim>\<open>mminline-tests.c\<close>, its thirteen tests, the table of their names and \<open>main\<close>.
  \<^item> \<open>Test_Library\<close>: what the tests need of \<open>malloc\<close> and \<open>free\<close> of the C library, as the locale
    \<open>test_library\<close>, and in it a rule for each operation of a test.
  \<^item> \<open>Test_Pass\<close>, \<open>Test_Sbrk\<close>, \<open>Test_Main\<close>: the tests on library blocks, those on blocks from
    \<open>mem_sbrk\<close>, and the runner.
  \<^item> \<open>Test_Memory\<close>: the locale on the model's \<open>mem_sbrk\<close>, and the heap for the witnesses.

  \<open>Demo\<close>, \<open>Demo_Driver\<close> and \<open>Demo_Run\<close> hold the heaps, traces and files on which the
  properties below are exercised.

  \<^bold>\<open>What the properties say.\<close>  First the contracts and refinements of the allocator
  and the safety of its sessions; then the driver as a whole: it accepts the
  allocator on well-formed traces and gives it a score between 0 and 100, its
  utilization is the reference's, the REPL keeps its invariant, a trace file is read
  back, the K-best scheme returns the smallest sample, and the time that is reported
  is close to the time taken.  The invariants of the
  heap in the states that a session reaches, the round trips and the bounds follow.  The properties of kind error include what
  the code does wrong: the size that \<open>mm_malloc\<close> truncates, the block that \<open>mm_realloc\<close> of
  \<open>NULL\<close> loses, the overlap that \<open>add_range\<close> misses, the index that the signed
  comparison rejects, the request for 0 bytes that stops the timed replay, the unit
  test that depends on uninitialised memory, and the Alpha counter that wraps around.

  \<^bold>\<open>Parameters.\<close>  What \<open>malloc\<close> and \<open>calloc\<close> of the C library return, the contents of
  uninitialised memory and of files, the hardware counter and the system calls, those
  of the interval timers among them, are arguments of the definitions; what a property needs of them is a named
  hypothesis, which its witness discharges on concrete functions.

  \<^bold>\<open>Not modelled.\<close>  Messages and the layout of printed numbers (the numbers themselves are
  kept as values); the machine instructions that read a hardware counter; the pauses of
  the unit tests; \<open>getopt\<close>, whose result is an argument; and rounding of \<open>double\<close>s.
\<close>

text \<open>
  C1. On a well-formed heap, mm_malloc of a size from 1 to 2^32 - 65 returns. Either it returns
  NULL and the live payloads are as before, or it returns an 8-byte aligned address inside the
  heap, not live before, of a new payload of at least the requested size that overlaps no
  other payload. In both cases the heap stays well formed and no byte of a live payload
  changes.
\<close>

theorem malloc_contract:
  assumes "heap_inv s" and "size_ok sz"
  shows "\<exists>q s'. mm_malloc sz s = Inr (q, s') \<and> heap_inv s' \<and>
    payload_kept (payloads s) (mem s) (mem s') \<and>
    (q = NULL \<and> payloads s' = payloads s \<or>
     q \<noteq> NULL \<and> q mod 8 = 0 \<and> payloads s q = None \<and>
     (\<exists>k. sz \<le> k \<and> payloads s' = (payloads s)(q \<mapsto> k) \<and>
        mem_heap_lo s' \<le> q \<and> q + k \<le> mem_heap_hi s' + 1 \<and>
        (\<forall>p m. payloads s p = Some m \<longrightarrow> p + m \<le> q \<or> q + k \<le> p)))"
proof -
  obtain q s' where r: "mm_malloc sz s = Inr (q, s')" "heap_inv s'"
      "payload_kept (payloads s) (mem s) (mem s')"
    and c: "q = 0 \<and> payloads s' = payloads s \<or>
      q \<noteq> 0 \<and> payloads s q = None \<and> (\<exists>k. sz \<le> k \<and> payloads s' = (payloads s)(q \<mapsto> k))"
    using mm.malloc [OF assms] by blast
  have "q mod 8 = 0 \<and> mem_heap_lo s' \<le> q \<and> q + k \<le> mem_heap_hi s' + 1"
    if "payloads s' = (payloads s)(q \<mapsto> k)" for k
    using mm.region [OF r(2), of q k] that by simp
  moreover have "p + m \<le> q \<or> q + k \<le> p"
    if "payloads s' = (payloads s)(q \<mapsto> k)" "payloads s q = None" "payloads s p = Some m" for p m k
    using mm.apart [OF r(2), of p m q k] that by (cases "p = q") auto
  ultimately show ?thesis using r c unfolding NULL_def by blast
qed

lemma malloc_contract_witness:
  "heap_inv demo_one \<and> size_ok 200 \<and> heap_inv demo_two \<and>
   payload_kept (payloads demo_one) (mem demo_one) (mem demo_two) \<and>
   payloads demo_one 4240 = None \<and> 4120 + 104 \<le> (4240::int)"
  using malloc_contract [OF demo_invs(2) demo_size(2)] demo_two(1) demo_invs(2) demo_size(2)
  by (auto simp: NULL_def)

text \<open>
  C2. Freeing a live payload returns, removes exactly that payload from the live ones, keeps the
  heap well formed and changes no byte of any payload that is still live.
\<close>

theorem free_contract:
  assumes "heap_inv s" and "payloads s p = Some k"
  shows "\<exists>s'. mm_free p s = Inr ((), s') \<and> heap_inv s' \<and>
    payloads s' = (payloads s)(p := None) \<and> payload_kept (payloads s') (mem s) (mem s')"
  using mm.free [OF assms] .

lemma free_contract_witness:
  "payloads demo_two 4120 = Some 104 \<and> heap_inv demo_hole \<and>
   payloads demo_hole = (payloads demo_two)(4120 := None) \<and>
   payload_kept (payloads demo_hole) (mem demo_two) (mem demo_hole)"
  using free_contract [OF demo_invs(3) demo_payloads(3)] demo_hole(1) demo_payloads(3) by auto

text \<open>
  C3. mm_realloc of a live payload to a size from 1 to 2^32 - 65 returns. If it returns NULL
  nothing has changed for the client; otherwise the result is a payload of at least the new
  size and of at least the old one, which begins with the bytes of the old payload, and the
  old payload is no longer live unless it is the result. All other payloads keep their bytes.
\<close>

theorem realloc_contract:
  assumes "heap_inv s" and "size_ok sz" and "payloads s p = Some k"
  shows "\<exists>q s'. mm_realloc p sz s = Inr (q, s') \<and> heap_inv s' \<and>
    payload_kept ((payloads s)(p := None)) (mem s) (mem s') \<and>
    (q = NULL \<and> payloads s' = payloads s \<and> payload_kept (payloads s) (mem s) (mem s') \<or>
     q \<noteq> NULL \<and> ((payloads s)(p := None)) q = None \<and>
     (\<exists>m. sz \<le> m \<and> k \<le> m \<and> payloads s' = ((payloads s)(p := None))(q \<mapsto> m)) \<and>
     (\<forall>i. 0 \<le> i \<longrightarrow> i < k \<longrightarrow> mem s' (q + i) = mem s (p + i)))"
  unfolding NULL_def using mm_resize.realloc [OF assms] .

lemma realloc_contract_witness:
  "\<exists>q s'. heap_inv demo_hole \<and> mm_realloc 4240 300 demo_hole = Inr (q, s') \<and> heap_inv s' \<and>
     payload_kept ((payloads demo_hole)(4240 := None)) (mem demo_hole) (mem s')"
  using realloc_contract [OF demo_invs(4) demo_size(3) demo_payloads(5)] demo_invs(4) by blast

text \<open>
  C4. The detailed mm_malloc (tags, links, break pointer) computes the abstract a_malloc: first
  fit in free-list order with a split when 32 bytes or more remain, growth of the heap
  otherwise, NULL when neither is possible; and the representation invariant holds again
  afterwards.
\<close>

theorem malloc_refines:
  assumes "rep s A" and "- (2 ^ 63) \<le> sz" and "block_need sz < 2 ^ 32"
  shows "\<exists>s'. mm_malloc sz s = Inr (fst (a_malloc sz A), s') \<and> rep s' (snd (a_malloc sz A)) \<and>
    bytes_kept (used_bytes (abase A) (chunks A)) s s'"
  using mm_malloc_ok [OF assms] .

lemma malloc_refines_witness:
  "\<exists>s'. mm_malloc 50 demo_hole = Inr (4120, s') \<and>
     rep s' (demo_abs [(72, True), (48, False), (216, True)] [4184])"
  using malloc_refines [OF demo_hole(2), of 50]
  by (auto simp: a_malloc_def a_take_def a_fits_def block_need_def round_up_def demo_abs_def)

text \<open>
  C5. mm_free of an allocated block computes the abstract a_free: the block is merged with its
  free neighbours into one free block at the head of the free list, the neighbours having been
  taken off the list; the representation invariant holds again.
\<close>

theorem free_refines:
  assumes "rep s A" and "cut (abase A) (chunks A) (p - 8) = Some (us, (sz, True), vs)"
  shows "\<exists>s'. mm_free p s = Inr ((), s') \<and> rep s' (a_free p A) \<and>
    bytes_kept (used_bytes (abase A) us \<union> used_bytes (p - 8 + sz) vs) s s'"
  using mm_free_ok [OF assms] quiet_kept by blast

lemma free_refines_witness:
  "\<exists>s'. mm_free 4240 demo_hole = Inr ((), s') \<and> rep s' (demo_abs [(336, False)] [4112])"
  using free_refines [OF demo_hole(2), of 4240 "[(120, False)]" 216 "[]"]
  by (auto simp: a_free_def a_merge_def demo_abs_def NULL_def prev_of_def)

text \<open>
  C6. mm_realloc of a live block computes the abstract a_realloc: the block stays if it is large
  enough, else absorbs the free previous block, the free next block, or both, in this order of
  preference, else moves to a block from mm_malloc.
\<close>

theorem realloc_refines:
  assumes "rep s A" and "cut (abase A) (chunks A) (p - 8) = Some (us, (old, True), vs)"
    and "sz \<noteq> 0" and "- (2 ^ 63) \<le> sz" and "block_need (round_up sz + 16) < 2 ^ 32"
  shows "\<exists>s'. mm_realloc p sz s = Inr (fst (a_realloc p sz A), s') \<and>
    rep s' (snd (a_realloc p sz A)) \<and>
    bytes_kept (used_bytes (abase A) us \<union> used_bytes (p - 8 + old) vs) s s'"
  using mm_realloc_ok [OF assms] by (auto simp: realloc_done_def)

lemma realloc_refines_witness:
  "\<exists>s'. mm_realloc 4240 300 demo_hole = Inr (4120, s') \<and> rep s' (demo_abs [(336, True)] [])"
  using realloc_refines [OF demo_hole(2), of 4240 "[(120, False)]" 216 "[]" 300]
  by (auto simp: a_realloc_def demo_abs_def NULL_def prev_of_def round_up_def block_need_def)

text \<open>
  C7. Every state a client can reach from a fresh region by mm_init and admissible calls of
  mm_malloc, mm_free, mm_realloc and writes into live payloads satisfies the invariant of the
  allocator.
\<close>

theorem session_safe: "session s h t \<Longrightarrow> heap_inv t"
  by (rule session_inv)

lemma session_safe_witness:
  "session demo_region [(Malloc 100, 4120), (Malloc 200, 4240)] demo_two \<and> heap_inv demo_two"
  using demo_sessions(1) session_safe [OF demo_sessions(1)] by blast

text \<open>
  C8. No admissible call fails: on a well-formed heap mm_malloc, mm_free, mm_realloc and a write
  into a live payload return without a failed assertion, an access outside the heap, an
  overflow of a long, or a search of the free list that does not end.
\<close>

theorem calls_return:
  assumes "heap_inv s" and "admissible s r"
  shows "\<exists>v s'. perform r s = Inr (v, s') \<and> heap_inv s'"
  using perform_ok [OF assms] .

lemma calls_return_witness:
  "\<exists>v s'. admissible demo_hole (Realloc 4240 300) \<and>
     perform (Realloc 4240 300) demo_hole = Inr (v, s') \<and> heap_inv s'"
  using calls_return [OF demo_invs(4), of "Realloc 4240 300"] demo_payloads(5) demo_size(3) by auto

text \<open>
  C9. eval_mm_valid accepts the allocator: on a well-formed trace that reallocates only indices
  with a low byte below 128, in a region with room for what the trace demands, it returns 1,
  reports nothing, and ends in a state where the arrays, the range list and the fill bytes
  describe exactly the blocks that the trace leaves live.
\<close>

theorem trace_accepted:
  assumes "region_ready (hp d)" and "\<not> libc_out d" and "trace_ok (ids d) {} rs" and "low_bytes rs"
    and "is_int (errors d + 1)" and "mem_start_brk (hp d) + 32 + demand rs \<le> mem_max_addr (hp d)"
  shows "\<exists>d'. eval_mm_valid rs tn d = Inr (1, d') \<and> tracks d' (live_after {} rs) \<and>
    reports d' = reports d \<and> errors d' = errors d"
proof -
  note r = restart [OF assms(1,2)]
  have "\<not> mem_max_addr (hp (restarted d)) < mem_brk (hp (restarted d)) + demand rs"
    using assms(6) r(5,6) by simp
  then show ?thesis
    using eval_mm_valid_ok [OF assms(1-5), of tn] r(4) unfolding ended_def silent_def by auto
qed

lemma trace_accepted_witness:
  "\<exists>d'. eval_mm_valid demo_ops 0 demo_driver = Inr (1, d') \<and> tracks d' {} \<and> reports d' = []"
proof -
  have "mem_start_brk (hp demo_driver) + 32 + demand demo_ops \<le> mem_max_addr (hp demo_driver)"
    by (simp add: demo_demand) (simp add: demo_region_def demo_max)
  from trace_accepted [OF demo_driver_ready(1,2) demo_trace_ok demo_driver_ready(3) this, of 0]
  show ?thesis by (auto simp: demo_live)
qed

text \<open>
  C10. The driver's main as a whole, from the command line to the summary, with fsecs as the timer.
  Every trace file must be readable, with a true header, memory for its arrays and a name that
  fits the path, and hold a good trace: indices are allocated before they are reallocated or
  freed, sizes lie between 1 and 2^31 - 65, every reallocated index has a low byte below 128,
  and what the trace demands fits into the region; together the traces have a request. The
  options select the run over these files, the process starts with no error counted and with
  memory for the statistics, the region for the heap is aligned and lies below 2^62, and the
  calls of the interval timers succeed with a real timer that never goes up. Then the package
  of mm.c is reported as consistent on every trace, nothing is reported as an error, and
  without -G the performance index is a number between 0 and 100. With -l the C library's
  allocator, which keeps the contract of the C standard, is run on the same traces first:
  every trace is valid, or the program exits with status 1 because a call of the library has
  failed.
\<close>

theorem program_scores_package:
  assumes "read_options options initial_config = Inr (Run c)" and "counts_down setitimer getitimer left"
    and "tracefiles c = Some (map trace_name ts)" and "num_tracefiles c = int (length ts)"
    and "list_all (good_trace e (tracedir c)) ts" and "malloc_ok e (num_tracefiles c * 2080)"
    and "0 < lo" and "lo mod 8 = 0" and "lo + MAX_HEAP < 2 ^ 62"
    and "\<not> libc_out (mm_side p)" and "errors (mm_side p) = 0" and "concat (map ops ts) \<noteq> []"
    and "run_libc c \<longrightarrow> libc_side_ok L owned good m f r (libc_side p)"
  shows "(\<exists>table rep p'. program e setitimer getitimer m r f (Some lo) can_open can_write input options p =
        Inr (Results table rep, p') \<and>
      (\<exists>xs. table = (if run_libc c \<and> verbose c \<noteq> 0 then printresults 0 xs else []) \<and>
        length xs = length ts \<and> list_all (\<lambda>x. valid x = 1) xs) \<and>
      reports (mm_side p') = reports (mm_side p) \<and> numcorrect rep = int (length ts) \<and>
      (\<not> gradescope c \<longrightarrow> (\<exists>x. perfindex rep = Some x \<and> 0 \<le> x \<and> x \<le> 100))) \<or>
    run_libc c \<and> program e setitimer getitimer m r f (Some lo) can_open can_write input options p = Inl (Exit 1)"
  by (rule program_runs [OF assms])

lemma program_scores_package_witness:
  "(\<exists>rep p' x. program demo_env demo_setitimer demo_getitimer mm_malloc mm_realloc mm_free (Some 4096) True (\<lambda>_. True) []
      [(CHR ''f'', ''demo.rep'')] demo_process = Inr (Results [] rep, p') \<and>
    reports (mm_side p') = [] \<and> numcorrect rep = 1 \<and> perfindex rep = Some x \<and> 0 \<le> x \<and> x \<le> 100) \<and>
   ((\<exists>table rep p'. program demo_env demo_setitimer demo_getitimer mm_malloc mm_realloc mm_free (Some 4096) True (\<lambda>_. True) []
      [(CHR ''f'', ''demo.rep''), (CHR ''l'', [])] demo_process = Inr (Results table rep, p') \<and> numcorrect rep = 1) \<or>
    program demo_env demo_setitimer demo_getitimer mm_malloc mm_realloc mm_free (Some 4096) True (\<lambda>_. True) []
      [(CHR ''f'', ''demo.rep''), (CHR ''l'', [])] demo_process = Inl (Exit 1))"
proof
  show "\<exists>rep p' x. program demo_env demo_setitimer demo_getitimer mm_malloc mm_realloc mm_free (Some 4096) True (\<lambda>_. True) []
      [(CHR ''f'', ''demo.rep'')] demo_process = Inr (Results [] rep, p') \<and>
    reports (mm_side p') = [] \<and> numcorrect rep = 1 \<and> perfindex rep = Some x \<and> 0 \<le> x \<and> x \<le> 100"
    using program_scores_package [OF demo_options demo_counts_down demo_run(1,2,3) demo_files(2) _ _ demo_run(4) _ _ demo_run(5),
        of demo_process heap_inv payloads small_ok mm_malloc mm_free mm_realloc True "\<lambda>_. True" "[]"]
    by (auto simp: demo_process_def demo_config_def simp del: read_options.simps)
  let ?c = "demo_config\<lparr>run_libc := True\<rparr>"
  have c: "tracefiles ?c = Some (map trace_name [demo_trace])" "num_tracefiles ?c = int (length [demo_trace])"
    "list_all (good_trace demo_env (tracedir ?c)) [demo_trace]"
    using demo_run(1-3) by simp_all
  show "(\<exists>table rep p'. program demo_env demo_setitimer demo_getitimer mm_malloc mm_realloc mm_free (Some 4096) True (\<lambda>_. True) []
      [(CHR ''f'', ''demo.rep''), (CHR ''l'', [])] demo_process = Inr (Results table rep, p') \<and> numcorrect rep = 1) \<or>
    program demo_env demo_setitimer demo_getitimer mm_malloc mm_realloc mm_free (Some 4096) True (\<lambda>_. True) []
      [(CHR ''f'', ''demo.rep''), (CHR ''l'', [])] demo_process = Inl (Exit 1)"
    using program_scores_package [OF demo_options_l demo_counts_down c demo_files(2) _ _ demo_run(4) _ _ demo_run(5),
        of demo_process heap_inv payloads small_ok mm_malloc mm_free mm_realloc True "\<lambda>_. True" "[]"] demo_libc_side
    by (auto simp: demo_process_def simp del: read_options.simps)
qed

text \<open>
  C11. On a well-formed trace eval_mm_util computes what the reference peak_payload says: the
  largest sum of the sizes of the live blocks at any moment of the trace, which the reference
  reads off the trace alone, divided by the size of the heap at the end. Otherwise it exits
  with status 1, which happens only when the trace demands more than the region holds.
  Well-formed means that an index is allocated before it is reallocated or freed, is not
  allocated again while it is in use, and that all sizes of allocations and reallocations lie
  between 1 and 2^31 - 65; a reallocation to size 0 is excluded, since eval_mm_util leaves the
  size of the block that it frees in the total. The region is aligned, has room for 32 bytes,
  and has less than 2^31 bytes, so that the totals are ints.
\<close>

theorem utilization_is_peak:
  assumes "region_ready (hp d)" and "\<not> libc_out d" and "int_region (hp d)" and "trace_ok (ids d) {} rs"
  shows "(\<exists>d'. eval_mm_util rs tn d =
        Inr (of_int (peak_payload rs) / of_int (mem_heapsize (hp d')), d')) \<or>
     eval_mm_util rs tn d = Inl (Exit 1) \<and> mem_max_addr (hp d) < mem_start_brk (hp d) + 32 + demand rs"
  using eval_mm_util_ok [OF assms, of tn] by blast

lemma utilization_is_peak_witness:
  "\<exists>d'. eval_mm_util demo_ops 0 demo_driver = Inr (300 / of_int (mem_heapsize (hp d')), d')"
  using utilization_is_peak [OF demo_driver_ready(1,2,4) demo_trace_ok(1), of 0]
  by (simp add: demo_demand demo_peak) (simp add: demo_region_def demo_max)

text \<open>
  C12. A REPL session of any length keeps the REPL's invariant and stops without a fault: it
  returns at the end of its input, or, when some line says quit or q, exits with status 0 at
  the first such line. When it returns, the blocks marked as in use are exactly the live
  payloads of the heap, at distinct addresses, and their extents are the recorded ranges.
  Every line before the first that quits must be sensible when it is read: no reset while
  blocks are in use; malloc of an index that is free only with size 0 or a size from 1 to 2^31
  - 65; realloc only of a block that is in use, to a size from 1 to 2^31 - 65, with an index
  whose low byte is below 128; the numbers of a command fit an int; and the counters of
  errors, requests and resets are below the largest int.
\<close>

theorem repl_session_safe:
  assumes "repl_ok r" and "sensible_run r (lines_of input)"
  shows "if list_ex quits (lines_of input) then repl_loop input r = Inl (Exit 0)
    else \<exists>r'. repl_loop input r = Inr ((), r') \<and> repl_ok r' \<and>
      inj_on (\<lambda>i. bptr (rblocks r' ! nat i)) (valid_ids r') \<and>
      dom (payloads (hp (drv r'))) = (\<lambda>i. bptr (rblocks r' ! nat i)) ` valid_ids r'"
proof (cases "list_ex quits (lines_of input)")
  case True
  then show ?thesis using repl_session_ok [OF assms] by simp
next
  case False
  then obtain r' where r: "repl_loop input r = Inr ((), r')" "repl_ok r'"
    using repl_session_ok [OF assms] by auto
  have "bl (view r') i = bptr (rblocks r' ! nat i)" if "i \<in> valid_ids r'" for i
    using that view_at [of i r'] by (simp add: valid_ids_def)
  then show ?thesis
    using r False by (auto simp: repl_ok_def tracks_def points_def inj_on_def intro!: exI [of _ r'] cong: image_cong)
qed

lemma repl_session_safe_witness:
  "\<exists>r r'. run_driver (Some 4096) demo_line demo_driver = seqp (repl_loop demo_line) (on_drv clear_ranges) r \<and>
    repl_loop demo_line r = Inr ((), r') \<and> repl_ok r'"
proof -
  obtain r where r: "repl_ok r" "sensible_run r (lines_of demo_line)"
      "run_driver (Some 4096) demo_line demo_driver = seqp (repl_loop demo_line) (on_drv clear_ranges) r"
    using demo_repl by blast
  from repl_session_safe [OF r(1,2)] r(3) show ?thesis by (auto simp: demo_stays)
qed

text \<open>
  C13. Reading a trace file gives back the trace that was written into it: the header, the requests
  in order, and fresh arrays of the announced lengths. Only the size field of a free keeps
  what the array held before.
\<close>

theorem trace_read_back:
  assumes "trace_wf t" and "malloc_ok e 1064" and "malloc_ok e (Read_Trace.num_ops t * 12)"
    and "malloc_ok e (num_ids t * 8)" and "length dir + length (trace_name t) < LINE_SIZE"
    and "files e (dir @ trace_name t) = Some (show_trace t)" and "length (junk_ops e (length (ops t))) = length (ops t)"
  shows "read_trace e dir (trace_name t) = Inr (t\<lparr>
    ops := map2 stored (junk_ops e (length (ops t))) (ops t),
    trace_blocks := junk_words e (nat (num_ids t)), trace_block_sizes := junk_words e (nat (num_ids t))\<rparr>)"
  by (rule read_trace_show [OF assms])

lemma trace_read_back_witness: "read_trace demo_env [] ''demo.rep'' = Inr demo_trace"
  using trace_read_back [OF demo_trace_wf, of demo_env "[]"] demo_files
  by (simp add: demo_trace_def demo_ops_def LINE_SIZE_def numeral_eq_Suc stored_def)

text \<open>
  C14. fsecs, as config.h configures it, reports the mean time of its ten runs: on a wall clock
  where a call of the timers takes at most B microseconds and every run of f between a and b,
  and as long as the real timer of a day does not run out, the result lies between a and b + 3
  B / 10 microseconds, in seconds.
\<close>

theorem fsecs_accurate:
  assumes "wall_timer setitimer getitimer us due B" and "takes f us a b" and "keeps_timer f due"
    and "0 \<le> a" and "10 * b + 5 * B < MAX_ETIME * 10 ^ 6"
  shows "\<exists>x s'. fsecs setitimer getitimer f s = Inr (x, s') \<and>
    real_of_int a / 10 ^ 6 \<le> x \<and> x \<le> (real_of_int b + 3 * real_of_int B / 10) / 10 ^ 6"
  using fsecs_itimer_mean [OF assms] .

lemma fsecs_accurate_witness:
  "\<exists>x s'. fsecs demo_setitimer demo_getitimer (\<lambda>(t, d). Inr ((), (t + 500, d))) (default_timers (0, 0)) = Inr (x, s') \<and>
    0.0005 \<le> x \<and> x \<le> 0.0005003"
  using fsecs_accurate [OF demo_wall_timer, of "\<lambda>(t, d). Inr ((), (t + 500, d))" 500 500 "default_timers (0, 0)"]
  by (auto simp: takes_def keeps_timer_def MAX_ETIME_def)

text \<open>
  C15. fcyc returns after at least one and at most maxsamples runs of the measured function (one,
  when maxsamples is below 1): at the first run after which the kbest smallest samples lie
  within the tolerance, or else at the last. The result is the smallest of the samples it has
  taken. This needs that kbest is positive and maxsamples an int, that calloc returns memory
  for the samples, and that the measured function and the counter return in every state. When
  the cache is cleared before each run, the loop of clear must advance and its sum must not
  overflow: the cache block has at least 4 bytes, the size of the cache is a non-negative int,
  malloc returns a buffer when there is none, and the ints in it, of any content, are small
  enough for the sums of all runs to stay in the range of an int.
\<close>

theorem kbest_ends_with_minimum:
  assumes "0 < kbest s" and "maxsamples s < 2 ^ 31" and "clear_ok (nat (max 1 (maxsamples s))) s" and "libc_room s \<noteq> None"
    and "\<forall>w. seqp (if compensate s \<noteq> 0 then start_comp else start)
      (seqp f (if compensate s \<noteq> 0 then get_comp else get)) w = Inr (r w)"
  shows "\<exists>n s'. fcyc f start start_comp get get_comp s = Inr (Min (set (Fcyc.times r n (world s))), s') \<and>
    1 \<le> n \<and> int n \<le> max 1 (maxsamples s) \<and> samplecount s' = int n \<and>
    (int n < maxsamples s \<longrightarrow> conv (epsilon s) (nat (kbest s)) (Fcyc.times r n (world s))) \<and>
    (\<forall>j. 1 \<le> j \<longrightarrow> j < n \<longrightarrow> \<not> conv (epsilon s) (nat (kbest s)) (Fcyc.times r j (world s)))"
proof -
  have "max 1 (maxsamples s) \<le> int (nat (max 1 (maxsamples s)))" by simp
  from fcyc_ok [OF assms(1-3) this assms(4,5)] show ?thesis by blast
qed

lemma kbest_ends_with_minimum_witness:
  "\<exists>s'. fcyc (ret ()) (ret ()) (ret ()) demo_get (ret 0) (default_sampler 0 (Some (\<lambda>_. 3))) = Inr (5, s')"
proof -
  let ?s = "default_sampler 0 (Some (\<lambda>_. 3)) :: nat sampler" and ?r = "\<lambda>w. (5 + real w, Suc w)"
  have "\<exists>n s'. fcyc (ret ()) (ret ()) (ret ()) demo_get (ret 0) ?s =
      Inr (Min (set (Fcyc.times ?r n (world ?s))), s') \<and> 1 \<le> n"
    using kbest_ends_with_minimum [of ?s "ret ()" "ret ()" "ret ()" "ret 0" demo_get ?r]
    by (auto simp: default_sampler_def clear_ok_def prog_eval demo_get_def)
  then obtain n s' where n: "fcyc (ret ()) (ret ()) (ret ()) demo_get (ret 0) ?s =
      Inr (Min (set (Fcyc.times ?r n (world ?s))), s')" "1 \<le> n" by blast
  have "Min (set (Fcyc.times ?r n (world ?s))) = 5"
    unfolding demo_times using n(2) by (intro Min_eqI) (auto simp: default_sampler_def image_iff)
  then show ?thesis using n(1) by auto
qed

text \<open>
  C16. callibrate ends when its clocks go on: if every reading of the cycle counter takes between 1
  and B cycles, at least one of which is user time, and the user time, which is read without
  effect, has a tick every P of its cycles, the loop that waits for a hundred ticks has at
  most 100 (P + 1001) + 1 rounds; the model's fuel m is any number of at least that many, for
  which (m + 2) B is below 2^64, so that the counter does not wrap around twice. From a
  non-negative cyc_per_tick it leaves cyc_per_tick as it was, or replaces it by a ratio above
  RECORDTHRESH that is smaller than the old value when there was one. If no reading takes more
  than 2000 cycles it records nothing.
\<close>

theorem calibration_ends:
  assumes "running_clock access_counter utime cyc work P B" and "100 * (P + 1001) \<le> int m"
    and "(int m + 2) * B < 2 ^ 64" and "0 \<le> cyc_per_tick s"
  shows "\<exists>s'. callibrate (Suc m) access_counter utime s = Inr ((), s') \<and>
    (cyc_per_tick s' = cyc_per_tick s \<or>
     RECORDTHRESH < cyc_per_tick s' \<and> (cyc_per_tick s = 0 \<or> cyc_per_tick s' < cyc_per_tick s)) \<and>
    (B \<le> 2000 \<longrightarrow> cyc_per_tick s' = cyc_per_tick s)"
  using callibrate_ok [OF assms] unfolding recorded_def .

lemma calibration_ends_witness:
  "\<exists>s'. callibrate (Suc 600100) (\<lambda>t. Inr ((word_of_int (t div 2 ^ 32), word_of_int t), t + 7)) (\<lambda>t. Inr (t div 5000, t))
      \<lparr>env = 0, cyc_hi = 0, cyc_lo = 0, cyc_per_tick = 0, start_tick = 0\<rparr> = Inr ((), s') \<and> cyc_per_tick s' = 0"
proof -
  let ?a = "\<lambda>t :: int. Inr ((word_of_int (t div 2 ^ 32), word_of_int t), t + 7) :: fault + (32 word \<times> 32 word) \<times> int"
  let ?u = "\<lambda>t :: int. Inr (t div 5000, t) :: fault + int \<times> int"
  have "running_clock ?a ?u (\<lambda>t. t) (\<lambda>t. t) 5000 7" by (simp add: running_clock_def)
  from calibration_ends [OF this, of 600100 "\<lparr>env = 0, cyc_hi = 0, cyc_lo = 0, cyc_per_tick = 0, start_tick = 0\<rparr>"]
  show ?thesis by auto
qed

text \<open>
  C17. The cycle counter method, from init_fsecs in its initial state on: init_fsecs measures the
  clock rate and fsecs returns, after at most 20 samples, a time between (a + 1) / (F + (D +
  B) / 2) and (b + B) / F seconds. It is the compensated K-best measurement, whose calibration
  then records nothing. The machine must satisfy these conditions: a reading of the cycle
  counter takes between 1 and B cycles, at most 2000, at least one of which is user time; the
  user time, which is read without effect, has a tick every P of its cycles, and may do
  anything across a sleep or a run of f; the sleep of 2 seconds takes between 2 F and 2 F + D
  cycles, and every run of f between a and b; calloc succeeds, and malloc returns a buffer for
  clearing the cache whose ints, of any content, are at most 800 in absolute value, so that
  the sums of 20 samples do not overflow; neither the sleep nor a run of f with a reading
  takes 2^64 cycles; and the fuel m of the calibration is at least 100 (P + 1001) with (m + 2)
  B below 2^64.
\<close>

theorem cycle_timing_accurate:
  assumes "even_machine M cyc work P B F D" and "takes f cyc a b" and "0 \<le> a"
    and "rounds_most M = Suc m" and "100 * (P + 1001) \<le> int m" and "(int m + 2) * B < 2 ^ 64"
    and "b + B < 2 ^ 64" and "2 * F + D + B < 2 ^ 64" and "B \<le> 2000" and "\<forall>j. \<bar>buf j\<bar> \<le> 800"
  shows "\<exists>x s'. seqp (init_fsecs_with USE_FCYC M) (fsecs_with USE_FCYC M f) (default_timing e (Some buf)) =
      Inr (x, s') \<and> real_of_int (2 * (a + 1)) / real_of_int (2 * F + D + B) \<le> x \<and>
    x < real_of_int (b + B) / real_of_int F \<and> samplecount (sampling s') \<le> 20"
  by (rule first_measurement [OF assms])

lemma cycle_timing_accurate_witness:
  "\<exists>x s'. seqp (init_fsecs_with USE_FCYC (demo_machine 600101))
      (fsecs_with USE_FCYC (demo_machine 600101) (\<lambda>(t, w). Inr ((), (t + 500, w + 400))))
      (default_timing (0, 0) (Some (\<lambda>_. 3))) = Inr (x, s') \<and> 0.0005 \<le> x \<and> x < 0.00051"
proof -
  let ?f = "\<lambda>(t, w). Inr ((), (t + 500, w + 400)) :: fault + unit \<times> int \<times> int"
  have "takes ?f fst 500 500" by (simp add: takes_def)
  moreover have "rounds_most (demo_machine 600101) = Suc 600100" by (simp add: demo_machine_def)
  ultimately obtain x s' where "seqp (init_fsecs_with USE_FCYC (demo_machine 600101))
      (fsecs_with USE_FCYC (demo_machine 600101) ?f) (default_timing (0, 0) (Some (\<lambda>_. 3))) = Inr (x, s')"
      "1002 / 2000007 \<le> x" "x < 507 / 10 ^ 6"
    using cycle_timing_accurate [OF demo_machine_even, of ?f 500 500 600101 600100 "\<lambda>_. 3" "(0, 0)"] by auto
  then show ?thesis by (intro exI [of _ x] exI [of _ s']) simp
qed

text \<open>
  C18. The unit tests pass: with a C library that keeps the contract of malloc and free, a region
  for mem_init, and memory for 600 bytes per test, the test program returns 0 for a non-empty
  list of names and reports every named test as run, every other name that is not a number as
  unknown, and that all tests passed; "all" runs the thirteen tests in the order of the table.
  A name that sscanf reads as a number must be in the range of an int, and the test block_size
  also needs new memory whose lowest bit is clear. Without a name the program prints its usage
  and returns 1.
\<close>

theorem inline_tests_pass:
  assumes "test_library owns lmalloc lfree" and "owns (lib st) M m"
    and "vm = Some lo" "0 < lo" "lo mod 8 = 0" "lo + MAX_HEAP < 2 ^ 62" and "\<forall>s. \<exists>s'. vfree lo s = Inr ((), s')"
    and "tests = inline_tests lmalloc lfree vm vfree" and "names \<noteq> []"
    and "chosen = test_order (map fst tests) names" and "600 * int (length chosen) \<le> m"
    and "''block_size'' \<in> set chosen \<longrightarrow> (\<forall>n s p s'. lmalloc n s = Inr (p, s') \<longrightarrow> even (wv s' p))"
    and "\<forall>n\<in>set chosen. list_all is_int (ints 1 n)"
  shows "(\<exists>st'. tests_main tests (prog # names) st = Inr (0, st') \<and>
      messages st' = All_Passed # rev (concat (map (said (map fst tests)) chosen)) @ Testing # messages st \<and>
      (\<exists>m'. owns (lib st') M m')) \<and>
    tests_main tests [prog] st = Inr (1, st\<lparr>messages := Test_Usage # Testing # messages st\<rparr>)"
proof
  show "tests_main tests [prog] st = Inr (1, st\<lparr>messages := Test_Usage # Testing # messages st\<rparr>)"
    by (simp add: tests_main_def announce_def prog_eval)
  have "test_library.marks lmalloc False" if "''block_size'' \<in> set chosen"
    using assms(12) that
    by (simp add: test_library.marks_def [OF assms(1)] test_library.flag_def [OF assms(1)])
  then have "runs (tests_main tests (prog # names)) st (\<lambda>r st'. r = 0 \<and>
      messages st' = All_Passed # rev (concat (map (said (map fst tests)) chosen)) @ Testing # messages st \<and>
      (\<exists>m'. owns (lib st') M m'))"
    unfolding assms(8)
    by (intro test_library.tests_main_run [OF assms(1,3-6)]) (use assms in simp_all)
  then show "\<exists>st'. tests_main tests (prog # names) st = Inr (0, st') \<and>
    messages st' = All_Passed # rev (concat (map (said (map fst tests)) chosen)) @ Testing # messages st \<and>
    (\<exists>m'. owns (lib st') M m')" by (auto simp: runs_def)
qed

lemma inline_tests_pass_witness:
  "\<exists>st'. tests_main (inline_tests (stamped_sbrk 0) keep_block (Some 4096) keep_block) [''tests'', ''all''] test_start =
      Inr (0, st') \<and> length (messages st') = 15"
proof -
  let ?t = "inline_tests (stamped_sbrk 0) keep_block (Some 4096) keep_block"
  have "(4096 :: int) + MAX_HEAP < 2 ^ 62" by (simp add: MAX_HEAP_def)
  moreover have "\<forall>s. \<exists>s'. keep_block 4096 s = Inr ((), s')" by (simp add: keep_block_def ret_apply)
  moreover have "\<forall>n s p s'. stamped_sbrk 0 n s = Inr (p, s') \<longrightarrow> even (wv s' p)"
    using stamped_parity [of 0] by (simp add: is_long_def)
  moreover note test_names_not_numbers
  moreover have "test_order (map fst ?t) [''all''] = map fst ?t" by (simp add: test_order_def)
  moreover have "length (map fst ?t) = 13" unfolding inline_test_names by simp
  ultimately have "\<exists>st'. tests_main ?t [''tests'', ''all''] test_start = Inr (0, st') \<and>
      messages st' = All_Passed # rev (concat (map (said (map fst ?t)) (map fst ?t))) @ Testing # messages test_start \<and>
      (\<exists>m'. sbrk_owns (lib st') Map.empty m')"
    using inline_tests_pass [OF stamped.test_library_axioms [of 0] test_start_owns, of "Some 4096" 4096 keep_block ?t
        "[''all'']" "map fst ?t" "''tests''"] by simp
  then obtain st' where st': "tests_main ?t [''tests'', ''all''] test_start = Inr (0, st')"
    "messages st' = All_Passed # rev (concat (map (said (map fst ?t)) (map fst ?t))) @ Testing # messages test_start"
    by blast
  have "length (messages st') = 15"
    unfolding st'(2) inline_test_names by (simp add: said_def test_start_def)
  then show ?thesis using st'(1) by blast
qed

text \<open>
  C19. Whatever a trace file holds, a trace that read_trace returns is well typed: it has as many
  requests as its header says, two arrays with one entry per id, and, when there is an id,
  every allocation and reallocation has an index inside these arrays. Only the indices of
  frees are not checked.
\<close>

theorem trace_read_typed:
  assumes "read_trace e dir name = Inr t" and "\<forall>n. length (junk_ops e n) = n" and "\<forall>n. length (junk_words e n) = n"
  shows "trace_name t = name \<and> length (ops t) = nat (Read_Trace.num_ops t) \<and>
    length (trace_blocks t) = nat (num_ids t) \<and> length (trace_block_sizes t) = nat (num_ids t) \<and>
    (0 < num_ids t \<longrightarrow> (\<forall>x\<in>set (ops t). op_type x \<noteq> FREE \<longrightarrow> 0 \<le> op_index x \<and> op_index x < num_ids t))"
  by (rule read_trace_typed [OF assms])

lemma trace_read_typed_witness:
  "\<exists>t. read_trace demo_env [] ''demo.rep'' = Inr t \<and> length (ops t) = 5 \<and>
    (\<forall>x\<in>set (ops t). op_type x \<noteq> FREE \<longrightarrow> 0 \<le> op_index x \<and> op_index x < 2)"
proof -
  let ?t = "demo_trace\<lparr>ops := map2 stored (replicate 5 (free_op 0)) demo_ops\<rparr>"
  have "read_trace demo_env [] (trace_name demo_trace) = Inr ?t"
    using read_trace_show [OF demo_trace_wf, of demo_env "[]"] demo_files
    by (simp add: demo_trace_def demo_ops_def LINE_SIZE_def numeral_eq_Suc)
  then have "read_trace demo_env [] ''demo.rep'' = Inr ?t" by (simp add: demo_trace_def)
  from this trace_read_typed [OF this] show ?thesis
    by (intro exI [of _ ?t]) (simp add: demo_files demo_trace_def)
qed

text \<open>
  C20. coalescing of a free block x at a place in the layout replaces x and its free neighbours by
  one free block whose size is their sum, takes the neighbours off the free list, puts the
  merged block at its head, and changes no payload byte of a block elsewhere.
\<close>

theorem coalescing_refines:
  assumes "lay s (us @ (sz, False) # vs)" and "x = base s + extent us"
    and "free_links s (x # order A)"
    and "set (x # order A) = frees (base s) (us @ (sz, False) # vs)"
  shows "\<exists>s'. coalescing x s = Inr ((), s') \<and> lay s' (chunks (a_merge A x us sz vs)) \<and>
    free_links s' (order (a_merge A x us sz vs)) \<and>
    quiet (used_bytes (base s) us \<union> used_bytes (x + sz) vs) s s'"
  using coalescing_ok [OF assms] .

lemma coalescing_refines_witness:
  "\<exists>s'. coalescing 4112 demo_hole = Inr ((), s') \<and> lay s' [(120, False), (216, True)] \<and>
     free_links s' [4112]"
proof -
  have b: "base demo_hole = 4112"
    using demo_hole(2) by (simp add: rep_def demo_abs_def)
  have "lay demo_hole ([] @ (120, False) # [(216, True)])" "free_links demo_hole [4112]"
    using demo_hole(2) by (simp_all add: rep_def demo_abs_def)
  then show ?thesis
    using coalescing_refines [of demo_hole "[]" 120 "[(216, True)]" 4112 "demo_abs [] []"] b
    by (auto simp: a_merge_def demo_abs_def)
qed

text \<open>
  C21. mm_init on a fresh region with room for the two sentinels returns 0 and leaves a well-formed
  heap without blocks, whose size is the 32 bytes of prologue and epilogue; without that room
  it returns -1.
\<close>

theorem init_establishes:
  assumes "fresh s"
  shows "if mem_start_brk s + 32 \<le> mem_max_addr s
    then \<exists>s'. mm_init s = Inr (0, s') \<and> heap_inv s' \<and> payloads s' = Map.empty \<and> mem_heapsize s' = 32
    else \<exists>s'. mm_init s = Inr (- 1, s')"
proof (cases "mem_start_brk s + 32 \<le> mem_max_addr s")
  case True
  have "payloads (inited s) = Map.empty"
    using payloads_rep [OF mm_init_rep [OF assms True, THEN conjunct2]]
    by (simp add: a_init_def live_def fun_eq_iff)
  then show ?thesis
    using True mm_init_rep [OF assms True] heap_invI by (auto simp: mem_heapsize_def inited_def Let_def)
next
  case False
  then show ?thesis using mm_init_no_room [OF assms] by simp
qed

lemma init_establishes_witness:
  "fresh demo_region \<and> heap_inv demo_ready \<and> mem_heapsize demo_ready = 32"
  using init_establishes [OF demo_fresh] demo_room demo_ready(1) demo_fresh by auto

text \<open>
  C22. In every state that a client reaches from a fresh region by mm_init and admissible calls of
  mm_malloc, mm_free, mm_realloc and writes into live payloads, the links that
  insert_free_block and pull_free_block have left form a doubly linked ring: the list starts
  at flist_first, holds every free block exactly once, the forward link of the block at
  position i leads to position i + 1 modulo the length, and the backward link of that block
  leads back.
\<close>

theorem free_list_is_ring:
  assumes "session s0 h s"
  shows "let fl = order (abs_heap s) in
    set fl = frees (base s) (chunks (abs_heap s)) \<and> distinct fl \<and>
    flist_first s = (if fl = [] then NULL else hd fl) \<and>
    (\<forall>i < length fl. block_flink (fl ! i) s = Inr (fl ! (Suc i mod length fl), s) \<and>
       block_blink (fl ! (Suc i mod length fl)) s = Inr (fl ! i, s))"
proof -
  let ?fl = "order (abs_heap s)"
  note rep = heap_invD [OF session_inv [OF assms]]
  have fl: "free_links s ?fl" and lay: "lay s (chunks (abs_heap s))"
    and set_fl: "set ?fl = frees (base s) (chunks (abs_heap s))"
    using rep by (simp_all add: rep_def)
  note nodes = lay_free_nodes [OF lay equalityD1 [OF set_fl]]
  have "block_flink (?fl ! i) s = Inr (?fl ! (Suc i mod length ?fl), s) \<and>
      block_blink (?fl ! (Suc i mod length ?fl)) s = Inr (?fl ! i, s)" if i: "i < length ?fl" for i
    using ring_neighbours [OF fl nodes i] by blast
  moreover have "distinct ?fl" "flist_first s = (if ?fl = [] then NULL else hd ?fl)"
    using fl by (auto simp: free_links_def split: list.splits)
  ultimately show ?thesis using set_fl by (simp add: Let_def)
qed

lemma free_list_is_ring_witness:
  "flist_first demo_hole = 4112 \<and> block_flink 4112 demo_hole = Inr (4112, demo_hole) \<and>
   block_blink 4112 demo_hole = Inr (4112, demo_hole)"
proof -
  have "order (abs_heap demo_hole) = [4112]"
    using rep_abs_heap [OF demo_hole(2)] by (simp add: demo_abs_def)
  then show ?thesis using free_list_is_ring [OF demo_sessions(2)] by (simp add: Let_def)
qed

text \<open>
  C23. In every state that a client reaches from a fresh region by mm_init and admissible calls of
  mm_malloc, mm_free, mm_realloc and writes into live payloads, no call has left a stale tag:
  the blocks found by walking the headers from the prologue tile the region up to the epilogue
  exactly, every size is a multiple of 8 of at least 32 bytes, and for each block the header
  and the end tag hold the same size and flag.
\<close>

theorem tags_consistent:
  assumes "session s0 h s"
  shows "let cs = chunks (abs_heap s) in
    base s + extent cs = epilogue s \<and> mem_brk s = epilogue s + 16 \<and> sizes_ok cs \<and>
    (\<forall>(x, sz, al) \<in> set (place (base s) cs).
       block_size x s = Inr (sz, s) \<and> block_end_size x s = Inr (sz, s) \<and>
       block_allocated x s = Inr (of_bool al, s) \<and> block_end_allocated x s = Inr (of_bool al, s))"
proof -
  let ?cs = "chunks (abs_heap s)"
  have lay: "lay s ?cs" using heap_invD [OF session_inv [OF assms]] by (simp add: rep_def)
  note b = lay_base [OF lay]
  have "block_size x s = Inr (sz, s) \<and> block_end_size x s = Inr (sz, s) \<and>
      block_allocated x s = Inr (of_bool al, s) \<and> block_end_allocated x s = Inr (of_bool al, s)"
    if "(x, sz, al) \<in> set (place (base s) ?cs)" for x sz al
    using lay_tags_read [OF lay that] by blast
  then show ?thesis using b(5,6) lay_sizes [OF lay] by (auto simp: Let_def)
qed

lemma tags_consistent_witness:
  "epilogue demo_hole = 4448 \<and> block_end_size 4112 demo_hole = Inr (120, demo_hole) \<and>
   block_end_allocated 4112 demo_hole = Inr (0, demo_hole)"
proof -
  have "chunks (abs_heap demo_hole) = [(120, False), (216, True)]" "base demo_hole = 4112"
    using rep_abs_heap [OF demo_hole(2)] demo_hole(2) by (simp_all add: demo_abs_def rep_def)
  then show ?thesis using tags_consistent [OF demo_sessions(2)] by (auto simp: Let_def)
qed

text \<open>
  C24. When a client has freed everything that it allocated in a session of admissible calls, no
  fragments are left: the heap is empty or one free block of all its bytes but the 32 of the
  sentinels, and a request of less than 2^32 bytes that this block can hold is served from its
  start, without growing the heap.
\<close>

theorem all_free_coalesces:
  assumes "session s0 h s" and "payloads s = Map.empty"
  shows "(chunks (abs_heap s) = [] \<or> chunks (abs_heap s) = [(mem_heapsize s - 32, False)]) \<and>
    (\<forall>sz. 0 < sz \<longrightarrow> block_need sz < 2 ^ 32 \<longrightarrow> block_need sz + 32 \<le> mem_heapsize s \<longrightarrow>
       (\<exists>s'. mm_malloc sz s = Inr (mem_start_brk s + 24, s') \<and> mem_brk s' = mem_brk s))"
proof -
  note inv = session_inv [OF assms(1)]
  have "lay s (chunks (abs_heap s))" using heap_invD [OF inv] by (simp add: rep_def)
  then have "mem_heapsize s = 32 + extent (chunks (abs_heap s))"
    using lay_base(4,6) [of s "chunks (abs_heap s)"] by (simp add: mem_heapsize_def)
  then show ?thesis
    using all_free_one_block [OF inv assms(2)] all_free_refill [OF inv assms(2)] by auto
qed

lemma all_free_coalesces_witness:
  "\<exists>h s s'. session demo_region h s \<and> mm_free 4240 demo_hole = Inr ((), s) \<and>
     chunks (abs_heap s) = [(336, False)] \<and> mm_malloc 300 s = Inr (4120, s') \<and> mem_brk s' = mem_brk s"
proof -
  obtain h s where s: "session demo_region h s" "mm_free 4240 demo_hole = Inr ((), s)" "payloads s = Map.empty"
      "rep s (demo_abs [(336, False)] [4112])"
    using demo_freed by blast
  have c: "chunks (abs_heap s) = [(336, False)]" and "lay s [(336, False)]" "base s = 4112"
    using rep_abs_heap [OF s(4)] s(4) by (simp_all add: rep_def demo_abs_def)
  then have "mem_heapsize s = 368" "mem_start_brk s = 4096"
    using lay_base(4,6) [of s "[(336, False)]"] by (simp_all add: mem_heapsize_def)
  then have "\<exists>s'. mm_malloc 300 s = Inr (4120, s') \<and> mem_brk s' = mem_brk s"
    using all_free_coalesces [OF s(1,3)] by (simp add: block_need_def round_up_def)
  then show ?thesis using s(1,2) c by blast
qed

text \<open>
  C25. mm_malloc of a size from 1 to 2^31 - 65 returns a block whenever some free block is large
  enough or the heap can still grow by the block that is needed.
\<close>

theorem malloc_succeeds:
  assumes "heap_inv s" and "0 < sz" and "sz < 2 ^ 31 - 64"
    and "mem_brk s + block_need sz \<le> mem_max_addr s \<or>
      (\<exists>x\<in>set (order (abs_heap s)). a_fits (abs_heap s) (block_need sz) x)"
  shows "\<exists>q s'. mm_malloc sz s = Inr (q, s') \<and> q \<noteq> NULL \<and> heap_inv s'"
proof -
  note rep = heap_invD [OF assms(1)]
  have top: "atop (abs_heap s) = mem_brk s" "alimit (abs_heap s) = mem_max_addr s"
    using lay_base(6) [of s "chunks (abs_heap s)"] rep by (simp_all add: atop_def rep_def)
  have n: "block_need sz < 2 ^ 31"
    using assms(2,3) round_up_bounds [of sz] by (auto simp: block_need_def max_def)
  then have "fst (a_malloc sz (abs_heap s)) \<noteq> NULL"
    using a_malloc_succeeds [OF rep_a_ok [OF rep], of sz] assms(2,4) top by simp
  then show ?thesis
    using mm_malloc_ok [OF rep, of sz] n assms(2) heap_invI by fastforce
qed

lemma malloc_succeeds_witness:
  "mem_brk demo_region + block_need 100 \<le> mem_max_addr demo_region \<and>
   (\<exists>q s. mm_malloc 100 demo_ready = Inr (q, s) \<and> q \<noteq> NULL)"
proof -
  have lay: "lay demo_ready []" and b: "base demo_ready = 4112" "mem_max_addr demo_ready = 4096 + MAX_HEAP"
    using demo_ready(2) by (simp_all add: rep_def demo_abs_def)
  have "mem_brk demo_ready + block_need 100 \<le> mem_max_addr demo_ready"
    using lay_base(6) [OF lay] b by (simp add: demo_max block_need_def round_up_def)
  then show ?thesis
    using malloc_succeeds [OF demo_invs(1), of 100]
    by (auto simp: demo_region_def demo_max block_need_def round_up_def)
qed

text \<open>
  C26. The walk over the circular free list ends within a number of steps given by the size of the
  heap, and takes the first block in list order that is large enough; when there is none it
  returns nothing and leaves the state as it was.
\<close>

theorem search_terminates:
  assumes "rep s A"
  shows "search_free (heap_words s) n (flist_first s) s =
    (case List.find (a_fits A n) (order A) of
       None \<Rightarrow> Inr (None, s)
     | Some x \<Rightarrow> (case take_block x n s of
         Inl e \<Rightarrow> Inl e | Inr (_, s') \<Rightarrow> Inr (Some (x + 8), s')))"
  using search_ok [OF assms] .

lemma search_terminates_witness:
  "search_free (heap_words demo_hole) 500 (flist_first demo_hole) demo_hole = Inr (None, demo_hole)"
  using search_terminates [OF demo_hole(2), of 500] by (simp add: demo_abs_def a_fits_def)

text \<open>
  C27. After block_set_size_and_allocated of an aligned size of at least 16 bytes on a block inside
  the heap, the size and the flag are read back, at the header and at the end tag, and no byte
  outside the two tags has changed.
\<close>

theorem tags_roundtrip:
  assumes "tag_room s b sz"
  shows "\<exists>s'. block_set_size_and_allocated b sz (of_bool al) s = Inr ((), s') \<and>
    block_size b s' = Inr (sz, s') \<and> block_end_size b s' = Inr (sz, s') \<and>
    block_allocated b s' = Inr (of_bool al, s') \<and> block_end_allocated b s' = Inr (of_bool al, s') \<and>
    block_next b s' = Inr (b + sz, s') \<and>
    (\<forall>x. x \<notin> {b ..< b + 8} \<union> {b + sz - 8 ..< b + sz} \<longrightarrow> mem s' x = mem s x)"
proof -
  let ?t = "tagged b sz al s"
  have room: "tag_room ?t b sz" using assms by (simp add: tag_room_def)
  have m: "sz mod 8 = 0" using assms by (simp add: tag_room_def)
  have w: "wv ?t b = tag sz al" "wv ?t (b + sz - 8) = tag sz al"
    using wv_tagged [OF assms] tag_room_aligned [OF assms] by simp_all
  have "block_size b ?t = Inr (sz, ?t)" "block_allocated b ?t = Inr (of_bool al, ?t)"
    "block_next b ?t = Inr (b + sz, ?t)"
    using w room tag_parity [OF m, of al] by (simp_all add: block_eval tag_room_def)
  then show ?thesis
    using block_set_size_and_allocated_ok [OF assms, of al] block_end_size_ok [OF room w]
    by (auto simp: mem_tagged)
qed

lemma tags_roundtrip_witness:
  "\<exists>s'. block_set_size_and_allocated 4112 120 0 demo_hole = Inr ((), s') \<and>
     block_end_size 4112 s' = Inr (120, s')"
proof -
  have "lay demo_hole ([] @ (120, False) # [(216, True)])" "base demo_hole = 4112"
    using demo_hole(2) by (simp_all add: rep_def demo_abs_def)
  then have "tag_room demo_hole 4112 120" using lay_block(1) by fastforce
  from tags_roundtrip [OF this, of False] show ?thesis by auto
qed

text \<open>
  C28. Inserting a free block that is not on the list puts it at the head of the ring, and pulling
  it again restores the ring as it was.
\<close>

theorem insert_pull_roundtrip:
  assumes "free_links s fl" and "x \<notin> set fl" and "free_nodes s (set (x # fl))"
  shows "\<exists>t u. insert_free_block x s = Inr ((), t) \<and> free_links t (x # fl) \<and>
    pull_free_block x t = Inr ((), u) \<and> free_links u fl"
proof -
  obtain t where t: "insert_free_block x s = Inr ((), t)" "free_links t (x # fl)"
      "links_only (set (x # fl)) s t"
    using insert_free_block_links [OF assms] by blast
  have n: "free_nodes t (set (x # fl))" by (rule free_nodes_links_only [OF t(3) subset_refl assms(3)])
  show ?thesis using pull_free_block_links [of t "[]" x fl] t n by auto
qed

lemma insert_pull_roundtrip_witness:
  "\<exists>t. pull_free_block 4112 demo_hole = Inr ((), t) \<and>
     (\<exists>u v. insert_free_block 4112 t = Inr ((), u) \<and> pull_free_block 4112 u = Inr ((), v) \<and>
        free_links v [])"
proof -
  have fl: "free_links demo_hole ([] @ 4112 # [])" using demo_hole(2) by (simp add: rep_def demo_abs_def)
  have "lay demo_hole [(120, False), (216, True)]" "base demo_hole = 4112"
    using demo_hole(2) by (simp_all add: rep_def demo_abs_def)
  then have n: "free_nodes demo_hole (set ([] @ 4112 # []))" using lay_free_nodes by fastforce
  obtain t where t: "pull_free_block 4112 demo_hole = Inr ((), t)" "free_links t []"
      "links_only {} demo_hole t"
    using pull_free_block_links [OF fl n] by auto
  have "free_nodes t (set [4112])"
    using free_nodes_links_only [OF t(3), of "{4112}"] n by simp
  then show ?thesis using t(1) insert_pull_roundtrip [OF t(2), of 4112] by auto
qed

text \<open>
  C29. Freeing a block that is already free, while its header still begins a free block, is
  detected and does nothing; neither does freeing NULL.
\<close>

theorem double_free_ignored:
  assumes "rep s A" and "cut (abase A) (chunks A) (p - 8) = Some (us, (sz, False), vs)"
  shows "mm_free p s = Inr ((), s) \<and> mm_free NULL s = Inr ((), s)"
  using mm_free_again(1) [OF assms] mm_free_null by blast

lemma double_free_ignored_witness: "mm_free 4120 demo_hole = Inr ((), demo_hole)"
  using double_free_ignored [OF demo_hole(2), of 4120 "[]" 120 "[(216, True)]"]
  by (simp add: demo_abs_def)

text \<open>
  C30. mem_sbrk never lowers the break and never moves it beyond the end of the region: it returns
  the old break and raises it by the increment, or it returns -1 and changes nothing.
\<close>

theorem sbrk_bounds:
  assumes "0 \<le> mem_start_brk s" and "mem_start_brk s \<le> mem_brk s" and "mem_brk s \<le> mem_max_addr s"
  shows "\<exists>r s'. mem_sbrk incr s = Inr (r, s') \<and> mem_brk s \<le> mem_brk s' \<and>
    mem_brk s' \<le> mem_max_addr s' \<and>
    (if 0 \<le> incr \<and> mem_brk s + incr \<le> mem_max_addr s
     then r = mem_brk s \<and> r \<noteq> SBRK_FAILED \<and> mem_brk s' = r + incr
     else r = SBRK_FAILED \<and> s' = s)"
  using assms by (simp add: mem_sbrk_apply SBRK_FAILED_def)

lemma sbrk_bounds_witness:
  "\<exists>s'. mem_sbrk 64 demo_region = Inr (4096, s') \<and> mem_brk s' = 4160"
  using sbrk_bounds [of demo_region 64] by (auto simp: demo_region_def demo_max)

text \<open>
  C31. A request of 2^32 - 16 bytes defeats the check of mem_sbrk: the block size 2^32 becomes 0
  when it is passed as an int, mem_sbrk reports success without growing the heap, and setting
  the tags of the new block writes outside the region. This happens on every well-formed heap
  of at most MAX_HEAP bytes.
\<close>

theorem malloc_size_truncated:
  assumes "heap_inv s" and "mem_max_addr s \<le> mem_start_brk s + MAX_HEAP"
  shows "mm_malloc (2 ^ 32 - 16) s = Inl Bad_Address"
  using mm_malloc_truncated [OF assms] .

lemma malloc_size_truncated_witness: "mm_malloc 4294967280 demo_one = Inl Bad_Address"
proof -
  have "mem_max_addr demo_one = 4096 + MAX_HEAP" "mem_start_brk demo_one = 4096"
    using demo_one(2) by (simp_all add: rep_def demo_abs_def base_def)
  then show ?thesis using malloc_size_truncated [OF demo_invs(2)] by simp
qed

text \<open>
  C32. mm_realloc(NULL, n) returns NULL even when mm_malloc(n) succeeds: the block that was
  allocated stays allocated and the caller never learns its address.
\<close>

theorem realloc_null_loses_block:
  assumes "heap_inv s" and "size_ok n" and "mm_malloc n s = Inr (q, s')" and "q \<noteq> NULL"
  shows "mm_realloc NULL n s = Inr (NULL, s') \<and> payloads s q = None \<and> payloads s' q \<noteq> None"
  using mm.malloc [OF assms(1,2)] assms(3,4)
  by (auto simp: mm_realloc_def prog_eval NULL_def)

lemma realloc_null_loses_block_witness:
  "mm_realloc NULL 200 demo_one = Inr (NULL, demo_two) \<and> payloads demo_one 4240 = None \<and>
   payloads demo_two 4240 \<noteq> None"
  using realloc_null_loses_block [OF demo_invs(2) demo_size(2) demo_two(1)] by (simp add: NULL_def)

text \<open>
  C33. On such a trace eval_mm_valid never stops with a fault, however small or large the region
  is, as long as it is aligned and lies below 2^62. In a region of less than 32 bytes it
  returns 0 with exactly one report, that mm_init failed. Otherwise it returns 1 without a
  report, or 0 with exactly one report, which says that mm_malloc or mm_realloc failed and is
  made only when the trace demands more than the region holds.
\<close>

theorem trace_rejected_for_memory:
  assumes "0 < mem_start_brk (hp d)" and "mem_start_brk (hp d) mod 8 = 0" and "mem_max_addr (hp d) < 2 ^ 62"
    and "\<not> libc_out d" and "trace_ok (ids d) {} rs" and "low_bytes rs" and "is_int (errors d + 1)"
  shows "\<exists>v d'. eval_mm_valid rs tn d = Inr (v, d') \<and>
    (if mem_max_addr (hp d) < mem_start_brk (hp d) + 32
     then v = 0 \<and> errors d' = errors d + 1 \<and> reports d' = (tn, LINENUM 0, Text ''mm_init failed.'') # reports d
     else v = 1 \<and> errors d' = errors d \<and> reports d' = reports d \<or>
       v = 0 \<and> mem_max_addr (hp d) < mem_start_brk (hp d) + 32 + demand rs \<and> errors d' = errors d + 1 \<and>
       (\<exists>line msg. reports d' = (tn, line, msg) # reports d \<and>
          msg \<in> {Text ''mm_malloc failed.'', Text ''mm_realloc failed.''}))"
proof (cases "mem_max_addr (hp d) < mem_start_brk (hp d) + 32")
  case True
  then show ?thesis using eval_mm_valid_no_room [OF assms(1-3) True assms(7)] by (simp add: LINENUM_def)
next
  case False
  then have ready: "region_ready (hp d)" using assms(1-3) by (simp add: region_ready_def)
  show ?thesis
    using eval_mm_valid_ok [OF ready assms(4-7), of tn] restart [OF ready assms(4)] False
    by (auto simp: ended_def silent_def out_of_memory_def)
qed

lemma trace_rejected_for_memory_witness:
  "(\<exists>v d'. eval_mm_valid demo_ops 3 demo_driver = Inr (v, d') \<and> (v = 1 \<or> v = 0)) \<and>
   (\<exists>d'. eval_mm_valid demo_ops 3 (demo_driver\<lparr>hp := demo_region\<lparr>mem_max_addr := 4100\<rparr>\<rparr>) = Inr (0, d') \<and>
     reports d' = [(3, 5, Text ''mm_init failed.'')])"
proof
  have "0 < mem_start_brk (hp demo_driver)" "mem_start_brk (hp demo_driver) mod 8 = 0" "mem_max_addr (hp demo_driver) < 2 ^ 62"
    using demo_driver_ready(1) by (simp_all add: region_ready_def)
  from trace_rejected_for_memory [OF this demo_driver_ready(2) demo_trace_ok demo_driver_ready(3), of 3]
  show "\<exists>v d'. eval_mm_valid demo_ops 3 demo_driver = Inr (v, d') \<and> (v = 1 \<or> v = 0)" by (auto split: if_splits)
  let ?d = "demo_driver\<lparr>hp := demo_region\<lparr>mem_max_addr := 4100\<rparr>\<rparr>"
  have "ids ?d = ids demo_driver" by (simp add: ids_def)
  then show "\<exists>d'. eval_mm_valid demo_ops 3 ?d = Inr (0, d') \<and> reports d' = [(3, 5, Text ''mm_init failed.'')]"
    using trace_rejected_for_memory [of ?d demo_ops 3] demo_driver_ready(2,3) demo_trace_ok
    by (auto simp: demo_region_def LINENUM_def demo_driver_def)
qed

text \<open>
  C34. add_range accepts a block of positive size exactly when it is 8-byte aligned, lies inside
  the heap, and neither of its ends lies in a recorded range; it then records the block, and
  otherwise it returns 0 with one report and the list unchanged.
\<close>

theorem range_accepted:
  assumes "0 < sz" and "\<not> libc_out d" and "is_int (errors d + 1)"
  shows "\<exists>r d'. add_range lo sz tn i d = Inr (r, d') \<and>
    (if lo mod 8 = 0 \<and> mem_heap_lo (hp d) \<le> lo \<and> lo + sz - 1 \<le> mem_heap_hi (hp d) \<and>
        (\<forall>(plo, phi)\<in>set (ranges d). (lo < plo \<or> phi < lo) \<and> (lo + sz - 1 < plo \<or> phi < lo + sz - 1))
     then r = 1 \<and> d' = d\<lparr>ranges := (lo, lo + sz - 1) # ranges d\<rparr>
     else r = 0 \<and> ranges d' = ranges d \<and> errors d' = errors d + 1 \<and> (\<exists>msg. reports d' = (tn, i + 5, msg) # reports d))"
proof -
  show ?thesis
    unfolding no_hit [symmetric] using assms
    by (cases "List.find (hits lo (lo + sz - 1)) (ranges d)")
      (auto simp: add_range_def prog_eval Let_def mm_consts reported_def LINENUM_def)
qed

lemma range_accepted_witness:
  "\<exists>d'. add_range 4120 100 0 0 (demo_driver\<lparr>hp := demo_one\<rparr>) = Inr (1, d') \<and> ranges d' = [(4120, 4219)]"
proof -
  have "mem_heap_lo demo_one = 4096" "mem_heap_hi demo_one = 4247"
    using demo_one(2) lay_base(6) [of demo_one "[(120, True)]"]
    by (simp_all add: rep_def demo_abs_def base_def mem_heap_lo_def mem_heap_hi_def)
  then show ?thesis
    using range_accepted [of 100 "demo_driver\<lparr>hp := demo_one\<rparr>" 4120 0 0]
    by (auto simp: is_int_def)
qed

text \<open>
  C35. The overlap check of add_range looks only at the two ends of the new block: a block that
  strictly contains a recorded range is accepted although the two overlap.
\<close>

theorem range_misses_container:
  assumes "lo mod 8 = 0" and "mem_heap_lo (hp d) \<le> lo" and "lo + sz - 1 \<le> mem_heap_hi (hp d)"
    and "ranges d = [(plo, phi)]" and "lo < plo" and "plo \<le> phi" and "phi < lo + sz - 1" and "\<not> libc_out d"
  shows "add_range lo sz tn i d = Inr (1, d\<lparr>ranges := [(lo, lo + sz - 1), (plo, phi)]\<rparr>) \<and>
    {plo..phi} \<subseteq> {lo..lo + sz - 1}"
  using assms by (auto simp: add_range_def prog_eval Let_def mm_consts hits_def)

lemma range_misses_container_witness:
  "\<exists>d'. add_range 4112 120 0 0 (demo_driver\<lparr>hp := demo_one, ranges := [(4120, 4219)]\<rparr>) = Inr (1, d') \<and>
     ranges d' = [(4112, 4231), (4120, 4219)]"
proof -
  have "mem_heap_lo demo_one = 4096" "mem_heap_hi demo_one = 4247"
    using demo_one(2) lay_base(6) [of demo_one "[(120, True)]"]
    by (simp_all add: rep_def demo_abs_def base_def mem_heap_lo_def mem_heap_hi_def)
  then show ?thesis
    using range_misses_container [of 4112 "demo_driver\<lparr>hp := demo_one, ranges := [(4120, 4219)]\<rparr>" 120 4120 4219 0 0]
    by simp
qed

text \<open>
  C36. eval_mm_valid compares signed characters with the low byte of the index: for an index whose
  low byte is 128 or more it reports that mm_realloc did not preserve the data, although the
  call returned a block with the data of the old one.
\<close>

theorem high_index_rejected:
  assumes "tracks d L" and "i \<in> L" and "128 \<le> i AND 0xFF" and "0 < sz" and "sz < 2 ^ 31 - 64"
    and "is_int (errors d + 1)" and "mem_brk (hp d) + need sz \<le> mem_max_addr (hp d)"
  shows "\<exists>d1. valid_realloc tn n i sz d = Inr (False, reported tn n
      (Text ''mm_realloc did not preserve the data from old block'') d1) \<and>
    (\<exists>q. q \<noteq> NULL \<and> mm_realloc (blocks d ! nat i) sz (hp d) = Inr (q, hp d1) \<and>
       (\<forall>j. 0 \<le> j \<longrightarrow> j < block_sizes d ! nat i \<longrightarrow>
          mem (hp d1) (q + j) = mem (hp d) (blocks d ! nat i + j)))"
  using valid_realloc_high [OF assms(1-3) _ assms(6,7)] assms(4,5) by (simp add: small_ok_def NULL_def)

lemma high_index_rejected_witness:
  "\<exists>d1. tracks demo_high {128} \<and> valid_realloc 0 1 128 200 demo_high = Inr (False, reported 0 1
      (Text ''mm_realloc did not preserve the data from old block'') d1)"
  using high_index_rejected [OF demo_high(1), of 128 200 0 1] demo_high
  by (auto simp: is_int_def demo_max need_def block_need_def round_up_def)

text \<open>
  C37. A request for 0 bytes is accepted by eval_mm_valid, which skips it, and ends the driver in
  eval_mm_speed, which takes the NULL that mm_malloc returns for a failure.
\<close>

theorem zero_request_stops_timing:
  assumes "region_ready (hp d)" and "\<not> libc_out d"
  shows "eval_mm_valid [alloc_op i 0] tn d = Inr (1, restarted d) \<and> eval_mm_speed [alloc_op i 0] d = Inl (Exit 1)"
  using zero_size_replays [OF assms] by blast

lemma zero_request_stops_timing_witness:
  "eval_mm_valid [alloc_op 0 0] 0 demo_driver = Inr (1, restarted demo_driver) \<and>
   eval_mm_speed [alloc_op 0 0] demo_driver = Inl (Exit 1)"
  using zero_request_stops_timing [OF demo_driver_ready(1,2)] by blast

text \<open>
  C38. The test of block_set_size depends on uninitialised memory: block_set_size keeps the
  allocated bit that the block has, so when malloc returns blocks whose lowest bit is set, the
  assertion block1->size == 32 fails, and the test program stops on "all" and on "block_size",
  although block_set_size does what it should.
\<close>

theorem size_test_needs_clear_memory:
  assumes "test_library owns lmalloc lfree" and "owns (lib st) M m" and "600 \<le> m"
    and "\<forall>n s p s'. lmalloc n s = Inr (p, s') \<longrightarrow> odd (wv s' p)"
    and "name = ''all'' \<or> name = ''block_size''"
  shows "tests_main (inline_tests lmalloc lfree vm vfree) (prog # name # names) st = Inl Assert_Failed"
proof -
  have "test_library.marks lmalloc True"
    using assms(4) by (simp add: test_library.marks_def [OF assms(1)] test_library.flag_def [OF assms(1)])
  then have "set_size_test lmalloc lfree (lib st) = Inl Assert_Failed"
    by (rule test_library.size_test_fails [OF assms(1) _ assms(2,3)])
  then have stop: "run_test_in_separate_process (''block_size'', on_lib (set_size_test lmalloc lfree)) t = Inl Assert_Failed"
    if "lib t = lib st" for t
    using that by (simp add: run_test_in_separate_process_def announce_def on_lib_def prog_eval)
  obtain rest where "inline_tests lmalloc lfree vm vfree = (''block_size'', on_lib (set_size_test lmalloc lfree)) # rest"
    using inline_test_first by blast
  then show ?thesis
    using assms(5) by (auto simp: tests_main_def foreach_test_def announce_def stop prog_eval)
qed

lemma size_test_needs_clear_memory_witness:
  "tests_main (inline_tests (stamped_sbrk 1) keep_block None keep_block) [''tests'', ''all''] test_start = Inl Assert_Failed"
  using size_test_needs_clear_memory [OF stamped.test_library_axioms [of 1] test_start_owns, of "''all''"]
    stamped_parity [of 1]
  by (simp add: is_long_def)

text \<open>
  C39. The print command of the REPL walks a well-formed heap from the prologue to the epilogue and
  prints one line per block in address order: an allocated block with its size and the REPL's
  index for it, a free block with its size and two links that are on the free list. No
  complaint is printed and the heap is left as it is.
\<close>

theorem repl_print_lists_heap:
  assumes "heap_inv (hp (drv r))"
  shows "\<exists>evs. mm_print_heap_repl k r = Inr ((), r\<lparr>out :=
      Epilogue_At (epilogue (hp (drv r))) 16 # rev evs @ Prologue_At (prologue (hp (drv r))) 16 #
      Heap_Size (int_of_long (mem_heapsize (hp (drv r)))) # out r\<rparr>) \<and>
    list_all2 (line_ok (\<lambda>x. index_of x (rblocks r) k) (set (order (abs_heap (hp (drv r))))))
      (place (base (hp (drv r))) (chunks (abs_heap (hp (drv r))))) evs"
  by (rule mm_print_heap_repl_ok [OF assms])

lemma repl_print_lists_heap_witness:
  "\<exists>r'. mm_print_heap_repl 1 demo_printer = Inr ((), r') \<and> Allocated_Block (Some 3) 4112 120 \<in> set (out r')"
proof -
  have hp: "hp (drv demo_printer) = demo_one" by (simp add: demo_printer_def)
  have A: "chunks (abs_heap demo_one) = [(120, True)]" "base demo_one = 4112"
    using demo_one(2) lay_base(6) [of demo_one "[(120, True)]"] rep_abs_heap [OF demo_one(2)]
    by (simp_all add: rep_def demo_abs_def base_def)
  have idx: "index_of 4112 (rblocks demo_printer) 1 = Some 3"
    by (simp add: index_of_def find_repl_block_from_block_def demo_printer_def)
  have "heap_inv (hp (drv demo_printer))" using demo_invs(2) hp by simp
  from repl_print_lists_heap [OF this, of 1] show ?thesis
    by (auto simp: hp A idx line_ok_def int_of_long_id is_int_def list_all2_Cons1)
qed

text \<open>
  C40. The Alpha version of the cycle counter has only the low 32 bits, but subtracts in two halves
  like the i386 version: when these bits have wrapped around since start_counter, get_counter
  returns 2^64 - 2^32 cycles more than have passed.
\<close>

theorem alpha_counter_wrap:
  assumes "counter (env s) = Inr (a, e)" and "counter e' = Inr (b, e'')"
  shows "\<exists>s'. alpha_start_counter counter s = Inr ((), s') \<and> env s' = e \<and>
    alpha_get_counter counter (s'\<lparr>env := e'\<rparr>) =
      Inr (real_of_int (uint (b - a) + (if uint b < uint a then 2 ^ 64 - 2 ^ 32 else 0)), s'\<lparr>env := e''\<rparr>)"
proof -
  let ?s = "s\<lparr>cyc_hi := 0, env := e, cyc_lo := a\<rparr>"
  have "alpha_start_counter counter s = Inr ((), ?s)"
    using assms(1) by (simp add: alpha_start_counter_def prog_eval)
  then show ?thesis
    using alpha_get_counter_ok [of counter "?s\<lparr>env := e'\<rparr>" b e''] assms(2) by simp
qed

lemma alpha_counter_wrap_witness:
  "\<exists>s'. alpha_start_counter (\<lambda>x. Inr (x, x + 3)) \<lparr>env = 4294967295, cyc_hi = 0, cyc_lo = 0, cyc_per_tick = 0, start_tick = 0\<rparr> =
      Inr ((), s') \<and> alpha_get_counter (\<lambda>x. Inr (x, x + 3)) (s'\<lparr>env := 2\<rparr>) = Inr (3 + (2 ^ 64 - 2 ^ 32), s'\<lparr>env := 5\<rparr>)"
  using alpha_counter_wrap [of "\<lambda>x. Inr (x, x + 3)" "\<lparr>env = 4294967295, cyc_hi = 0, cyc_lo = 0, cyc_per_tick = 0, start_tick = 0\<rparr>"
      4294967295 "4294967295 + 3" 2 2 "2 + 3"]
  by simp blast

section \<open>Further consequences for a client\<close>

text \<open>
  Coalescing is complete: on a well-formed heap two neighbouring blocks are never both free.
\<close>

theorem no_two_free_neighbours:
  assumes "heap_inv s" and "chunks (abs_heap s) = us @ (m, a) # (n, b) # vs"
  shows "a \<or> b"
  using heap_invD [OF assms(1)] assms(2)
  by (simp add: rep_def no_adjacent_free_append no_adjacent_free_Cons)

text \<open>
  What a client writes into a live payload is still there after any later allocation.
\<close>

theorem write_survives_malloc:
  assumes "heap_inv s" and "payloads s p = Some k" and "0 \<le> n" and "n \<le> k" and "size_ok sz"
    and "memset p c n s = Inr ((), s1)" and "mm_malloc sz s1 = Inr (q, s2)" and "0 \<le> i" and "i < n"
  shows "mem s2 (p + i) = word_of_int c"
  using mm_write.fill_malloc [OF assms] .

text \<open>
  Allocating a block and freeing it at once leaves the client where it was: the same live
  payloads with the same bytes.
\<close>

theorem malloc_free_neutral:
  assumes "heap_inv s" and "size_ok sz" and "mm_malloc sz s = Inr (q, s1)" and "q \<noteq> NULL"
  shows "\<exists>s2. mm_free q s1 = Inr ((), s2) \<and> heap_inv s2 \<and> payloads s2 = payloads s \<and>
    payload_kept (payloads s) (mem s) (mem s2)"
  using mm.malloc_free [OF assms [unfolded NULL_def]] by blast

text \<open>
  A utilization that eval_mm_util returns on a well-formed trace lies between 0 and 1: at no
  moment do the live blocks have more bytes than the heap at the end.
\<close>

theorem utilization_bounds:
  assumes "region_ready (hp d)" and "\<not> libc_out d" and "int_region (hp d)" and "trace_ok (ids d) {} rs"
    and "eval_mm_util rs tn d = Inr (u, d')"
  shows "0 \<le> u \<and> u \<le> 1"
  using eval_mm_util_ok [OF assms(1-4), of tn] assms(5) by (auto simp: divide_le_eq)

text \<open>
  eval_mm_speed runs a well-formed trace to its end when the region has room for what the
  trace demands, and leaves a well-formed heap whose live payloads are the blocks of the
  indices that are still live.
\<close>

theorem timed_replay_completes:
  assumes "region_ready (hp d)"
    and "trace_ok (ids d) {} rs" and "mem_start_brk (hp d) + 32 + demand rs \<le> mem_max_addr (hp d)"
  shows "\<exists>d'. eval_mm_speed rs d = Inr ((), d') \<and> heap_inv (hp d') \<and>
    dom (payloads (hp d')) = (\<lambda>i. blocks d' ! nat i) ` live_after {} rs"
  using eval_mm_speed_ok [OF assms(1,2)] assms(3) by auto

text \<open>
  For every allocator that stands for the C library's, eval_libc_valid succeeds exactly when
  eval_libc_speed runs to its end, with result 1 and the same state: the checked replay of the
  library differs from the timed one only in its report before it exits.
\<close>

theorem libc_replays_agree:
  "eval_libc_valid m r f rs tn d = Inr (v, d') \<longleftrightarrow> v = 1 \<and> eval_libc_speed m r f rs d = Inr ((), d')"
  by (rule eval_libc_valid_iff)

text \<open>
  For every allocator with the guarantees that the C standard gives for malloc, realloc and
  free, the libc replay of a well-formed trace ends with the live indices pointing to distinct
  live blocks, or exits because a call failed; it never frees or reallocates a block that is
  not live.
\<close>

theorem libc_blocks_distinct:
  assumes "c_library I owned good m f r" and "\<forall>sz. small_ok sz \<longrightarrow> good sz" and "I (hp d)"
    and "trace_ok {0..<int (length (blocks d))} {} rs"
  shows "(\<exists>d'. eval_libc_valid m r f rs tn d = Inr (1, d') \<and> I (hp d') \<and>
      inj_on (\<lambda>i. blocks d' ! nat i) (live_after {} rs) \<and>
      (\<forall>i\<in>live_after {} rs. owned (hp d') (blocks d' ! nat i) \<noteq> None)) \<or>
    eval_libc_speed m r f rs d = Inl (Exit 1)"
  using eval_libc_ok [OF assms] unfolding eval_libc_valid_iff by blast

text \<open>
  The driver's run as a whole, from mem_init to the summary: on trace files that hold
  well-formed traces whose demand fits into the region, the package of mm.c is reported as
  consistent on every trace, nothing is reported as an error, and the performance index is a
  number between 0 and 100. The replays are timed by fsecs on interval timers that count down.
\<close>

theorem driver_scores_package:
  assumes "counts_down setitimer getitimer left" and "tracefiles c = Some (map trace_name ts)" and "num_tracefiles c = int (length ts)"
    and "list_all (good_trace e (tracedir c)) ts" and "malloc_ok e (num_tracefiles c * 2080)"
    and "0 < p" and "p mod 8 = 0" and "p + MAX_HEAP < 2 ^ 62" and "\<not> libc_out (fst (sys s))"
    and "errors (fst (sys s)) = 0" and "concat (map ops ts) \<noteq> []"
  shows "\<exists>rep s'. run_main e setitimer getitimer (Some p) open_ok write_ok c s = Inr (rep, s') \<and>
    reports (fst (sys s')) = reports (fst (sys s)) \<and>
    numcorrect rep = int (length ts) \<and>
    (\<not> gradescope c \<longrightarrow> (\<exists>x. perfindex rep = Some x \<and> 0 \<le> x \<and> x \<le> 100))"
  by (rule run_main_ok [OF assms])

text \<open>
  get_counter returns the number of cycles since start_counter, modulo 2^64: the subtraction
  in two halves of 32 bits with a borrow is the subtraction of the two 64-bit readings, also
  when the low half or the whole counter has wrapped around.
\<close>

theorem counter_wraps:
  assumes "access_counter (env s) = Inr ((hi, lo), e)"
  shows "get_counter access_counter s =
    Inr (real_of_int (((uint hi * 2 ^ 32 + uint lo) - (uint (cyc_hi s) * 2 ^ 32 + uint (cyc_lo s))) mod 2 ^ 64),
      s\<lparr>env := e\<rparr>)"
  using get_counter_ok [of access_counter s hi lo e] assms by (simp add: cycles_def)

end
